(* ===== verification/TgcPrelude.thy ===== *)
theory TgcPrelude
  imports Main "HOL-Library.Word"
begin

text \<open>
  Shared vocabulary of the development: the machine integers of the C sources, the Linux error
  numbers, and the two list idioms the store is written in, a search for the first array slot
  that satisfies a condition and a count of the slots that do.

  Unsigned fixed-width integers are words. \<open>int\<close>, \<open>int32_t\<close> and \<open>int64_t\<close> are mathematical
  integers; every conversion between the two is written out (\<open>sint\<close> for a cast to a signed type,
  \<open>word_of_int\<close> for a cast to an unsigned one), and \<open>in_i32\<close>, \<open>in_i64\<close> name the ranges. \<open>int16_t\<close>
  keeps its width, because \<open>semop\<close> mixes it with unsigned arithmetic. A \<open>size_t\<close> used as an index
  or a count is a \<open>nat\<close>.
\<close>

unbundle bit_operations_syntax

named_theorems wire_simps \<open>reading back what was written to a packet buffer\<close>
named_theorems store_simps \<open>projections of an updated semaphore store\<close>

type_synonym u8 = "8 word"
type_synonym u16 = "16 word"
type_synonym u32 = "32 word"
type_synonym u64 = "64 word"
type_synonym i16 = "16 word"

definition in_i32 :: "int \<Rightarrow> bool" where
  "in_i32 x \<longleftrightarrow> - 2147483648 \<le> x \<and> x \<le> 2147483647"

definition in_i64 :: "int \<Rightarrow> bool" where
  "in_i64 x \<longleftrightarrow> - 9223372036854775808 \<le> x \<and> x \<le> 9223372036854775807"

text \<open>The error numbers the sources use, with the values the Linux ABI gives them.\<close>

datatype errno =
    EPERM | ENOENT | EINTR | E2BIG | EAGAIN | ENOMEM | EACCES | EFAULT | EEXIST | ENOTDIR
  | EINVAL | ENOSPC | EPIPE | ERANGE | ENAMETOOLONG | ENOSYS | EPROTO | EOVERFLOW | EMSGSIZE
  | EADDRINUSE | ECONNRESET | ETIMEDOUT

primrec errno_code :: "errno \<Rightarrow> int" where
  "errno_code EPERM = 1"
| "errno_code ENOENT = 2"
| "errno_code EINTR = 4"
| "errno_code E2BIG = 7"
| "errno_code EAGAIN = 11"
| "errno_code ENOMEM = 12"
| "errno_code EACCES = 13"
| "errno_code EFAULT = 14"
| "errno_code EEXIST = 17"
| "errno_code ENOTDIR = 20"
| "errno_code EINVAL = 22"
| "errno_code ENOSPC = 28"
| "errno_code EPIPE = 32"
| "errno_code ERANGE = 34"
| "errno_code ENAMETOOLONG = 36"
| "errno_code ENOSYS = 38"
| "errno_code EPROTO = 71"
| "errno_code EOVERFLOW = 75"
| "errno_code EMSGSIZE = 90"
| "errno_code EADDRINUSE = 98"
| "errno_code ECONNRESET = 104"
| "errno_code ETIMEDOUT = 110"

text \<open>\<open>err e\<close> is the C expression \<open>-e\<close>: how every fallible function of the sources reports a failure.\<close>

definition err :: "errno \<Rightarrow> int" where
  "err e = - errno_code e"

text \<open>The first index of an array whose element satisfies a condition: a search loop that
  returns the address of the element, or \<open>NULL\<close> after the last one.\<close>

fun find_index :: "('a \<Rightarrow> bool) \<Rightarrow> 'a list \<Rightarrow> nat option" where
  "find_index P [] = None"
| "find_index P (x # xs) = (if P x then Some 0 else map_option Suc (find_index P xs))"

lemma err_neg [simp]: "err e < 0"
  by (cases e) (simp_all add: err_def)

lemma err_not_nonneg [simp]: "\<not> 0 \<le> err e" "err e \<noteq> 0" "err e \<noteq> 1" "0 \<noteq> err e" "1 \<noteq> err e"
  using err_neg [of e] by linarith+

lemma err_inj [simp]: "err e = err e' \<longleftrightarrow> e = e'"
  by (cases e; cases e') (simp_all add: err_def)

lemma err_in_i32 [simp]: "in_i32 (err e)"
  by (cases e) (simp_all add: err_def in_i32_def)

lemma err_neq_nonneg: "0 \<le> r \<Longrightarrow> err e \<noteq> r"
  using err_neg [of e] by linarith

subsection \<open>Casts between signed and unsigned integers\<close>

lemma sint_word_of_int_32: "in_i32 v \<Longrightarrow> sint (word_of_int v :: u32) = v"
  by (simp add: in_i32_def sint_sbintrunc' signed_take_bit_int_eq_self)

lemma sint_word_of_int_64: "in_i64 v \<Longrightarrow> sint (word_of_int v :: u64) = v"
  by (simp add: in_i64_def sint_sbintrunc' signed_take_bit_int_eq_self)

lemma in_i32_sint [simp]: "in_i32 (sint (w::u32))"
  using sint_greater_eq [of w] sint_less [of w] by (simp add: in_i32_def)

lemma in_i64_sint [simp]: "in_i64 (sint (w::u64))"
  using sint_greater_eq [of w] sint_less [of w] by (simp add: in_i64_def)

lemma uint_word_of_int_u32: "0 \<le> x \<Longrightarrow> x < 4294967296 \<Longrightarrow> uint (word_of_int x :: u32) = x"
  by (simp add: unsigned_of_int take_bit_int_eq_self)

lemma uint_word_of_int_u16: "0 \<le> x \<Longrightarrow> x < 65536 \<Longrightarrow> uint (word_of_int x :: u16) = x"
  by (simp add: unsigned_of_int take_bit_int_eq_self)

lemma uint_le_u16: "(v::u16) \<le> 32767 \<longleftrightarrow> uint v \<le> 32767"
  by (simp add: word_le_def)

lemma sint_i16_bounds: "- 32768 \<le> sint (d::i16)" "sint (d::i16) \<le> 32767"
  using sint_greater_eq [of d] sint_less [of d] by simp_all

lemma in_i32_small [simp]: "in_i32 0" "in_i32 1" "in_i32 2147483647"
  by (simp_all add: in_i32_def)

lemma uint_u16_in_i32 [simp]: "in_i32 (uint (v::u16))"
proof -
  have "uint v < 65536" using uint_lt2p [of v] by simp
  then show ?thesis unfolding in_i32_def using uint_ge_0 [of v] by linarith
qed

subsection \<open>Searching an array\<close>

lemma find_index_None: "find_index P xs = None \<longleftrightarrow> (\<forall>x\<in>set xs. \<not> P x)"
  by (induction xs) auto

lemma find_index_SomeD:
  assumes "find_index P xs = Some i"
  shows "i < length xs" "P (xs ! i)" "\<And>j. j < i \<Longrightarrow> \<not> P (xs ! j)"
proof -
  have "i < length xs \<and> P (xs ! i) \<and> (\<forall>j<i. \<not> P (xs ! j))"
    using assms
  proof (induction xs arbitrary: i)
    case Nil
    then show ?case by simp
  next
    case (Cons x xs)
    then show ?case by (auto split: if_splits simp: less_Suc_eq_0_disj)
  qed
  then show "i < length xs" "P (xs ! i)" "\<And>j. j < i \<Longrightarrow> \<not> P (xs ! j)" by auto
qed

lemma find_index_eq_Some:
  "find_index P xs = Some i \<longleftrightarrow> i < length xs \<and> P (xs ! i) \<and> (\<forall>j<i. \<not> P (xs ! j))"
proof
  assume "find_index P xs = Some i"
  then show "i < length xs \<and> P (xs ! i) \<and> (\<forall>j<i. \<not> P (xs ! j))"
    using find_index_SomeD by blast
next
  assume i: "i < length xs \<and> P (xs ! i) \<and> (\<forall>j<i. \<not> P (xs ! j))"
  show "find_index P xs = Some i"
  proof (cases "find_index P xs")
    case None
    then show ?thesis using i by (auto simp: find_index_None)
  next
    case (Some k)
    with i have "\<not> k < i" "\<not> i < k" using find_index_SomeD [OF Some] by blast+
    with Some show ?thesis by simp
  qed
qed

text \<open>When at most one element can satisfy the condition, finding one is finding that one.\<close>

lemma find_index_unique:
  assumes "i < length xs" "P (xs ! i)" "\<And>j. j < length xs \<Longrightarrow> P (xs ! j) \<Longrightarrow> j = i"
  shows "find_index P xs = Some i"
proof -
  have "\<not> P (xs ! j)" if "j < i" for j
  proof
    assume "P (xs ! j)"
    with assms(3) [of j] assms(1) that show False by simp
  qed
  with assms(1,2) show ?thesis by (simp add: find_index_eq_Some)
qed

lemma find_index_replicate [simp]:
  "find_index P (replicate n x) = (if 0 < n \<and> P x then Some 0 else None)"
  by (cases n) (auto simp: find_index_None)

lemma find_index_cong: "(\<And>x. x \<in> set xs \<Longrightarrow> P x = Q x) \<Longrightarrow> find_index P xs = find_index Q xs"
  by (induction xs) auto

lemma find_index_map: "find_index P (map f xs) = find_index (P \<circ> f) xs"
  by (induction xs) auto

text \<open>Writing a slot that is not the one searched for, with a value that is not either.\<close>

lemma find_index_update_same:
  assumes "i < length xs" "\<not> P (xs ! i)" "\<not> P x"
  shows "find_index P (xs[i := x]) = find_index P xs"
  using assms
proof (induction xs arbitrary: i)
  case (Cons y ys)
  then show ?case by (cases i) auto
qed simp

text \<open>Writing a slot with a value that satisfies the condition exactly when the old one did.\<close>

lemma find_index_update_iff:
  assumes "i < length xs" "P x = P (xs ! i)"
  shows "find_index P (xs[i := x]) = find_index P xs"
  using assms
proof (induction xs arbitrary: i)
  case (Cons y ys)
  then show ?case by (cases i) auto
qed simp

subsection \<open>Counting the slots of an array\<close>

definition count_slots :: "('a \<Rightarrow> bool) \<Rightarrow> 'a list \<Rightarrow> nat" where
  "count_slots P xs = length (filter P xs)"

lemma count_slots_simps [simp]:
  "count_slots P [] = 0"
  "count_slots P (x # xs) = (if P x then Suc (count_slots P xs) else count_slots P xs)"
  "count_slots P (xs @ ys) = count_slots P xs + count_slots P ys"
  "count_slots P (replicate n x) = (if P x then n else 0)"
  by (simp_all add: count_slots_def filter_replicate)

lemma count_slots_update:
  "i < length xs \<Longrightarrow>
   count_slots P (xs[i := x]) + (if P (xs ! i) then 1 else 0) =
   count_slots P xs + (if P x then 1 else 0)"
proof (induction xs arbitrary: i)
  case (Cons y ys)
  show ?case
  proof (cases i)
    case (Suc k)
    with Cons.prems have "count_slots P (ys[k := x]) + (if P (ys ! k) then 1 else 0) =
        count_slots P ys + (if P x then 1 else 0)" by (intro Cons.IH) simp
    with Suc show ?thesis by simp
  qed simp
qed simp

lemma count_slots_pos: "0 < count_slots P xs \<longleftrightarrow> (\<exists>x\<in>set xs. P x)"
  by (induction xs) auto

lemma count_slots_find: "0 < count_slots P xs \<longleftrightarrow> find_index P xs \<noteq> None"
  by (simp add: count_slots_pos find_index_None)

subsection \<open>Components driven by calls\<close>

text \<open>A component as its clients see it: a state, and calls that give a result and the next state.
  \<open>run_calls\<close> issues a list of calls and keeps each result beside its call.\<close>

fun run_calls :: "('c \<Rightarrow> 's \<Rightarrow> 'r \<times> 's) \<Rightarrow> 'c list \<Rightarrow> 's \<Rightarrow> ('c \<times> 'r) list \<times> 's" where
  "run_calls exec [] s = ([], s)"
| "run_calls exec (c # cs) s =
     (let (r, s) = exec c s; (rs, s) = run_calls exec cs s in ((c, r) # rs, s))"

text \<open>The observable histories of a specification that relates a call, a state, a result and the
  next state.\<close>

inductive spec_trace :: "('c \<Rightarrow> 'a \<Rightarrow> 'r \<Rightarrow> 'a \<Rightarrow> bool) \<Rightarrow> 'a \<Rightarrow> ('c \<times> 'r) list \<Rightarrow> 'a \<Rightarrow> bool"
  for step where
  trace_nil: "spec_trace step st [] st"
| trace_call: "step c st r st' \<Longrightarrow> spec_trace step st' crs st'' \<Longrightarrow> spec_trace step st ((c, r) # crs) st''"

text \<open>The contract of a component: calls with proper arguments keep its invariant.\<close>

locale call_system =
  fixes exec :: "'c \<Rightarrow> 's \<Rightarrow> 'r \<times> 's"
    and ok :: "'c \<Rightarrow> bool"
    and inv :: "'s \<Rightarrow> bool"
  assumes exec_inv: "inv s \<Longrightarrow> ok c \<Longrightarrow> inv (snd (exec c s))"
begin

lemma run_inv: "inv s \<Longrightarrow> list_all ok cs \<Longrightarrow> inv (snd (run_calls exec cs s))"
  by (induction cs arbitrary: s) (auto simp: case_prod_beta Let_def exec_inv)

end

text \<open>A component that implements a specification: each call is a step of it, seen through \<open>abs\<close>.\<close>

locale simulation = call_system exec ok inv
  for exec :: "'c \<Rightarrow> 's \<Rightarrow> 'r \<times> 's" and ok :: "'c \<Rightarrow> bool" and inv :: "'s \<Rightarrow> bool" +
  fixes abs :: "'s \<Rightarrow> 'a"
    and step :: "'c \<Rightarrow> 'a \<Rightarrow> 'r \<Rightarrow> 'a \<Rightarrow> bool"
  assumes exec_step: "inv s \<Longrightarrow> ok c \<Longrightarrow> step c (abs s) (fst (exec c s)) (abs (snd (exec c s)))"
begin

lemma run_trace:
  "inv s \<Longrightarrow> list_all ok cs \<Longrightarrow>
   spec_trace step (abs s) (fst (run_calls exec cs s)) (abs (snd (run_calls exec cs s)))"
proof (induction cs arbitrary: s)
  case (Cons c cs)
  then have "step c (abs s) (fst (exec c s)) (abs (snd (exec c s)))"
    "spec_trace step (abs (snd (exec c s))) (fst (run_calls exec cs (snd (exec c s))))
       (abs (snd (run_calls exec cs (snd (exec c s)))))"
    using exec_step exec_inv by simp_all
  then show ?case by (simp add: case_prod_beta Let_def spec_trace.trace_call)
qed (simp add: spec_trace.trace_nil)

end

subsection \<open>Queues\<close>

text \<open>A queue whose elements may also leave from the middle, as blocked threads do. The list says what it holds,
  oldest first.\<close>

datatype 'a queue_op = Enqueue 'a | Leave 'a

fun queue_spec :: "'a queue_op list \<Rightarrow> 'a list \<Rightarrow> 'a list" where
  "queue_spec [] ws = ws"
| "queue_spec (Enqueue a # ops) ws = queue_spec ops (ws @ [a])"
| "queue_spec (Leave a # ops) ws = queue_spec ops (removeAll a ws)"

text \<open>Nobody enters twice.\<close>

fun enters_once :: "'a queue_op list \<Rightarrow> 'a list \<Rightarrow> bool" where
  "enters_once [] ws \<longleftrightarrow> True"
| "enters_once (Enqueue a # ops) ws \<longleftrightarrow> a \<notin> set ws \<and> enters_once ops (ws @ [a])"
| "enters_once (Leave a # ops) ws \<longleftrightarrow> enters_once ops (removeAll a ws)"

fun queue_run :: "('q \<Rightarrow> 'a \<Rightarrow> 'q) \<Rightarrow> ('q \<Rightarrow> 'a \<Rightarrow> 'q option) \<Rightarrow> 'a queue_op list \<Rightarrow> 'q \<Rightarrow> 'q option" where
  "queue_run enq leave [] q = Some q"
| "queue_run enq leave (Enqueue a # ops) q = queue_run enq leave ops (enq q a)"
| "queue_run enq leave (Leave a # ops) q = (case leave q a of None \<Rightarrow> None | Some q' \<Rightarrow> queue_run enq leave ops q')"

text \<open>An implementation of such a queue: \<open>rep\<close> says which list a state stands for, \<open>room\<close> that an
  element has a place to be linked at.\<close>

locale fifo_queue =
  fixes rep :: "'q \<Rightarrow> 'a list \<Rightarrow> bool"
    and room :: "'q \<Rightarrow> 'a \<Rightarrow> bool"
    and enq :: "'q \<Rightarrow> 'a \<Rightarrow> 'q"
    and leave :: "'q \<Rightarrow> 'a \<Rightarrow> 'q option"
  assumes enq_rep: "rep q ws \<Longrightarrow> a \<notin> set ws \<Longrightarrow> room q a \<Longrightarrow> rep (enq q a) (ws @ [a])"
    and leave_rep: "rep q ws \<Longrightarrow> \<exists>q'. leave q a = Some q' \<and> rep q' (removeAll a ws)"
    and enq_room: "room (enq q a) x \<longleftrightarrow> room q x"
    and leave_room: "leave q a = Some q' \<Longrightarrow> room q' x \<longleftrightarrow> room q x"
begin

lemma run_rep:
  "rep q ws \<Longrightarrow> enters_once ops ws \<Longrightarrow> \<forall>a. Enqueue a \<in> set ops \<longrightarrow> room q a \<Longrightarrow>
   \<exists>q'. queue_run enq leave ops q = Some q' \<and> rep q' (queue_spec ops ws)"
proof (induction ops ws arbitrary: q rule: queue_spec.induct)
  case (2 a ops ws)
  then show ?case by (simp add: enq_rep enq_room)
next
  case (3 a ops ws)
  then obtain q' where "leave q a = Some q'" "rep q' (removeAll a ws)" using leave_rep by blast
  with 3 leave_room show ?case by simp
qed simp

end

subsection \<open>Threads that interleave\<close>

text \<open>The states a concurrent program can be in: it starts in one that satisfies \<open>init\<close>, and each step of
  one of its threads leads from one state to the next.\<close>

inductive reached :: "('s \<Rightarrow> bool) \<Rightarrow> ('s \<Rightarrow> 's \<Rightarrow> bool) \<Rightarrow> 's \<Rightarrow> bool" for init step where
  reached_start: "init s \<Longrightarrow> reached init step s"
| reached_step: "reached init step s \<Longrightarrow> step s s' \<Longrightarrow> reached init step s'"

text \<open>A condition that the start establishes and every step keeps holds in all of them, under any interleaving.\<close>

locale transition_system =
  fixes init :: "'s \<Rightarrow> bool"
    and step :: "'s \<Rightarrow> 's \<Rightarrow> bool"
    and inv :: "'s \<Rightarrow> bool"
  assumes init_inv: "init s \<Longrightarrow> inv s"
    and step_inv: "step s s' \<Longrightarrow> inv s \<Longrightarrow> inv s'"
begin

lemma reached_inv: "reached init step s \<Longrightarrow> inv s"
  by (induction rule: reached.induct) (blast intro: init_inv step_inv)+

lemma later_inv: "step\<^sup>*\<^sup>* s s' \<Longrightarrow> inv s \<Longrightarrow> inv s'"
  by (induction rule: rtranclp_induct) (blast intro: step_inv)+

end

end
