(* ===== verification/Wire.thy ===== *)
theory Wire
  imports TgcPrelude
begin

text \<open>
  The wire format of \<open>src/protocol.c\<close> and \<open>include/tgcompat/protocol.h\<close>: little-endian integers at
  byte offsets of a packet buffer, and the fixed 24-byte packet header. A buffer is the list of its
  bytes; writing through \<open>output + off\<close> is a list update at \<open>off\<close> and leaves the length alone.
  The locale \<open>wire_codec\<close> states what the users of the format rely on: a value read where it was
  written is that value, and a write leaves every disjoint field alone.
\<close>

abbreviation (input) TGC_PROTOCOL_MAGIC :: u32 where "TGC_PROTOCOL_MAGIC \<equiv> 0x43534754"
abbreviation (input) TGC_PROTOCOL_VERSION :: u16 where "TGC_PROTOCOL_VERSION \<equiv> 1"
abbreviation (input) TGC_PROTOCOL_HEADER_SIZE :: nat where "TGC_PROTOCOL_HEADER_SIZE \<equiv> 24"
abbreviation (input) TGC_PROTOCOL_MAX_PAYLOAD :: nat where "TGC_PROTOCOL_MAX_PAYLOAD \<equiv> 8192"
abbreviation (input) TGC_PROTOCOL_REQUEST :: u16 where "TGC_PROTOCOL_REQUEST \<equiv> 1"
abbreviation (input) TGC_PROTOCOL_RESPONSE :: u16 where "TGC_PROTOCOL_RESPONSE \<equiv> 2"

abbreviation (input) TGC_OPCODE_PING :: u16 where "TGC_OPCODE_PING \<equiv> 1"
abbreviation (input) TGC_OPCODE_SEMGET :: u16 where "TGC_OPCODE_SEMGET \<equiv> 2"
abbreviation (input) TGC_OPCODE_REMOVE :: u16 where "TGC_OPCODE_REMOVE \<equiv> 3"
abbreviation (input) TGC_OPCODE_GETVAL :: u16 where "TGC_OPCODE_GETVAL \<equiv> 4"
abbreviation (input) TGC_OPCODE_SETVAL :: u16 where "TGC_OPCODE_SETVAL \<equiv> 5"
abbreviation (input) TGC_OPCODE_GETPID :: u16 where "TGC_OPCODE_GETPID \<equiv> 6"
abbreviation (input) TGC_OPCODE_GETALL :: u16 where "TGC_OPCODE_GETALL \<equiv> 7"
abbreviation (input) TGC_OPCODE_SETALL :: u16 where "TGC_OPCODE_SETALL \<equiv> 8"
abbreviation (input) TGC_OPCODE_SEMOP :: u16 where "TGC_OPCODE_SEMOP \<equiv> 9"
abbreviation (input) TGC_OPCODE_GETNCNT :: u16 where "TGC_OPCODE_GETNCNT \<equiv> 10"
abbreviation (input) TGC_OPCODE_GETZCNT :: u16 where "TGC_OPCODE_GETZCNT \<equiv> 11"
abbreviation (input) TGC_OPCODE_STAT :: u16 where "TGC_OPCODE_STAT \<equiv> 12"
abbreviation (input) TGC_OPCODE_SETMETA :: u16 where "TGC_OPCODE_SETMETA \<equiv> 13"
abbreviation (input) TGC_OPCODE_SEMTIMEDOP :: u16 where "TGC_OPCODE_SEMTIMEDOP \<equiv> 14"
abbreviation (input) TGC_OPCODE_INFO :: u16 where "TGC_OPCODE_INFO \<equiv> 15"
abbreviation (input) TGC_OPCODE_STAT_INDEX :: u16 where "TGC_OPCODE_STAT_INDEX \<equiv> 16"

record tgc_protocol_header =
  version :: u16
  kind :: u16
  opcode :: u16
  request_id :: u32
  payload_length :: u32
  hdr_result :: int

record tgc_protocol_packet =
  header :: tgc_protocol_header
  payload :: "u8 list"

text \<open>A packet of the sources: the payload array has 8192 bytes and the result is an \<open>int32_t\<close>.\<close>

definition packet_ok :: "tgc_protocol_packet \<Rightarrow> bool" where
  "packet_ok p \<longleftrightarrow> length (payload p) = TGC_PROTOCOL_MAX_PAYLOAD \<and> in_i32 (hdr_result (header p))"

definition tgc_wire_put_u16 :: "u8 list \<Rightarrow> nat \<Rightarrow> u16 \<Rightarrow> u8 list" where
  "tgc_wire_put_u16 output off v =
     output[off := ucast (v AND 0xff), off + 1 := ucast (drop_bit 8 v)]"

definition tgc_wire_put_u32 :: "u8 list \<Rightarrow> nat \<Rightarrow> u32 \<Rightarrow> u8 list" where
  "tgc_wire_put_u32 output off v =
     output[off := ucast (v AND 0xff), off + 1 := ucast (drop_bit 8 v AND 0xff),
            off + 2 := ucast (drop_bit 16 v AND 0xff), off + 3 := ucast (drop_bit 24 v)]"

definition tgc_wire_put_i16 :: "u8 list \<Rightarrow> nat \<Rightarrow> i16 \<Rightarrow> u8 list" where
  "tgc_wire_put_i16 output off v = tgc_wire_put_u16 output off v"

definition tgc_wire_put_i32 :: "u8 list \<Rightarrow> nat \<Rightarrow> int \<Rightarrow> u8 list" where
  "tgc_wire_put_i32 output off v = tgc_wire_put_u32 output off (word_of_int v)"

definition tgc_wire_put_u64 :: "u8 list \<Rightarrow> nat \<Rightarrow> u64 \<Rightarrow> u8 list" where
  "tgc_wire_put_u64 output off v =
     tgc_wire_put_u32 (tgc_wire_put_u32 output off (ucast v)) (off + 4) (ucast (drop_bit 32 v))"

definition tgc_wire_put_i64 :: "u8 list \<Rightarrow> nat \<Rightarrow> int \<Rightarrow> u8 list" where
  "tgc_wire_put_i64 output off v = tgc_wire_put_u64 output off (word_of_int v)"

definition tgc_wire_get_u16 :: "u8 list \<Rightarrow> nat \<Rightarrow> u16" where
  "tgc_wire_get_u16 input off = ucast (input ! off) OR push_bit 8 (ucast (input ! (off + 1)))"

definition tgc_wire_get_u32 :: "u8 list \<Rightarrow> nat \<Rightarrow> u32" where
  "tgc_wire_get_u32 input off =
     ucast (input ! off) OR push_bit 8 (ucast (input ! (off + 1))) OR
     push_bit 16 (ucast (input ! (off + 2))) OR push_bit 24 (ucast (input ! (off + 3)))"

definition tgc_wire_get_i16 :: "u8 list \<Rightarrow> nat \<Rightarrow> i16" where
  "tgc_wire_get_i16 input off = tgc_wire_get_u16 input off"

definition tgc_wire_get_i32 :: "u8 list \<Rightarrow> nat \<Rightarrow> int" where
  "tgc_wire_get_i32 input off = sint (tgc_wire_get_u32 input off)"

definition tgc_wire_get_u64 :: "u8 list \<Rightarrow> nat \<Rightarrow> u64" where
  "tgc_wire_get_u64 input off =
     ucast (tgc_wire_get_u32 input off) OR push_bit 32 (ucast (tgc_wire_get_u32 input (off + 4)))"

definition tgc_wire_get_i64 :: "u8 list \<Rightarrow> nat \<Rightarrow> int" where
  "tgc_wire_get_i64 input off = sint (tgc_wire_get_u64 input off)"

definition header_is_valid :: "tgc_protocol_header \<Rightarrow> int" where
  "header_is_valid h =
     (if version h \<noteq> TGC_PROTOCOL_VERSION then err EPROTO
      else if kind h \<noteq> TGC_PROTOCOL_REQUEST \<and> kind h \<noteq> TGC_PROTOCOL_RESPONSE then err EPROTO
      else if opcode h < TGC_OPCODE_PING \<or> TGC_OPCODE_STAT_INDEX < opcode h then err EPROTO
      else if TGC_PROTOCOL_MAX_PAYLOAD < unat (payload_length h) then err EMSGSIZE
      else if kind h = TGC_PROTOCOL_REQUEST \<and> hdr_result h \<noteq> 0 then err EPROTO
      else 0)"

text \<open>The caller's 24-byte array comes in as \<open>output\<close> and is returned as written.\<close>

definition tgc_protocol_encode_header ::
  "u8 list \<Rightarrow> tgc_protocol_header \<Rightarrow> int \<times> u8 list" where
  "tgc_protocol_encode_header output h =
     (let result = header_is_valid h in
      if result \<noteq> 0 then (result, output)
      else
        let output = tgc_wire_put_u32 output 0 TGC_PROTOCOL_MAGIC;
            output = tgc_wire_put_u16 output 4 (version h);
            output = tgc_wire_put_u16 output 6 (kind h);
            output = tgc_wire_put_u16 output 8 (opcode h);
            output = tgc_wire_put_u16 output 10 0;
            output = tgc_wire_put_u32 output 12 (request_id h);
            output = tgc_wire_put_u32 output 16 (payload_length h);
            output = tgc_wire_put_i32 output 20 (hdr_result h)
        in (0, output))"

definition tgc_protocol_decode_header ::
  "u8 list \<Rightarrow> tgc_protocol_header \<Rightarrow> int \<times> tgc_protocol_header" where
  "tgc_protocol_decode_header input h =
     (if tgc_wire_get_u32 input 0 \<noteq> TGC_PROTOCOL_MAGIC \<or> tgc_wire_get_u16 input 10 \<noteq> 0
      then (err EPROTO, h)
      else
        let decoded = \<lparr>version = tgc_wire_get_u16 input 4, kind = tgc_wire_get_u16 input 6,
              opcode = tgc_wire_get_u16 input 8, request_id = tgc_wire_get_u32 input 12,
              payload_length = tgc_wire_get_u32 input 16,
              hdr_result = tgc_wire_get_i32 input 20\<rparr>;
            result = header_is_valid decoded
        in if result \<noteq> 0 then (result, h) else (0, decoded))"

text \<open>Arrays of fixed-size fields: the loops of the dispatcher and the client that write, or read,
  field \<open>i\<close> at \<open>base + i * size\<close>.\<close>

definition wire_put_array ::
  "(u8 list \<Rightarrow> nat \<Rightarrow> 'v \<Rightarrow> u8 list) \<Rightarrow> nat \<Rightarrow> u8 list \<Rightarrow> nat \<Rightarrow> 'v list \<Rightarrow> u8 list" where
  "wire_put_array put sz b base vs =
     foldl (\<lambda>b i. put b (base + i * sz) (vs ! i)) b [0..<length vs]"

definition wire_get_array ::
  "(u8 list \<Rightarrow> nat \<Rightarrow> 'v) \<Rightarrow> nat \<Rightarrow> u8 list \<Rightarrow> nat \<Rightarrow> nat \<Rightarrow> 'v list" where
  "wire_get_array get sz b base n = map (\<lambda>i. get b (base + i * sz)) [0..<n]"

subsection \<open>Bytes of a word\<close>

lemma byte_mask: "(0xff::'a::len word) = mask 8"
  by (simp add: mask_eq_exp_minus_1)

lemma u16_bytes:
  "ucast (ucast (v AND 0xff) :: u8) OR push_bit 8 (ucast (ucast (drop_bit 8 v) :: u8)) = (v::u16)"
  unfolding byte_mask by (rule bit_word_eqI) (auto simp: bit_simps)

lemma u16_to_bytes:
  "ucast ((ucast a OR push_bit 8 (ucast b) :: u16) AND 0xff) = (a::u8)"
  "ucast (drop_bit 8 (ucast a OR push_bit 8 (ucast b) :: u16)) = (b::u8)"
  unfolding byte_mask by (rule bit_word_eqI, auto simp: bit_simps dest: bit_imp_le_length)+

lemma u32_bytes:
  "ucast (ucast (v AND 0xff) :: u8) OR push_bit 8 (ucast (ucast (drop_bit 8 v AND 0xff) :: u8)) OR
   push_bit 16 (ucast (ucast (drop_bit 16 v AND 0xff) :: u8)) OR
   push_bit 24 (ucast (ucast (drop_bit 24 v) :: u8)) = (v::u32)"
  unfolding byte_mask
proof (rule bit_word_eqI)
  fix n
  assume "n < LENGTH(32)"
  then consider "n < 8" | "8 \<le> n" "n < 16" | "16 \<le> n" "n < 24" | "24 \<le> n" "n < 32"
    by fastforce
  then show "bit (ucast (ucast (v AND mask 8) :: u8) OR
      push_bit 8 (ucast (ucast (drop_bit 8 v AND mask 8) :: u8)) OR
      push_bit 16 (ucast (ucast (drop_bit 16 v AND mask 8) :: u8)) OR
      push_bit 24 (ucast (ucast (drop_bit 24 v) :: u8)) :: u32) n = bit v n"
    by cases (auto simp: bit_simps)
qed

lemma u32_to_bytes:
  fixes a b c d :: u8
  defines "w \<equiv> (ucast a OR push_bit 8 (ucast b) OR push_bit 16 (ucast c) OR push_bit 24 (ucast d) :: u32)"
  shows "ucast (w AND 0xff) = a" "ucast (drop_bit 8 w AND 0xff) = b"
    "ucast (drop_bit 16 w AND 0xff) = c" "ucast (drop_bit 24 w) = d"
  unfolding byte_mask w_def
  by (rule bit_word_eqI, auto simp: bit_simps dest: bit_imp_le_length)+

lemma u64_halves: "ucast (ucast v :: u32) OR push_bit 32 (ucast (ucast (drop_bit 32 v) :: u32)) = (v::u64)"
  by (rule bit_word_eqI) (auto simp: bit_simps)

subsection \<open>Reading back and framing\<close>

lemma length_put [wire_simps, simp]:
  "length (tgc_wire_put_u16 b off v) = length b"
  "length (tgc_wire_put_u32 b off w) = length b"
  "length (tgc_wire_put_i16 b off v) = length b"
  "length (tgc_wire_put_i32 b off x) = length b"
  "length (tgc_wire_put_u64 b off y) = length b"
  "length (tgc_wire_put_i64 b off x) = length b"
  by (simp_all add: tgc_wire_put_u16_def tgc_wire_put_u32_def tgc_wire_put_i16_def
      tgc_wire_put_i32_def tgc_wire_put_u64_def tgc_wire_put_i64_def)

lemma nth_put_u16:
  "off + 2 \<le> length b \<Longrightarrow> tgc_wire_put_u16 b off v ! j =
     (if j = off then ucast (v AND 0xff) else if j = off + 1 then ucast (drop_bit 8 v) else b ! j)"
  by (auto simp: tgc_wire_put_u16_def nth_list_update)

lemma nth_put_u32:
  "off + 4 \<le> length b \<Longrightarrow> tgc_wire_put_u32 b off v ! j =
     (if j = off then ucast (v AND 0xff) else if j = off + 1 then ucast (drop_bit 8 v AND 0xff)
      else if j = off + 2 then ucast (drop_bit 16 v AND 0xff)
      else if j = off + 3 then ucast (drop_bit 24 v) else b ! j)"
  by (auto simp: tgc_wire_put_u32_def nth_list_update)

lemma nth_put_u16_other: "j < off \<or> off + 2 \<le> j \<Longrightarrow> tgc_wire_put_u16 b off v ! j = b ! j"
  by (auto simp: tgc_wire_put_u16_def)

lemma nth_put_u32_other: "j < off \<or> off + 4 \<le> j \<Longrightarrow> tgc_wire_put_u32 b off v ! j = b ! j"
  by (auto simp: tgc_wire_put_u32_def)

lemma get_put_u16 [wire_simps]:
  "off + 2 \<le> length b \<Longrightarrow> tgc_wire_get_u16 (tgc_wire_put_u16 b off v) off = v"
  by (simp add: tgc_wire_get_u16_def nth_put_u16 u16_bytes)

lemma get_put_u32 [wire_simps]:
  "off + 4 \<le> length b \<Longrightarrow> tgc_wire_get_u32 (tgc_wire_put_u32 b off v) off = v"
  by (simp add: tgc_wire_get_u32_def nth_put_u32 u32_bytes)

lemma get_put_disjoint [wire_simps]:
  "o2 + 2 \<le> o1 \<or> o1 + 2 \<le> o2 \<Longrightarrow>
     tgc_wire_get_u16 (tgc_wire_put_u16 b o1 v) o2 = tgc_wire_get_u16 b o2"
  "o2 + 2 \<le> o1 \<or> o1 + 4 \<le> o2 \<Longrightarrow>
     tgc_wire_get_u16 (tgc_wire_put_u32 b o1 w) o2 = tgc_wire_get_u16 b o2"
  "o2 + 4 \<le> o1 \<or> o1 + 2 \<le> o2 \<Longrightarrow>
     tgc_wire_get_u32 (tgc_wire_put_u16 b o1 v) o2 = tgc_wire_get_u32 b o2"
  "o2 + 4 \<le> o1 \<or> o1 + 4 \<le> o2 \<Longrightarrow>
     tgc_wire_get_u32 (tgc_wire_put_u32 b o1 w) o2 = tgc_wire_get_u32 b o2"
  by (auto simp: tgc_wire_get_u16_def tgc_wire_get_u32_def nth_put_u16_other nth_put_u32_other)

lemmas wire_wide [wire_simps] = tgc_wire_put_i16_def tgc_wire_put_i32_def tgc_wire_put_u64_def
  tgc_wire_put_i64_def tgc_wire_get_i16_def tgc_wire_get_i32_def tgc_wire_get_u64_def
  tgc_wire_get_i64_def u64_halves sint_word_of_int_32 sint_word_of_int_64

lemma decode_encode_header:
  assumes "length output = TGC_PROTOCOL_HEADER_SIZE" "header_is_valid h = 0" "in_i32 (hdr_result h)"
  shows "tgc_protocol_decode_header (snd (tgc_protocol_encode_header output h)) h' = (0, h)"
  using assms
  by (cases h) (simp add: tgc_protocol_encode_header_def tgc_protocol_decode_header_def Let_def
      wire_simps)

lemma get_u16_byte:
  "ucast (tgc_wire_get_u16 c off AND 0xff) = c ! off"
  "ucast (drop_bit 8 (tgc_wire_get_u16 c off)) = c ! (off + 1)"
  unfolding tgc_wire_get_u16_def by (rule u16_to_bytes)+

lemma get_u32_byte:
  "ucast (tgc_wire_get_u32 c off AND 0xff) = c ! off"
  "ucast (drop_bit 8 (tgc_wire_get_u32 c off) AND 0xff) = c ! (off + 1)"
  "ucast (drop_bit 16 (tgc_wire_get_u32 c off) AND 0xff) = c ! (off + 2)"
  "ucast (drop_bit 24 (tgc_wire_get_u32 c off)) = c ! (off + 3)"
  unfolding tgc_wire_get_u32_def by (rule u32_to_bytes)+

lemma nth_put_get_u16:
  assumes "off + 2 \<le> length b"
  shows "tgc_wire_put_u16 b off (tgc_wire_get_u16 c off) ! j =
     (if off \<le> j \<and> j < off + 2 then c ! j else b ! j)"
proof -
  consider "j < off \<or> off + 2 \<le> j" | "j = off" | "j = off + 1" by linarith
  then show ?thesis
    unfolding nth_put_u16 [OF assms] get_u16_byte by cases auto
qed

lemma nth_put_get_u32:
  assumes "off + 4 \<le> length b"
  shows "tgc_wire_put_u32 b off (tgc_wire_get_u32 c off) ! j =
     (if off \<le> j \<and> j < off + 4 then c ! j else b ! j)"
proof -
  consider "j < off \<or> off + 4 \<le> j" | "j = off" | "j = off + 1" | "j = off + 2" | "j = off + 3"
    by linarith
  then show ?thesis
    unfolding nth_put_u32 [OF assms] get_u32_byte by cases auto
qed

lemma encode_decode_header:
  assumes "length input = TGC_PROTOCOL_HEADER_SIZE" "length output = TGC_PROTOCOL_HEADER_SIZE"
    "tgc_protocol_decode_header input h0 = (0, h)"
  shows "tgc_protocol_encode_header output h = (0, input)"
proof -
  have m: "tgc_wire_get_u32 input 0 = TGC_PROTOCOL_MAGIC" "tgc_wire_get_u16 input 10 = 0"
    using assms(3) by (auto simp: tgc_protocol_decode_header_def split: if_splits)
  have *: "tgc_protocol_encode_header output h = (0,
      tgc_wire_put_u32 (tgc_wire_put_u32 (tgc_wire_put_u32 (tgc_wire_put_u16 (tgc_wire_put_u16
       (tgc_wire_put_u16 (tgc_wire_put_u16 (tgc_wire_put_u32 output 0 (tgc_wire_get_u32 input 0))
        4 (tgc_wire_get_u16 input 4)) 6 (tgc_wire_get_u16 input 6)) 8 (tgc_wire_get_u16 input 8))
        10 (tgc_wire_get_u16 input 10)) 12 (tgc_wire_get_u32 input 12))
        16 (tgc_wire_get_u32 input 16)) 20 (tgc_wire_get_u32 input 20))"
    using assms(3) m by (auto simp: tgc_protocol_decode_header_def tgc_protocol_encode_header_def Let_def 
     tgc_wire_put_i32_def tgc_wire_get_i32_def split: if_splits)
  show ?thesis unfolding * using assms(1,2)
    by (auto simp: list_eq_iff_nth_eq nth_put_get_u32 nth_put_get_u16)
qed

subsection \<open>Fixed-size fields and arrays of them\<close>

lemma wire_get_array_Suc:
  "wire_get_array get sz b base (Suc n) = wire_get_array get sz b base n @ [get b (base + n * sz)]"
  by (simp add: wire_get_array_def)

lemma length_wire_get_array [simp]: "length (wire_get_array get sz b base n) = n"
  by (simp add: wire_get_array_def)

text \<open>Two buffers that agree on their first \<open>n\<close> bytes.\<close>

definition agree :: "nat \<Rightarrow> u8 list \<Rightarrow> u8 list \<Rightarrow> bool" where
  "agree n b c \<longleftrightarrow> length b = length c \<and> n \<le> length b \<and> (\<forall>j<n. b ! j = c ! j)"

lemma agree_take: "agree n b c \<longleftrightarrow> length b = length c \<and> n \<le> length b \<and> take n b = take n c"
  by (auto simp: agree_def list_eq_iff_nth_eq)

lemma agree_mono: "agree n b c \<Longrightarrow> m \<le> n \<Longrightarrow> agree m b c"
  by (auto simp: agree_def)

lemma agree_0 [simp]: "agree 0 b c \<longleftrightarrow> length b = length c"
  by (simp add: agree_def)

lemma agree_refl [simp]: "agree n b b \<longleftrightarrow> n \<le> length b"
  by (simp add: agree_def)

locale wire_codec =
  fixes sz :: nat
    and rep :: "'v \<Rightarrow> bool"
    and put :: "u8 list \<Rightarrow> nat \<Rightarrow> 'v \<Rightarrow> u8 list"
    and get :: "u8 list \<Rightarrow> nat \<Rightarrow> 'v"
  assumes put_length: "length (put b off v) = length b"
    and get_put: "off + sz \<le> length b \<Longrightarrow> rep v \<Longrightarrow> get (put b off v) off = v"
    and put_other: "j < off \<or> off + sz \<le> j \<Longrightarrow> put b off v ! j = b ! j"
    and put_pure: "off + sz \<le> length b \<Longrightarrow> off + sz \<le> length c \<Longrightarrow> off \<le> j \<Longrightarrow> j < off + sz \<Longrightarrow>
      put b off v ! j = put c off v ! j"
    and get_cong: "(\<And>j. off \<le> j \<Longrightarrow> j < off + sz \<Longrightarrow> b ! j = c ! j) \<Longrightarrow> get b off = get c off"
begin

lemma get_put_far: "o2 + sz \<le> o1 \<or> o1 + sz \<le> o2 \<Longrightarrow> get (put b o1 v) o2 = get b o2"
  by (rule get_cong) (auto simp: put_other)

lemma put_agree:
  assumes "agree n b c" "n + sz \<le> length b"
  shows "agree (n + sz) (put b n v) (put c n v)"
proof -
  have "put b n v ! j = put c n v ! j" if "j < n + sz" for j
  proof (cases "j < n")
    case True
    with assms show ?thesis by (simp add: put_other agree_def)
  next
    case False
    with assms that show ?thesis by (intro put_pure) (auto simp: agree_def)
  qed
  with assms show ?thesis by (simp add: agree_def put_length)
qed

lemma get_agree: "agree n b c \<Longrightarrow> off + sz \<le> n \<Longrightarrow> get b off = get c off"
  by (rule get_cong) (simp add: agree_def)

lemma put_array_snoc:
  "wire_put_array put sz b base (vs @ [v]) =
     put (wire_put_array put sz b base vs) (base + length vs * sz) v"
proof -
  have "foldl (\<lambda>b i. put b (base + i * sz) ((vs @ [v]) ! i)) b [0..<length vs] =
        foldl (\<lambda>b i. put b (base + i * sz) (vs ! i)) b [0..<length vs]"
    by (rule foldl_cong) (auto simp: nth_append)
  then show ?thesis by (simp add: wire_put_array_def)
qed

lemma put_array_Nil: "wire_put_array put sz b base [] = b"
  by (simp add: wire_put_array_def)

lemma put_array_length: "length (wire_put_array put sz b base vs) = length b"
  by (induction vs rule: rev_induct) (simp_all add: put_array_Nil put_array_snoc put_length)

lemma put_array_other:
  "j < base \<or> base + length vs * sz \<le> j \<Longrightarrow> wire_put_array put sz b base vs ! j = b ! j"
  by (induction vs rule: rev_induct) (auto simp: put_array_Nil put_array_snoc put_other)

lemma put_array_pure:
  assumes "base + length vs * sz \<le> length b" "base + length vs * sz \<le> length c"
    "base \<le> j" "j < base + length vs * sz"
  shows "wire_put_array put sz b base vs ! j = wire_put_array put sz c base vs ! j"
  using assms
proof (induction vs rule: rev_induct)
  case (snoc v vs)
  show ?case
  proof (cases "j < base + length vs * sz")
    case True
    then have "wire_put_array put sz b base vs ! j = wire_put_array put sz c base vs ! j"
      using snoc.prems by (intro snoc.IH) auto
    with True show ?thesis by (simp add: put_array_snoc put_other)
  next
    case False
    with snoc.prems show ?thesis
      by (auto simp: put_array_snoc put_array_length intro!: put_pure)
  qed
qed simp

lemma get_array_cong:
  "(\<And>j. base \<le> j \<Longrightarrow> j < base + n * sz \<Longrightarrow> b ! j = c ! j) \<Longrightarrow>
   wire_get_array get sz b base n = wire_get_array get sz c base n"
proof -
  assume eq: "\<And>j. base \<le> j \<Longrightarrow> j < base + n * sz \<Longrightarrow> b ! j = c ! j"
  have "get b (base + i * sz) = get c (base + i * sz)" if "i < n" for i
  proof (rule get_cong)
    fix j assume j: "base + i * sz \<le> j" "j < base + i * sz + sz"
    have "Suc i * sz \<le> n * sz" using that by (intro mult_right_mono) auto
    with j show "b ! j = c ! j" by (intro eq) auto
  qed
  then show ?thesis by (simp add: wire_get_array_def)
qed

lemma put_array_agree:
  assumes "agree n b c" "n + length vs * sz \<le> length b"
  shows "agree (n + length vs * sz) (wire_put_array put sz b n vs) (wire_put_array put sz c n vs)"
  using assms
proof (induction vs rule: rev_induct)
  case (snoc v vs)
  then have "agree (n + length vs * sz) (wire_put_array put sz b n vs) (wire_put_array put sz c n vs)"
    by simp
  from put_agree [OF this, of v] snoc.prems show ?case
    by (simp add: put_array_snoc put_array_length algebra_simps)
qed (simp add: put_array_Nil)

lemma get_array_agree:
  "agree n b c \<Longrightarrow> base + m * sz \<le> n \<Longrightarrow> wire_get_array get sz b base m = wire_get_array get sz c base m"
  by (rule get_array_cong) (simp add: agree_def)

lemma get_put_array:
  assumes "base + length vs * sz \<le> length b" "\<forall>v\<in>set vs. rep v"
  shows "wire_get_array get sz (wire_put_array put sz b base vs) base (length vs) = vs"
  using assms
proof (induction vs rule: rev_induct)
  case (snoc v vs)
  let ?b = "wire_put_array put sz b base vs"
  have "wire_get_array get sz (put ?b (base + length vs * sz) v) base (length vs) =
      wire_get_array get sz ?b base (length vs)"
    by (rule get_array_cong) (simp add: put_other)
  moreover have "get (put ?b (base + length vs * sz) v) (base + length vs * sz) = v"
    using snoc.prems by (intro get_put) (auto simp: put_array_length)
  ultimately show ?case
    using snoc by (simp add: put_array_snoc wire_get_array_Suc)
qed (simp add: wire_get_array_def)

end

interpretation u16: wire_codec 2 "\<lambda>_. True" tgc_wire_put_u16 tgc_wire_get_u16
  by unfold_locales
    (auto simp: u16_bytes nth_put_u16_other nth_put_u16 tgc_wire_get_u16_def)

interpretation u32: wire_codec 4 "\<lambda>_. True" tgc_wire_put_u32 tgc_wire_get_u32
  by unfold_locales
    (auto simp: u32_bytes nth_put_u32_other nth_put_u32 tgc_wire_get_u32_def)

interpretation i16: wire_codec 2 "\<lambda>_. True" tgc_wire_put_i16 tgc_wire_get_i16
  by unfold_locales (auto simp: tgc_wire_put_i16_def tgc_wire_get_i16_def u16.get_put u16.put_other
      intro: u16.put_pure u16.get_cong)

interpretation i32: wire_codec 4 in_i32 tgc_wire_put_i32 tgc_wire_get_i32
  by unfold_locales (auto simp: tgc_wire_put_i32_def tgc_wire_get_i32_def u32.get_put u32.put_other
      sint_word_of_int_32 intro: u32.put_pure arg_cong [OF u32.get_cong])

interpretation u64: wire_codec 8 "\<lambda>_. True" tgc_wire_put_u64 tgc_wire_get_u64
proof
  fix off j v and b c :: "u8 list"
  assume "off + 8 \<le> length b" "off + 8 \<le> length c" "off \<le> j" "j < off + 8"
  then show "tgc_wire_put_u64 b off v ! j = tgc_wire_put_u64 c off v ! j"
    by (auto simp: tgc_wire_put_u64_def nth_put_u32)
qed (auto simp: tgc_wire_put_u64_def tgc_wire_get_u64_def wire_simps u32.put_other
    intro!: arg_cong2 [of _ _ _ _ "(OR)"] arg_cong [OF u32.get_cong] arg_cong [of _ _ "push_bit 32"])

interpretation i64: wire_codec 8 in_i64 tgc_wire_put_i64 tgc_wire_get_i64
  by unfold_locales (auto simp: tgc_wire_put_i64_def tgc_wire_get_i64_def u64.get_put u64.put_other
      sint_word_of_int_64 intro: u64.put_pure arg_cong [OF u64.get_cong])

lemmas wire_agree_put = u16.put_agree u32.put_agree i16.put_agree i32.put_agree u64.put_agree i64.put_agree
lemmas wire_agree_get = u16.get_agree u32.get_agree i16.get_agree i32.get_agree u64.get_agree i64.get_agree

text \<open>Two packets that are the same on the wire: same header, same bytes up to the announced length.\<close>

definition same_frame :: "tgc_protocol_packet \<Rightarrow> tgc_protocol_packet \<Rightarrow> bool" where
  "same_frame p q \<longleftrightarrow> header p = header q \<and> agree (unat (payload_length (header p))) (payload p) (payload q)"

subsection \<open>Properties of the header codec\<close>

text \<open>C31. Every valid header survives the wire: decoding the 24 bytes the encoder wrote succeeds
  and gives back the header, whatever the buffer and the output header held before.\<close>

theorem header_roundtrip:
  assumes "length output = TGC_PROTOCOL_HEADER_SIZE" "header_is_valid h = 0" "in_i32 (hdr_result h)"
  shows "fst (tgc_protocol_encode_header output h) = 0 \<and>
    tgc_protocol_decode_header (snd (tgc_protocol_encode_header output h)) h' = (0, h)"
  using assms decode_encode_header [OF assms]
  by (simp add: tgc_protocol_encode_header_def Let_def)

definition example_header :: tgc_protocol_header where
  "example_header = \<lparr>version = 1, kind = 2, opcode = 9, request_id = 77, payload_length = 8,
     hdr_result = -11\<rparr>"

lemma example_header_ok: "header_is_valid example_header = 0" "in_i32 (hdr_result example_header)"
  by (simp_all add: header_is_valid_def in_i32_def example_header_def)

theorem header_roundtrip_witness:
  "fst (tgc_protocol_encode_header (replicate 24 170) example_header) = 0 \<and>
   tgc_protocol_decode_header (snd (tgc_protocol_encode_header (replicate 24 170) example_header))
     (example_header\<lparr>opcode := 3\<rparr>) = (0, example_header)"
  by (rule header_roundtrip) (simp_all add: example_header_ok)

text \<open>The encoding is canonical: a 24-byte block that decodes is the only encoding of the header it
  decodes to, so the magic, the reserved field and every other byte are determined by the header.\<close>

lemma header_canonical:
  assumes "length input = TGC_PROTOCOL_HEADER_SIZE" "length output = TGC_PROTOCOL_HEADER_SIZE"
    and "tgc_protocol_decode_header input h0 = (0, h)"
  shows "tgc_protocol_encode_header output h = (0, input)"
  using assms by (rule encode_decode_header)

end
