(* ===== verification/SemStore.thy ===== *)
theory SemStore
  imports TgcPrelude
begin

text \<open>
  The semaphore store of \<open>src/sem_store.c\<close>: 128 slots for semaphore sets, 4096 slots for pending
  \<open>SEM_UNDO\<close> adjustments, and the System V operations on them. The two fixed arrays are lists; a
  pointer to a slot is its index. The heap arrays of a set (\<open>values\<close>, \<open>last_pids\<close>, the two waiter
  counters) are lists too, empty while the set is inactive and its pointers are \<open>NULL\<close>. Every
  operation takes the store and returns the C result with the store it leaves behind. What the
  operating system answers is an argument: the reading of \<open>CLOCK_REALTIME\<close> (\<open>None\<close> when
  \<open>clock_gettime\<close> fails) and whether each \<open>calloc\<close> succeeds.

  The pointers \<open>store\<close>, \<open>values\<close>, \<open>metadata\<close> and \<open>info\<close> are values here, so the guards that
  reject a \<open>NULL\<close> one have no counterpart.
\<close>

unbundle bit_operations_syntax

abbreviation (input) TGC_IPC_PRIVATE :: int where "TGC_IPC_PRIVATE \<equiv> 0"
abbreviation (input) TGC_IPC_CREAT :: "'a::numeral" where "TGC_IPC_CREAT \<equiv> 512"
abbreviation (input) TGC_IPC_EXCL :: "'a::numeral" where "TGC_IPC_EXCL \<equiv> 1024"
abbreviation (input) TGC_IPC_NOWAIT :: "'a::numeral" where "TGC_IPC_NOWAIT \<equiv> 2048"
abbreviation (input) TGC_SEM_UNDO :: "'a::numeral" where "TGC_SEM_UNDO \<equiv> 4096"
abbreviation (input) TGC_SEM_MAX_SETS :: "'a::numeral" where "TGC_SEM_MAX_SETS \<equiv> 128"
abbreviation (input) TGC_SEM_MAX_PER_SET :: "'a::numeral" where "TGC_SEM_MAX_PER_SET \<equiv> 512"
abbreviation (input) TGC_SEM_MAX_VALUE :: "'a::numeral" where "TGC_SEM_MAX_VALUE \<equiv> 32767"
abbreviation (input) TGC_SEM_MAX_UNDO_ENTRIES :: "'a::numeral" where
  "TGC_SEM_MAX_UNDO_ENTRIES \<equiv> 4096"
abbreviation (input) TGC_SEM_OP_BLOCKED :: int where "TGC_SEM_OP_BLOCKED \<equiv> 1"
abbreviation (input) MODE_MASK :: "'a::numeral" where "MODE_MASK \<equiv> 511" \<comment> \<open>0777\<close>
abbreviation (input) SEM_ID_INDEX_BITS :: nat where "SEM_ID_INDEX_BITS \<equiv> 16"
abbreviation (input) SEM_ID_INDEX_MASK :: u32 where "SEM_ID_INDEX_MASK \<equiv> 0xffff"
abbreviation (input) SEM_ID_MAX_GENERATION :: u16 where "SEM_ID_MAX_GENERATION \<equiv> 0x7fff"

subsection \<open>Data\<close>

record tgc_sem_op =
  sem_num :: u16
  sem_op :: i16
  sem_flg :: u16

record tgc_sem_identity =
  id_uid :: u32
  id_gid :: u32

record tgc_sem_metadata =
  md_key :: int
  md_uid :: u32
  md_gid :: u32
  md_cuid :: u32
  md_cgid :: u32
  md_mode :: u32
  md_nsems :: u32
  md_otime :: int
  md_ctime :: int
  md_sequence :: u32

record tgc_sem_wait_reason =
  wr_sem_num :: u16
  wr_wait_for_zero :: u16

record tgc_sem_info =
  semmap :: int
  semmni :: int
  semmns :: int
  semmnu :: int
  semmsl :: int
  semopm :: int
  semume :: int
  semusz :: int
  semvmx :: int
  semaem :: int

record tgc_sem_set =
  set_key :: int
  generation :: u16
  nsems :: u16
  set_active :: bool
  set_uid :: u32
  set_gid :: u32
  set_cuid :: u32
  set_cgid :: u32
  set_mode :: u32
  set_otime :: int
  set_ctime :: int
  sem_values :: "u16 list"
  last_pids :: "int list"
  negative_waiters :: "u32 list"
  zero_waiters :: "u32 list"

record tgc_undo_entry =
  undo_pid :: int
  undo_semid :: int
  adjustment :: int
  undo_semnum :: u16
  undo_active :: bool

record tgc_sem_store =
  sets :: "tgc_sem_set list"
  undo_entries :: "tgc_undo_entry list"

text \<open>The answers of the operating system to one call of \<open>tgc_sem_store_get_as\<close>.\<close>

record sys_answers =
  clock_realtime :: "int option"
  calloc_ok :: "nat \<Rightarrow> bool"

subsection \<open>Identifiers and lookups\<close>

definition make_id :: "nat \<Rightarrow> u16 \<Rightarrow> int" where
  "make_id index g =
     sint (ucast (ucast (push_bit SEM_ID_INDEX_BITS (ucast g :: u32)) OR
       (word_of_nat (index + 1) :: u64)) :: u32)"

definition decode_id :: "int \<Rightarrow> (nat \<times> u16) option" where
  "decode_id semid =
     (if semid \<le> 0 then None
      else
        let id = (word_of_int semid :: u32);
            encoded_index = id AND SEM_ID_INDEX_MASK;
            encoded_generation = (ucast (drop_bit SEM_ID_INDEX_BITS id) :: u16)
        in if encoded_index = 0 \<or> TGC_SEM_MAX_SETS < encoded_index \<or> encoded_generation = 0
           then None
           else Some (unat (encoded_index - 1), encoded_generation))"

definition find_set :: "tgc_sem_store \<Rightarrow> int \<Rightarrow> nat option" where
  "find_set store semid =
     (case decode_id semid of
        None \<Rightarrow> None
      | Some (index, g) \<Rightarrow>
          (let set = sets store ! index in
           if set_active set \<and> generation set = g then Some index else None))"

definition find_undo_entry :: "tgc_sem_store \<Rightarrow> int \<Rightarrow> int \<Rightarrow> u16 \<Rightarrow> nat option" where
  "find_undo_entry store pid semid semnum =
     find_index (\<lambda>entry. undo_active entry \<and> undo_pid entry = pid \<and> undo_semid entry = semid \<and>
       undo_semnum entry = semnum) (undo_entries store)"

definition find_free_undo_entry :: "tgc_sem_store \<Rightarrow> nat option" where
  "find_free_undo_entry store = find_index (\<lambda>entry. \<not> undo_active entry) (undo_entries store)"

definition clear_entry :: "int \<Rightarrow> nat \<Rightarrow> bool \<Rightarrow> tgc_undo_entry \<Rightarrow> tgc_undo_entry" where
  "clear_entry semid semnum all_semaphores entry =
     (if undo_active entry \<and> undo_semid entry = semid \<and>
         (all_semaphores \<or> unat (undo_semnum entry) = semnum)
      then entry\<lparr>undo_active := False\<rparr> else entry)"

definition clear_undo_entries :: "tgc_sem_store \<Rightarrow> int \<Rightarrow> nat \<Rightarrow> bool \<Rightarrow> tgc_sem_store" where
  "clear_undo_entries store semid semnum all_semaphores =
     store\<lparr>undo_entries := map (clear_entry semid semnum all_semaphores) (undo_entries store)\<rparr>"

definition next_generation :: "u16 \<Rightarrow> u16" where
  "next_generation g = (if SEM_ID_MAX_GENERATION \<le> g then 1 else g + 1)"

definition current_time_seconds :: "int option \<Rightarrow> int" where
  "current_time_seconds now = (case now of Some tv_sec \<Rightarrow> tv_sec | None \<Rightarrow> 0)"

text \<open>\<open>calloc\<close> zeroes the whole structure.\<close>

definition zero_set :: tgc_sem_set where
  "zero_set = \<lparr>set_key = 0, generation = 0, nsems = 0, set_active = False, set_uid = 0,
     set_gid = 0, set_cuid = 0, set_cgid = 0, set_mode = 0, set_otime = 0, set_ctime = 0,
     sem_values = [], last_pids = [], negative_waiters = [], zero_waiters = []\<rparr>"

definition zero_undo_entry :: tgc_undo_entry where
  "zero_undo_entry =
     \<lparr>undo_pid = 0, undo_semid = 0, adjustment = 0, undo_semnum = 0, undo_active = False\<rparr>"

definition tgc_sem_store_create :: tgc_sem_store where
  "tgc_sem_store_create = \<lparr>sets = replicate TGC_SEM_MAX_SETS zero_set,
     undo_entries = replicate TGC_SEM_MAX_UNDO_ENTRIES zero_undo_entry\<rparr>"

subsection \<open>Creation and removal of sets\<close>

text \<open>The fields of a free slot as \<open>tgc_sem_store_get_as\<close> fills them; the generation the slot was left
  with stays.\<close>

definition init_set ::
  "sys_answers \<Rightarrow> tgc_sem_set \<Rightarrow> int \<Rightarrow> int \<Rightarrow> int \<Rightarrow> tgc_sem_identity \<Rightarrow> tgc_sem_set" where
  "init_set sys slot key nsems' flags identity =
     slot\<lparr>generation := (if generation slot = 0 then 1 else generation slot),
       set_key := key, nsems := word_of_int nsems',
       set_uid := id_uid identity, set_gid := id_gid identity,
       set_cuid := id_uid identity, set_cgid := id_gid identity,
       set_mode := word_of_int flags AND MODE_MASK, set_otime := 0,
       set_ctime := current_time_seconds (clock_realtime sys),
       sem_values := replicate (nat nsems') 0,
       last_pids := replicate (nat nsems') 0,
       negative_waiters := replicate (nat nsems') 0,
       zero_waiters := replicate (nat nsems') 0, set_active := True\<rparr>"

definition tgc_sem_store_get_as ::
  "sys_answers \<Rightarrow> tgc_sem_store \<Rightarrow> int \<Rightarrow> int \<Rightarrow> int \<Rightarrow> tgc_sem_identity \<Rightarrow> int \<times> tgc_sem_store" where
  "tgc_sem_store_get_as sys store key nsems' flags identity =
     (case (if key \<noteq> TGC_IPC_PRIVATE
            then find_index (\<lambda>set. set_active set \<and> set_key set = key) (sets store) else None) of
        Some i \<Rightarrow>
          (let set = sets store ! i in
           if flags AND TGC_IPC_CREAT \<noteq> 0 \<and> flags AND TGC_IPC_EXCL \<noteq> 0 then (err EEXIST, store)
           else if nsems' < 0 \<or> int (unat (nsems set)) < nsems' then (err EINVAL, store)
           else (make_id i (generation set), store))
      | None \<Rightarrow>
          if key \<noteq> TGC_IPC_PRIVATE \<and> flags AND TGC_IPC_CREAT = 0 then (err ENOENT, store)
          else if nsems' \<le> 0 \<or> TGC_SEM_MAX_PER_SET < nsems' then (err EINVAL, store)
          else
            (case find_index (\<lambda>set. \<not> set_active set) (sets store) of
               None \<Rightarrow> (err ENOSPC, store)
             | Some i \<Rightarrow>
                 if \<not> calloc_ok sys 0 \<or> \<not> calloc_ok sys 1 \<or> \<not> calloc_ok sys 2 \<or> \<not> calloc_ok sys 3
                 then (err ENOMEM, store)
                 else
                   (let set = init_set sys (sets store ! i) key nsems' flags identity
                    in (make_id i (generation set), store\<lparr>sets := (sets store)[i := set]\<rparr>))))"

definition tgc_sem_store_get ::
  "sys_answers \<Rightarrow> tgc_sem_store \<Rightarrow> int \<Rightarrow> int \<Rightarrow> int \<Rightarrow> int \<times> tgc_sem_store" where
  "tgc_sem_store_get sys store key nsems' flags =
     tgc_sem_store_get_as sys store key nsems' flags \<lparr>id_uid = 0, id_gid = 0\<rparr>"

definition tgc_sem_store_remove :: "tgc_sem_store \<Rightarrow> int \<Rightarrow> int \<times> tgc_sem_store" where
  "tgc_sem_store_remove store semid =
     (case find_set store semid of
        None \<Rightarrow> (err EINVAL, store)
      | Some i \<Rightarrow>
          (let store = clear_undo_entries store semid 0 True;
               set = sets store ! i;
               set = zero_set\<lparr>generation := next_generation (generation set)\<rparr>
           in (0, store\<lparr>sets := (sets store)[i := set]\<rparr>)))"

subsection \<open>Reading and writing values\<close>

definition tgc_sem_store_getval :: "tgc_sem_store \<Rightarrow> int \<Rightarrow> nat \<Rightarrow> int" where
  "tgc_sem_store_getval store semid semnum =
     (case find_set store semid of
        None \<Rightarrow> err EINVAL
      | Some i \<Rightarrow>
          (let set = sets store ! i in
           if unat (nsems set) \<le> semnum then err EINVAL else uint (sem_values set ! semnum)))"

definition tgc_sem_store_setval ::
  "int option \<Rightarrow> tgc_sem_store \<Rightarrow> int \<Rightarrow> nat \<Rightarrow> u32 \<Rightarrow> int \<Rightarrow> int \<times> tgc_sem_store" where
  "tgc_sem_store_setval now store semid semnum v pid =
     (case find_set store semid of
        None \<Rightarrow> (err EINVAL, store)
      | Some i \<Rightarrow>
          if unat (nsems (sets store ! i)) \<le> semnum then (err EINVAL, store)
          else if TGC_SEM_MAX_VALUE < v then (err ERANGE, store)
          else
            (let store = clear_undo_entries store semid semnum False;
                 set = sets store ! i;
                 set = set\<lparr>sem_values := (sem_values set)[semnum := ucast v],
                   last_pids := (last_pids set)[semnum := pid],
                   set_ctime := current_time_seconds now\<rparr>
             in (0, store\<lparr>sets := (sets store)[i := set]\<rparr>)))"

definition tgc_sem_store_getpid :: "tgc_sem_store \<Rightarrow> int \<Rightarrow> nat \<Rightarrow> int" where
  "tgc_sem_store_getpid store semid semnum =
     (case find_set store semid of
        None \<Rightarrow> err EINVAL
      | Some i \<Rightarrow>
          (let set = sets store ! i in
           if unat (nsems set) \<le> semnum then err EINVAL else last_pids set ! semnum))"

text \<open>The caller's buffer comes in as \<open>buf\<close>; its first \<open>count\<close> elements are overwritten on success.\<close>

definition tgc_sem_store_getall ::
  "tgc_sem_store \<Rightarrow> int \<Rightarrow> u16 list \<Rightarrow> nat \<Rightarrow> int \<times> u16 list" where
  "tgc_sem_store_getall store semid buf count =
     (case find_set store semid of
        None \<Rightarrow> (err EINVAL, buf)
      | Some i \<Rightarrow>
          (let set = sets store ! i in
           if count \<noteq> unat (nsems set) then (err EINVAL, buf)
           else (0, take count (sem_values set) @ drop count buf)))"

definition tgc_sem_store_setall ::
  "int option \<Rightarrow> tgc_sem_store \<Rightarrow> int \<Rightarrow> u16 list \<Rightarrow> nat \<Rightarrow> int \<Rightarrow> int \<times> tgc_sem_store" where
  "tgc_sem_store_setall now store semid vals count pid =
     (case find_set store semid of
        None \<Rightarrow> (err EINVAL, store)
      | Some i \<Rightarrow>
          if count \<noteq> unat (nsems (sets store ! i)) then (err EINVAL, store)
          else if list_ex (\<lambda>k. TGC_SEM_MAX_VALUE < vals ! k) [0..<count] then (err ERANGE, store)
          else
            (let store = clear_undo_entries store semid 0 True;
                 set = sets store ! i;
                 set = set\<lparr>sem_values := take count vals @ drop count (sem_values set),
                   last_pids := foldl (\<lambda>pids k. pids[k := pid]) (last_pids set) [0..<count],
                   set_ctime := current_time_seconds now\<rparr>
             in (0, store\<lparr>sets := (sets store)[i := set]\<rparr>)))"

subsection \<open>Metadata\<close>

text \<open>On success the caller's structure is overwritten; it is returned unchanged otherwise.\<close>

definition tgc_sem_store_get_metadata ::
  "tgc_sem_store \<Rightarrow> int \<Rightarrow> tgc_sem_metadata \<Rightarrow> int \<times> tgc_sem_metadata" where
  "tgc_sem_store_get_metadata store semid metadata =
     (case (find_set store semid, decode_id semid) of
        (Some i, Some (index, g)) \<Rightarrow>
          (let set = sets store ! i in
           (0, \<lparr>md_key = set_key set, md_uid = set_uid set, md_gid = set_gid set,
                md_cuid = set_cuid set, md_cgid = set_cgid set, md_mode = set_mode set,
                md_nsems = ucast (nsems set), md_otime = set_otime set,
                md_ctime = set_ctime set, md_sequence = ucast g\<rparr>))
      | _ \<Rightarrow> (err EINVAL, metadata))"

definition tgc_sem_store_stat_index ::
  "tgc_sem_store \<Rightarrow> nat \<Rightarrow> tgc_sem_metadata \<Rightarrow> int \<times> tgc_sem_metadata" where
  "tgc_sem_store_stat_index store index metadata =
     (if TGC_SEM_MAX_SETS \<le> index \<or> \<not> set_active (sets store ! index) then (err EINVAL, metadata)
      else
        (let semid = make_id index (generation (sets store ! index));
             (result, metadata) = tgc_sem_store_get_metadata store semid metadata
         in (if result = 0 then semid else result, metadata)))"

definition tgc_sem_store_set_metadata ::
  "int option \<Rightarrow> tgc_sem_store \<Rightarrow> int \<Rightarrow> u32 \<Rightarrow> u32 \<Rightarrow> u32 \<Rightarrow> tgc_sem_identity \<Rightarrow>
   int \<times> tgc_sem_store" where
  "tgc_sem_store_set_metadata now store semid uid gid mode actor =
     (case find_set store semid of
        None \<Rightarrow> (err EINVAL, store)
      | Some i \<Rightarrow>
          (let set = sets store ! i in
           if id_uid actor \<noteq> set_uid set \<and> id_uid actor \<noteq> set_cuid set then (err EPERM, store)
           else if uid \<noteq> set_uid set \<or> (gid \<noteq> set_gid set \<and> gid \<noteq> id_gid actor) \<or>
              mode AND NOT MODE_MASK \<noteq> 0
           then (err EPERM, store)
           else (0, store\<lparr>sets := (sets store)[i := set\<lparr>set_gid := gid, set_mode := mode,
                   set_ctime := current_time_seconds now\<rparr>]\<rparr>)))"

subsection \<open>Waiter counts and limits\<close>

definition tgc_sem_store_get_wait_count :: "tgc_sem_store \<Rightarrow> int \<Rightarrow> nat \<Rightarrow> bool \<Rightarrow> int" where
  "tgc_sem_store_get_wait_count store semid semnum wait_for_zero =
     (case find_set store semid of
        None \<Rightarrow> err EINVAL
      | Some i \<Rightarrow>
          (let set = sets store ! i in
           if unat (nsems set) \<le> semnum then err EINVAL
           else
             (let count = (if wait_for_zero then zero_waiters set ! semnum
                           else negative_waiters set ! semnum)
              in if 2147483647 < count then 2147483647 else uint count)))"

definition tgc_sem_store_adjust_wait_count ::
  "tgc_sem_store \<Rightarrow> int \<Rightarrow> nat \<Rightarrow> bool \<Rightarrow> int \<Rightarrow> int \<times> tgc_sem_store" where
  "tgc_sem_store_adjust_wait_count store semid semnum wait_for_zero delta =
     (case find_set store semid of
        None \<Rightarrow> (err EINVAL, store)
      | Some i \<Rightarrow>
          (let set = sets store ! i in
           if unat (nsems set) \<le> semnum \<or> (delta \<noteq> 1 \<and> delta \<noteq> -1) then (err EINVAL, store)
           else
             (let count = (if wait_for_zero then zero_waiters set ! semnum
                           else negative_waiters set ! semnum) in
              if (0 < delta \<and> count = 0xffffffff) \<or> (delta < 0 \<and> count = 0)
              then (err ERANGE, store)
              else
                (let count = (if 0 < delta then count + 1 else count - 1);
                     set = (if wait_for_zero
                            then set\<lparr>zero_waiters := (zero_waiters set)[semnum := count]\<rparr>
                            else set\<lparr>negative_waiters := (negative_waiters set)[semnum := count]\<rparr>)
                 in (0, store\<lparr>sets := (sets store)[i := set]\<rparr>)))))"

text \<open>\<open>sizeof(struct tgc_sem_set)\<close> on the two 64-bit targets of the build.\<close>

definition sizeof_tgc_sem_set :: int where
  "sizeof_tgc_sem_set = 80"

definition tgc_sem_store_info :: "tgc_sem_store \<Rightarrow> bool \<Rightarrow> int \<times> tgc_sem_info" where
  "tgc_sem_store_info store dynamic =
     (let (highest_index, active_sets, total_semaphores) =
        foldl (\<lambda>(highest, n, total) i.
          if \<not> set_active (sets store ! i) then (highest, n, total)
          else (int i, n + 1, total + uint (nsems (sets store ! i))))
          (0, 0, 0) [0..<length (sets store)]
      in (highest_index,
          \<lparr>semmap = TGC_SEM_MAX_SETS, semmni = TGC_SEM_MAX_SETS,
           semmns = TGC_SEM_MAX_SETS * TGC_SEM_MAX_PER_SET, semmnu = TGC_SEM_MAX_SETS,
           semmsl = TGC_SEM_MAX_PER_SET, semopm = TGC_SEM_MAX_PER_SET,
           semume = TGC_SEM_MAX_PER_SET,
           semusz = (if dynamic then active_sets else sizeof_tgc_sem_set),
           semvmx = TGC_SEM_MAX_VALUE,
           semaem = (if dynamic then total_semaphores else TGC_SEM_MAX_VALUE)\<rparr>))"

subsection \<open>Process exit\<close>

text \<open>One iteration of the loop of \<open>tgc_sem_store_process_exit\<close>, at undo slot \<open>i\<close>; \<open>now i\<close> is the
  clock as that iteration reads it.\<close>

definition clamp_value :: "int \<Rightarrow> int" where
  "clamp_value v = (if v < 0 then 0 else if TGC_SEM_MAX_VALUE < v then TGC_SEM_MAX_VALUE else v)"

definition process_exit_step ::
  "(nat \<Rightarrow> int option) \<Rightarrow> int \<Rightarrow> nat \<Rightarrow> tgc_sem_store \<times> int \<Rightarrow> tgc_sem_store \<times> int" where
  "process_exit_step now pid i state =
     (let (store, changed) = state; entry = undo_entries store ! i in
      if \<not> undo_active entry \<or> undo_pid entry \<noteq> pid then (store, changed)
      else
        (let (store, changed) =
           (case find_set store (undo_semid entry) of
              None \<Rightarrow> (store, changed)
            | Some k \<Rightarrow>
                (let set = sets store ! k; semnum = unat (undo_semnum entry) in
                 if undo_semnum entry < nsems set then
                   (let v = clamp_value (uint (sem_values set ! semnum) + adjustment entry);
                        set = set\<lparr>sem_values := (sem_values set)[semnum := word_of_int v],
                          last_pids := (last_pids set)[semnum := pid],
                          set_otime := current_time_seconds (now i)\<rparr>
                    in (store\<lparr>sets := (sets store)[k := set]\<rparr>, 1))
                 else (store, changed)))
         in (store\<lparr>undo_entries :=
               (undo_entries store)[i := entry\<lparr>undo_active := False\<rparr>]\<rparr>, changed)))"

definition tgc_sem_store_process_exit ::
  "(nat \<Rightarrow> int option) \<Rightarrow> tgc_sem_store \<Rightarrow> int \<Rightarrow> int \<times> tgc_sem_store" where
  "tgc_sem_store_process_exit now store pid =
     (if pid \<le> 0 then (err EINVAL, store)
      else
        (let (store, changed) =
           fold (process_exit_step now pid) [0..<length (undo_entries store)] (store, 0)
         in (changed, store)))"

subsection \<open>Atomic semaphore operations\<close>

text \<open>The second loop of \<open>tgc_sem_store_tryop_detail\<close> works on a copy of the values: it finishes
  with the new values, stops because a value would exceed the maximum, or stops at the operation
  that has to wait.\<close>

datatype working_result = Working "u16 list" | OutOfRange | Blocked tgc_sem_op

fun apply_operations :: "u16 list \<Rightarrow> tgc_sem_op list \<Rightarrow> working_result" where
  "apply_operations working [] = Working working"
| "apply_operations working (operation # operations) =
     (let semnum = unat (sem_num operation); v = working ! semnum in
      if 0 < sint (sem_op operation) then
        (let result = (ucast v + scast (sem_op operation) :: u32) in
         if TGC_SEM_MAX_VALUE < result then OutOfRange
         else apply_operations (working[semnum := ucast result]) operations)
      else if sint (sem_op operation) < 0 then
        (let amount = (word_of_int (- sint (sem_op operation)) :: u32) in
         if ucast v < amount then Blocked operation
         else apply_operations (working[semnum := ucast (ucast v - amount)]) operations)
      else if v \<noteq> 0 then Blocked operation
      else apply_operations working operations)"

text \<open>The third loop sums the adjustments the operations marked \<open>SEM_UNDO\<close> leave behind;
  \<open>None\<close> is the return of \<open>-ERANGE\<close>.\<close>

definition undo_in_range :: "int \<Rightarrow> bool" where
  "undo_in_range delta \<longleftrightarrow> - TGC_SEM_MAX_VALUE - 1 \<le> delta \<and> delta \<le> TGC_SEM_MAX_VALUE"

fun sum_undo_deltas :: "int list \<Rightarrow> tgc_sem_op list \<Rightarrow> int list option" where
  "sum_undo_deltas undo_deltas [] = Some undo_deltas"
| "sum_undo_deltas undo_deltas (operation # operations) =
     (if sem_flg operation AND TGC_SEM_UNDO = 0 then sum_undo_deltas undo_deltas operations
      else
        (let semnum = unat (sem_num operation);
             delta = undo_deltas ! semnum - sint (sem_op operation)
         in if \<not> undo_in_range delta then None
            else sum_undo_deltas (undo_deltas[semnum := delta]) operations))"

text \<open>The fourth loop counts the undo slots the request needs and checks the sums it would store.\<close>

fun required_undo_entries ::
  "tgc_sem_store \<Rightarrow> int \<Rightarrow> int \<Rightarrow> int list \<Rightarrow> nat list \<Rightarrow> nat \<Rightarrow> nat option" where
  "required_undo_entries store pid semid undo_deltas [] required = Some required"
| "required_undo_entries store pid semid undo_deltas (semnum # semnums) required =
     (if undo_deltas ! semnum = 0
      then required_undo_entries store pid semid undo_deltas semnums required
      else
        (let (total, required) =
           (case find_undo_entry store pid semid (word_of_nat semnum) of
              Some e \<Rightarrow> (undo_deltas ! semnum + adjustment (undo_entries store ! e), required)
            | None \<Rightarrow> (undo_deltas ! semnum, required + 1))
         in if \<not> undo_in_range total then None
            else required_undo_entries store pid semid undo_deltas semnums required))"

text \<open>The last loop commits the adjustments slot by slot; \<open>False\<close> is its return of \<open>-ENOSPC\<close>.\<close>

fun commit_undo ::
  "tgc_sem_store \<Rightarrow> int \<Rightarrow> int \<Rightarrow> int list \<Rightarrow> nat list \<Rightarrow> bool \<times> tgc_sem_store" where
  "commit_undo store pid semid undo_deltas [] = (True, store)"
| "commit_undo store pid semid undo_deltas (semnum # semnums) =
     (if undo_deltas ! semnum = 0 then commit_undo store pid semid undo_deltas semnums
      else
        (case (case find_undo_entry store pid semid (word_of_nat semnum) of
                 Some e \<Rightarrow> Some (e, undo_entries store ! e)
               | None \<Rightarrow>
                   map_option (\<lambda>e. (e, \<lparr>undo_pid = pid, undo_semid = semid, adjustment = 0,
                     undo_semnum = word_of_nat semnum, undo_active = True\<rparr>))
                     (find_free_undo_entry store)) of
           None \<Rightarrow> (False, store)
         | Some (e, entry) \<Rightarrow>
             (let entry = entry\<lparr>adjustment := adjustment entry + undo_deltas ! semnum\<rparr>;
                  entry = (if adjustment entry = 0 then entry\<lparr>undo_active := False\<rparr> else entry)
              in commit_undo (store\<lparr>undo_entries := (undo_entries store)[e := entry]\<rparr>)
                   pid semid undo_deltas semnums)))"

definition tgc_sem_store_tryop_detail ::
  "int option \<Rightarrow> tgc_sem_store \<Rightarrow> int \<Rightarrow> tgc_sem_op list \<Rightarrow> int \<Rightarrow> tgc_sem_wait_reason \<Rightarrow>
   int \<times> tgc_sem_store \<times> tgc_sem_wait_reason" where
  "tgc_sem_store_tryop_detail now store semid operations pid wait_reason =
     (case find_set store semid of
        None \<Rightarrow> (err EINVAL, store, wait_reason)
      | Some k \<Rightarrow>
          (let set = sets store ! k in
           if operations = [] then (err EINVAL, store, wait_reason)
           else if list_ex (\<lambda>operation. nsems set \<le> sem_num operation \<or>
                (ucast (sem_flg operation) :: u32) AND NOT (TGC_IPC_NOWAIT OR TGC_SEM_UNDO) \<noteq> 0)
                operations
           then (err EINVAL, store, wait_reason)
           else
             (case apply_operations (sem_values set) operations of
                OutOfRange \<Rightarrow> (err ERANGE, store, wait_reason)
              | Blocked operation \<Rightarrow>
                  (if sem_flg operation AND TGC_IPC_NOWAIT \<noteq> 0 then err EAGAIN
                   else TGC_SEM_OP_BLOCKED, store,
                   \<lparr>wr_sem_num = sem_num operation,
                    wr_wait_for_zero = (if sint (sem_op operation) = 0 then 1 else 0)\<rparr>)
              | Working working \<Rightarrow>
                  (case sum_undo_deltas (replicate TGC_SEM_MAX_PER_SET 0) operations of
                     None \<Rightarrow> (err ERANGE, store, wait_reason)
                   | Some undo_deltas \<Rightarrow>
                       (case required_undo_entries store pid semid undo_deltas
                          [0..<unat (nsems set)] 0 of
                          None \<Rightarrow> (err ERANGE, store, wait_reason)
                        | Some required_entries \<Rightarrow>
                            if count_slots (\<lambda>entry. \<not> undo_active entry) (undo_entries store)
                               < required_entries
                            then (err ENOSPC, store, wait_reason)
                            else
                              (let set = set\<lparr>sem_values := working,
                                     last_pids := foldl (\<lambda>pids operation.
                                       pids[unat (sem_num operation) := pid])
                                       (last_pids set) operations\<rparr>;
                                   store = store\<lparr>sets := (sets store)[k := set]\<rparr>;
                                   (committed, store) =
                                     commit_undo store pid semid undo_deltas
                                       [0..<unat (nsems set)]
                               in if \<not> committed then (err ENOSPC, store, wait_reason)
                                  else
                                    (let set = (sets store ! k)\<lparr>set_otime := current_time_seconds now\<rparr>
                                     in (0, store\<lparr>sets := (sets store)[k := set]\<rparr>,
                                         wait_reason))))))))"

definition tgc_sem_store_tryop ::
  "int option \<Rightarrow> tgc_sem_store \<Rightarrow> int \<Rightarrow> tgc_sem_op list \<Rightarrow> int \<Rightarrow> int \<times> tgc_sem_store" where
  "tgc_sem_store_tryop now store semid operations pid =
     (let (result, store, wait_reason) = tgc_sem_store_tryop_detail now store semid operations pid
        \<lparr>wr_sem_num = 0, wr_wait_for_zero = 0\<rparr>
      in (result, store))"

end
