(* ===== verification/SemStoreInv.thy ===== *)
theory SemStoreInv
  imports SemStore
begin

text \<open>
  What every reachable semaphore store satisfies, and that the operations on sets keep it. The
  invariant says that the arrays of an active set have the length the set announces, that every
  value is a System V semaphore value, that an inactive slot is zero but for its generation, that
  no two sets share a key, and that a pending undo adjustment is non-zero, within Linux's bounds,
  belongs to a semaphore that exists and is the only one of its process for that semaphore.
\<close>

unbundle bit_operations_syntax

definition clock_ok :: "int option \<Rightarrow> bool" where
  "clock_ok now \<longleftrightarrow> in_i64 (current_time_seconds now)"

definition set_ok :: "tgc_sem_set \<Rightarrow> bool" where
  "set_ok s \<longleftrightarrow>
     generation s \<le> SEM_ID_MAX_GENERATION \<and>
     (if set_active s then
        generation s \<noteq> 0 \<and> 0 < unat (nsems s) \<and> unat (nsems s) \<le> TGC_SEM_MAX_PER_SET \<and>
        length (sem_values s) = unat (nsems s) \<and> length (last_pids s) = unat (nsems s) \<and>
        length (negative_waiters s) = unat (nsems s) \<and> length (zero_waiters s) = unat (nsems s) \<and>
        (\<forall>v\<in>set (sem_values s). v \<le> TGC_SEM_MAX_VALUE) \<and> (\<forall>p\<in>set (last_pids s). in_i32 p) \<and>
        in_i32 (set_key s) \<and> set_mode s \<le> MODE_MASK \<and> in_i64 (set_otime s) \<and> in_i64 (set_ctime s)
      else s = zero_set\<lparr>generation := generation s\<rparr>)"

text \<open>The identifier names an active set that has the semaphore.\<close>

definition has_sem :: "tgc_sem_store \<Rightarrow> int \<Rightarrow> u16 \<Rightarrow> bool" where
  "has_sem store semid semnum \<longleftrightarrow>
     (case find_set store semid of None \<Rightarrow> False | Some k \<Rightarrow> semnum < nsems (sets store ! k))"

definition undo_ok :: "tgc_sem_store \<Rightarrow> tgc_undo_entry \<Rightarrow> bool" where
  "undo_ok store e \<longleftrightarrow>
     (undo_active e \<longrightarrow>
        in_i32 (undo_semid e) \<and> adjustment e \<noteq> 0 \<and> undo_in_range (adjustment e) \<and>
        has_sem store (undo_semid e) (undo_semnum e))"

definition undo_key :: "tgc_undo_entry \<Rightarrow> int \<times> int \<times> u16" where
  "undo_key e = (undo_pid e, undo_semid e, undo_semnum e)"

definition undo_distinct :: "tgc_undo_entry list \<Rightarrow> bool" where
  "undo_distinct es \<longleftrightarrow> (\<forall>i<length es. \<forall>j<length es.
     undo_active (es ! i) \<and> undo_active (es ! j) \<and> undo_key (es ! i) = undo_key (es ! j) \<longrightarrow> i = j)"

definition keys_distinct :: "tgc_sem_set list \<Rightarrow> bool" where
  "keys_distinct ss \<longleftrightarrow> (\<forall>i<length ss. \<forall>j<length ss.
     set_active (ss ! i) \<and> set_active (ss ! j) \<and> set_key (ss ! i) = set_key (ss ! j) \<and>
     set_key (ss ! i) \<noteq> TGC_IPC_PRIVATE \<longrightarrow> i = j)"

definition store_inv :: "tgc_sem_store \<Rightarrow> bool" where
  "store_inv store \<longleftrightarrow>
     length (sets store) = TGC_SEM_MAX_SETS \<and>
     length (undo_entries store) = TGC_SEM_MAX_UNDO_ENTRIES \<and>
     (\<forall>s\<in>set (sets store). set_ok s) \<and> (\<forall>e\<in>set (undo_entries store). undo_ok store e) \<and>
     undo_distinct (undo_entries store) \<and> keys_distinct (sets store)"

subsection \<open>Semaphore identifiers\<close>

lemma unat_u16_less: "unat (g::u16) < 65536"
  using unsigned_less [of g, where ?'a = nat] by simp

lemma shifted_or: "(b::nat) < 65536 \<Longrightarrow> a * 65536 OR b = a * 65536 + b"
proof -
  assume "b < 65536"
  then have "b = take_bit 16 b" by (simp add: take_bit_nat_eq_self)
  then have "\<not> bit (push_bit 16 a) n \<or> \<not> bit b n" for n
    by (metis bit_push_bit_iff bit_take_bit_iff linorder_not_less)
  then have "push_bit 16 a + b = push_bit 16 a OR b" by (rule disjunctive_add)
  then show ?thesis by (simp add: push_bit_eq_mult)
qed

lemma make_id_eq:
  assumes "i < 128" "g \<le> 0x7fff"
  shows "make_id i g = int (unat g * 65536 + (i + 1))"
proof -
  let ?w = "ucast (push_bit 16 (ucast g :: u32)) OR (word_of_nat (i + 1) :: u64)"
  have g: "unat g < 32768" using assms(2) by (simp add: word_le_nat_alt)
  have "unat (ucast g :: u32) = unat g"
    using g by (simp add: unsigned_ucast_eq take_bit_nat_eq_self)
  then have "unat (push_bit 16 (ucast g :: u32)) = unat g * 65536"
    unfolding unsigned_push_bit_eq using g by (simp add: take_bit_nat_eq_self push_bit_eq_mult)
  then have "unat (ucast (push_bit 16 (ucast g :: u32)) :: u64) = unat g * 65536"
    unfolding unsigned_ucast_eq using g by (simp add: take_bit_nat_eq_self)
  moreover have "unat (word_of_nat (i + 1) :: u64) = i + 1"
    unfolding unat_of_nat using assms(1) by simp
  ultimately have "unat ?w = (unat g * 65536) OR (i + 1)"
    unfolding unsigned_or_eq by simp
  also have "\<dots> = unat g * 65536 + (i + 1)"
    using assms(1) by (intro shifted_or) simp
  finally have "unat (ucast ?w :: u32) = unat g * 65536 + (i + 1)"
    using g assms(1) by (simp add: unsigned_ucast_eq take_bit_nat_eq_self)
  then have u: "uint (ucast ?w :: u32) = int (unat g * 65536 + (i + 1))"
    by (metis uint_nat)
  have "make_id i g = signed_take_bit 31 (uint (ucast ?w :: u32))"
    by (simp add: make_id_def sint_uint)
  also have "\<dots> = int (unat g * 65536 + (i + 1))"
  proof -
    define n where "n = unat g * 65536 + (i + 1)"
    have "n < 2147483648" using g assms(1) unfolding n_def by linarith
    then show ?thesis
      unfolding u n_def [symmetric] by (intro signed_take_bit_int_eq_self) simp_all
  qed
  finally show ?thesis .
qed

lemma decode_id_eq:
  assumes "0 < semid" "in_i32 semid"
  shows "decode_id semid =
    (let m = nat semid in
     if m mod 65536 = 0 \<or> 128 < m mod 65536 \<or> m div 65536 = 0 then None
     else Some (m mod 65536 - 1, word_of_nat (m div 65536)))"
proof -
  define m where "m = nat semid"
  define id where "id = (word_of_int semid :: u32)"
  define e where "e = id AND 0xffff"
  have m: "semid = int m" "0 < m" "m < 2147483648"
    using assms by (auto simp: m_def in_i32_def)
  have id: "unat id = m"
    using m by (simp add: id_def unat_of_nat)
  have e_take: "e = take_bit 16 id" by (simp add: e_def take_bit_eq_mask mask_eq_exp_minus_1)
  have e: "unat e = m mod 65536"
    unfolding e_take unsigned_take_bit_eq id by (simp add: take_bit_eq_mod)
  have g: "(ucast (drop_bit 16 id) :: u16) = word_of_nat (m div 65536)"
  proof -
    have "unat (drop_bit 16 id) = m div 65536" 
      unfolding unat_drop_bit_eq id by (simp add: drop_bit_eq_div)
    then show ?thesis by (metis of_nat_unat)
  qed
  have z: "word_of_nat (m div 65536) = (0::u16) \<longleftrightarrow> m div 65536 = 0"
  proof -
    have "m div 65536 < 65536" using m by simp
    then show ?thesis by (simp add: word_of_nat_eq_0_iff nat_dvd_not_less) (metis dvd_0_right nat_dvd_not_less neq0_conv)
  qed
  have e1: "unat (e - 1) = m mod 65536 - 1" if "m mod 65536 \<noteq> 0"
    using that e by (metis unat_eq_zero unat_minus_one)
  have "decode_id semid = (if e = 0 \<or> 128 < e \<or> (ucast (drop_bit 16 id) :: u16) = 0 then None
      else Some (unat (e - 1), ucast (drop_bit 16 id)))"
    using assms(1) unfolding decode_id_def id_def e_def Let_def by simp
  moreover have "e = 0 \<longleftrightarrow> m mod 65536 = 0" "128 < e \<longleftrightarrow> 128 < m mod 65536"
    using e by (auto simp: unat_eq_zero word_less_nat_alt)
  ultimately show ?thesis
    using e1 g z unfolding m_def [symmetric] Let_def by auto
qed

lemma decode_make_id:
  assumes "i < 128" "g \<le> 0x7fff" "g \<noteq> 0"
  shows "decode_id (make_id i g) = Some (i, g)"
proof -
  have g: "unat g < 32768" "0 < unat g"
    using assms(2,3) by (simp_all add: word_le_nat_alt unat_gt_0)
  have id: "make_id i g = int (unat g * 65536 + (i + 1))" (is "_ = int ?m")
    using assms by (intro make_id_eq)
  have m: "?m mod 65536 = i + 1" "?m div 65536 = unat g" "nat (int ?m) = ?m"
    using assms(1) by (simp_all only: nat_int) simp_all
  have "?m < 2147483648" using g assms(1) by linarith
  then have "in_i32 (int ?m)" unfolding in_i32_def by linarith
  then have "decode_id (int ?m) = Some (i, word_of_nat (unat g))"
    using assms(1) g by (subst decode_id_eq) (simp_all only: Let_def m, simp_all)
  then show ?thesis by (simp add: id)
qed

lemma decode_id_SomeD:
  assumes "decode_id semid = Some (i, g)"
  shows "i < 128" "g \<noteq> 0" "0 < semid"
proof -
  define e where "e = (word_of_int semid :: u32) AND 0xffff"
  have e: "0 < semid" "e \<noteq> 0" "\<not> 128 < e" "i = unat (e - 1)" "g \<noteq> 0"
    using assms unfolding decode_id_def e_def Let_def by (simp_all split: if_splits)
  then have "unat e \<le> 128" "unat (e - 1) = unat e - 1" "0 < unat e"
    by (simp_all add: word_less_nat_alt unat_minus_one unat_gt_0)
  with e show "i < 128" "g \<noteq> 0" "0 < semid" by simp_all
qed

lemma make_decode_id:
  assumes "decode_id semid = Some (i, g)" "in_i32 semid"
  shows "make_id i g = semid" "g \<le> 0x7fff"
proof -
  define m where "m = nat semid"
  have pos: "0 < semid" and i: "i < 128" using decode_id_SomeD [OF assms(1)] by simp_all
  then have m: "semid = int m" "m < 2147483648" using assms(2) by (auto simp: m_def in_i32_def)
  have d: "m mod 65536 \<noteq> 0" "i = m mod 65536 - 1" "g = word_of_nat (m div 65536)"
    using assms(1) unfolding decode_id_eq [OF pos assms(2)] Let_def m_def [symmetric]
    by (simp_all split: if_splits)
  have "unat g = m div 65536" using m d by (simp add: unat_of_nat)
  then have g: "unat g = m div 65536" "unat g \<le> 32767" using m by simp_all
  then show le: "g \<le> 0x7fff" by (simp add: word_le_nat_alt)
  have "unat g * 65536 + (i + 1) = m" using g d by simp
  with make_id_eq [OF i le] m show "make_id i g = semid" by metis
qed

lemma decode_id_inj:
  "decode_id a = Some p \<Longrightarrow> decode_id b = Some p \<Longrightarrow> in_i32 a \<Longrightarrow> in_i32 b \<Longrightarrow> a = b"
  by (cases p) (metis make_decode_id(1))

lemma make_id_in_i32 [simp]: "in_i32 (make_id i g)"
  by (simp add: make_id_def)

subsection \<open>Finding a set\<close>

lemma find_set_Some:
  "find_set store semid = Some k \<longleftrightarrow>
     (\<exists>g. decode_id semid = Some (k, g) \<and> set_active (sets store ! k) \<and> generation (sets store ! k) = g)"
  by (auto simp: find_set_def Let_def split: option.splits)

lemma find_set_SomeD:
  assumes "find_set store semid = Some k"
  shows "k < 128" "set_active (sets store ! k)" "decode_id semid = Some (k, generation (sets store ! k))"
  using assms decode_id_SomeD by (auto simp: find_set_Some)

lemma find_set_undo [simp]: "find_set (store\<lparr>undo_entries := es\<rparr>) semid = find_set store semid"
  by (simp add: find_set_def split: option.splits)

lemma find_set_make_id:
  assumes "store_inv store" "k < 128" "set_active (sets store ! k)"
  shows "find_set store (make_id k (generation (sets store ! k))) = Some k"
proof -
  from assms have "set_ok (sets store ! k)" by (simp add: store_inv_def)
  with assms show ?thesis
    by (simp add: find_set_Some set_ok_def decode_make_id)
qed

text \<open>Two identifiers that find the same slot are the same identifier.\<close>

lemma find_set_inj:
  assumes "find_set store a = Some k" "find_set store b = Some k" "in_i32 a" "in_i32 b"
  shows "a = b"
  using assms by (metis find_set_SomeD(3) decode_id_inj)

lemma find_set_write_same:
  assumes "k < length (sets store)" "set_active x = set_active (sets store ! k)"
    "generation x = generation (sets store ! k)"
  shows "find_set (store\<lparr>sets := (sets store)[k := x]\<rparr>) semid = find_set store semid"
  using assms by (auto simp: find_set_def Let_def nth_list_update split: option.splits)

lemma find_set_write_other:
  assumes "find_set store semid = Some j" "j \<noteq> k"
  shows "find_set (store\<lparr>sets := (sets store)[k := x]\<rparr>) semid = Some j"
  using assms by (simp add: find_set_Some)

subsection \<open>Writing a slot\<close>

lemma store_inv_write:
  assumes inv: "store_inv store" and k: "k < 128" and ok: "set_ok x"
    and key: "\<And>j. set_active x \<Longrightarrow> set_key x \<noteq> 0 \<Longrightarrow> j < 128 \<Longrightarrow> j \<noteq> k \<Longrightarrow>
      set_active (sets store ! j) \<Longrightarrow> set_key (sets store ! j) \<noteq> set_key x"
    and undo: "\<And>e. e \<in> set (undo_entries store) \<Longrightarrow> undo_active e \<Longrightarrow>
      find_set store (undo_semid e) = Some k \<Longrightarrow>
      set_active x \<and> generation x = generation (sets store ! k) \<and> undo_semnum e < nsems x"
  shows "store_inv (store\<lparr>sets := (sets store)[k := x]\<rparr>)"
proof -
  let ?s = "store\<lparr>sets := (sets store)[k := x]\<rparr>"
  have len: "length (sets store) = 128" using inv by (simp add: store_inv_def)
  have "undo_ok ?s e" if e: "e \<in> set (undo_entries store)" for e
  proof (cases "undo_active e")
    case True
    with inv e have ok_e: "undo_ok store e" by (simp add: store_inv_def)
    then obtain j where j: "find_set store (undo_semid e) = Some j"
      using True by (auto simp: undo_ok_def has_sem_def split: option.splits)
    show ?thesis
    proof (cases "j = k")
      case True
      with undo [OF e \<open>undo_active e\<close>] j have x: "set_active x" "generation x = generation (sets store ! k)"
        "undo_semnum e < nsems x" by auto
      then have "find_set ?s (undo_semid e) = Some k"
        using j True k len by (auto simp: find_set_Some)
      with x ok_e \<open>undo_active e\<close> k len show ?thesis by (simp add: undo_ok_def has_sem_def)
    next
      case False
      with j have "find_set ?s (undo_semid e) = Some j" by (intro find_set_write_other)
      with ok_e j False \<open>undo_active e\<close> show ?thesis by (simp add: undo_ok_def has_sem_def)
    qed
  qed (simp add: undo_ok_def)
  moreover have "keys_distinct ((sets store)[k := x])"
    unfolding keys_distinct_def
  proof (intro allI impI)
    fix i j assume "i < length ((sets store)[k := x])" "j < length ((sets store)[k := x])"
      and "set_active ((sets store)[k := x] ! i) \<and> set_active ((sets store)[k := x] ! j) \<and>
        set_key ((sets store)[k := x] ! i) = set_key ((sets store)[k := x] ! j) \<and>
        set_key ((sets store)[k := x] ! i) \<noteq> 0"
    then show "i = j"
      using inv key [of i] key [of j] len k
      by (cases "i = k"; cases "j = k") (simp_all add: store_inv_def keys_distinct_def)
  qed
  moreover have "\<forall>s\<in>set ((sets store)[k := x]). set_ok s"
    using inv ok by (auto simp: store_inv_def dest!: set_update_subset_insert [THEN subsetD])
  ultimately show ?thesis using inv len by (simp add: store_inv_def)
qed

text \<open>A write that keeps the slot's identity: the case of every operation on an existing set.\<close>

lemma store_inv_update:
  assumes inv: "store_inv store" and find: "find_set store semid = Some k" and ok: "set_ok x"
    and same: "set_active x" "generation x = generation (sets store ! k)"
      "nsems x = nsems (sets store ! k)" "set_key x = set_key (sets store ! k)"
  shows "store_inv (store\<lparr>sets := (sets store)[k := x]\<rparr>)"
proof (rule store_inv_write [OF inv _ ok])
  show k: "k < 128" using find by (rule find_set_SomeD)
  fix j
  assume "set_key x \<noteq> 0" "j < 128" "j \<noteq> k" "set_active (sets store ! j)"
  then show "set_key (sets store ! j) \<noteq> set_key x"
    using inv k find_set_SomeD(2) [OF find] same by (auto simp: store_inv_def keys_distinct_def)
next
  fix e assume "e \<in> set (undo_entries store)" "undo_active e" "find_set store (undo_semid e) = Some k"
  then have "undo_semnum e < nsems (sets store ! k)"
    using inv by (auto simp: store_inv_def undo_ok_def has_sem_def)
  then show "set_active x \<and> generation x = generation (sets store ! k) \<and> undo_semnum e < nsems x"
    using same by simp
qed

subsection \<open>Changing the undo table\<close>

lemma undo_ok_undo [simp]: "undo_ok (store\<lparr>undo_entries := es\<rparr>) e = undo_ok store e"
  by (simp add: undo_ok_def has_sem_def split: option.splits)

lemma store_inv_undo:
  assumes "store_inv store" "length es = 4096" "\<forall>e\<in>set es. undo_ok store e" "undo_distinct es"
  shows "store_inv (store\<lparr>undo_entries := es\<rparr>)"
  using assms by (simp add: store_inv_def)

lemma clear_entry_sel [simp]:
  "undo_pid (clear_entry semid n b e) = undo_pid e"
  "undo_semid (clear_entry semid n b e) = undo_semid e"
  "adjustment (clear_entry semid n b e) = adjustment e"
  "undo_semnum (clear_entry semid n b e) = undo_semnum e"
  "undo_active (clear_entry semid n b e) \<longleftrightarrow>
     undo_active e \<and> \<not> (undo_semid e = semid \<and> (b \<or> unat (undo_semnum e) = n))"
  "undo_key (clear_entry semid n b e) = undo_key e"
  by (auto simp: clear_entry_def undo_key_def)

lemma clear_undo_sel [simp]:
  "sets (clear_undo_entries store semid n b) = sets store"
  "find_set (clear_undo_entries store semid n b) x = find_set store x"
  by (simp_all add: clear_undo_entries_def)

lemma store_inv_clear [intro]:
  assumes "store_inv store"
  shows "store_inv (clear_undo_entries store semid n b)"
  unfolding clear_undo_entries_def
proof (rule store_inv_undo [OF assms])
  show "\<forall>e\<in>set (map (clear_entry semid n b) (undo_entries store)). undo_ok store e"
    using assms by (simp add: store_inv_def undo_ok_def)
  show "undo_distinct (map (clear_entry semid n b) (undo_entries store))"
    using assms by (simp add: store_inv_def undo_distinct_def)
qed (use assms in \<open>simp add: store_inv_def\<close>)

lemma nth_set_ok: "store_inv store \<Longrightarrow> k < 128 \<Longrightarrow> set_ok (sets store ! k)"
  by (simp add: store_inv_def)

lemma find_set_ok:
  "store_inv store \<Longrightarrow> find_set store semid = Some k \<Longrightarrow> set_ok (sets store ! k) \<and> set_active (sets store ! k)"
  using find_set_SomeD nth_set_ok by blast

subsection \<open>Every operation on sets keeps the invariant\<close>

lemma inv_create: "store_inv tgc_sem_store_create"
proof -
  have "set_ok zero_set" by (simp add: set_ok_def zero_set_def)
  moreover have "undo_ok store zero_undo_entry" for store
    by (simp add: undo_ok_def zero_undo_entry_def)
  moreover have "undo_distinct (replicate n zero_undo_entry)" for n
    by (simp add: undo_distinct_def zero_undo_entry_def)
  moreover have "keys_distinct (replicate n zero_set)" for n
    by (simp add: keys_distinct_def zero_set_def)
  ultimately show ?thesis
    by (simp add: store_inv_def tgc_sem_store_create_def)
qed

lemma get_as_cases:
  obtains (failed) e where "tgc_sem_store_get_as sys store key n flags identity = (err e, store)"
  | (existing) i where "key \<noteq> 0"
      "find_index (\<lambda>set. set_active set \<and> set_key set = key) (sets store) = Some i"
      "0 \<le> n" "n \<le> int (unat (nsems (sets store ! i)))" "flags AND 512 = 0 \<or> flags AND 1024 = 0"
      "tgc_sem_store_get_as sys store key n flags identity = (make_id i (generation (sets store ! i)), store)"
  | (created) i where "0 < n" "n \<le> 512" "find_index (\<lambda>set. \<not> set_active set) (sets store) = Some i"
      "key \<noteq> 0 \<Longrightarrow> \<forall>s\<in>set (sets store). set_active s \<longrightarrow> set_key s \<noteq> key"
      "tgc_sem_store_get_as sys store key n flags identity =
        (make_id i (generation (init_set sys (sets store ! i) key n flags identity)),
         store\<lparr>sets := (sets store)[i := init_set sys (sets store ! i) key n flags identity]\<rparr>)"
proof (cases "if key \<noteq> 0 then find_index (\<lambda>set. set_active set \<and> set_key set = key) (sets store) else None")
  case (Some i)
  then have key: "key \<noteq> 0" "find_index (\<lambda>set. set_active set \<and> set_key set = key) (sets store) = Some i"
    by (simp_all split: if_splits)
  consider "flags AND 512 \<noteq> 0 \<and> flags AND 1024 \<noteq> 0"
    | "flags AND 512 = 0 \<or> flags AND 1024 = 0" "n < 0 \<or> int (unat (nsems (sets store ! i))) < n"
    | "flags AND 512 = 0 \<or> flags AND 1024 = 0" "0 \<le> n" "n \<le> int (unat (nsems (sets store ! i)))"
    by linarith
  then show ?thesis
  proof cases
    case 1
    then have "tgc_sem_store_get_as sys store key n flags identity = (err EEXIST, store)"
      unfolding tgc_sem_store_get_as_def Some by (simp add: Let_def)
    then show ?thesis by (rule failed)
  next
    case 2
    then have "tgc_sem_store_get_as sys store key n flags identity = (err EINVAL, store)"
      unfolding tgc_sem_store_get_as_def Some by (auto simp: Let_def)
    then show ?thesis by (rule failed)
  next
    case 3
    then have "tgc_sem_store_get_as sys store key n flags identity = (make_id i (generation (sets store ! i)), store)"
      unfolding tgc_sem_store_get_as_def Some by (auto simp: Let_def)
    with key 3(2,3,1) show ?thesis by (intro existing)
  qed
next
  case None
  then have nokey: "key \<noteq> 0 \<Longrightarrow> \<forall>s\<in>set (sets store). set_active s \<longrightarrow> set_key s \<noteq> key"
    by (auto simp: find_index_None split: if_splits)
  show ?thesis
  proof (cases "\<exists>e. tgc_sem_store_get_as sys store key n flags identity = (err e, store)")
    case False
    then obtain i where i: "find_index (\<lambda>set. \<not> set_active set) (sets store) = Some i"
      unfolding tgc_sem_store_get_as_def None by (auto split: if_splits option.splits)
    from False have "0 < n" "n \<le> 512" "tgc_sem_store_get_as sys store key n flags identity =
        (make_id i (generation (init_set sys (sets store ! i) key n flags identity)),
         store\<lparr>sets := (sets store)[i := init_set sys (sets store ! i) key n flags identity]\<rparr>)"
      unfolding tgc_sem_store_get_as_def None i by (auto simp: Let_def split: if_splits)
    with i nokey show ?thesis by (intro created)
  qed (use failed in blast)
qed

lemma init_set_ok:
  assumes "set_ok s" "0 < n" "n \<le> 512" "in_i32 key" "clock_ok (clock_realtime sys)"
  shows "set_ok (init_set sys s key n flags identity)"
proof -
  have "unat (word_of_int n :: u16) = nat n"
    using assms(2,3) by (simp add: nat_less_iff unsigned_of_int take_bit_int_eq_self)
  with assms show ?thesis
    by (auto simp: init_set_def set_ok_def word_and_le1 clock_ok_def in_i32_def in_i64_def
        split: if_splits)
qed

lemma inv_get_as:
  assumes inv: "store_inv store" and key: "in_i32 key" and clock: "clock_ok (clock_realtime sys)"
  shows "store_inv (snd (tgc_sem_store_get_as sys store key n flags identity))"
proof (cases rule: get_as_cases [of sys store key n flags identity])
  case failed
  with inv show ?thesis by simp
next
  case existing
  with inv show ?thesis by simp
next
  case (created i)
  have len: "length (sets store) = 128" using inv by (simp add: store_inv_def)
  have i: "i < 128" "\<not> set_active (sets store ! i)"
    using find_index_SomeD [OF created(3)] len by simp_all
  have "store_inv (store\<lparr>sets := (sets store)[i := init_set sys (sets store ! i) key n flags identity]\<rparr>)"
  proof (rule store_inv_write [OF inv i(1)])
    show "set_ok (init_set sys (sets store ! i) key n flags identity)"
      using created key clock nth_set_ok [OF inv i(1)] by (intro init_set_ok)
  next
    fix j assume "set_key (init_set sys (sets store ! i) key n flags identity) \<noteq> 0" "j < 128"
      "set_active (sets store ! j)"
    then show "set_key (sets store ! j) \<noteq> set_key (init_set sys (sets store ! i) key n flags identity)"
      using created(4) len nth_mem [of j "sets store"] by (auto simp: init_set_def)
  next
    fix e assume "find_set store (undo_semid e) = Some i"
    with i show "set_active (init_set sys (sets store ! i) key n flags identity) \<and>
        generation (init_set sys (sets store ! i) key n flags identity) = generation (sets store ! i) \<and>
        undo_semnum e < nsems (init_set sys (sets store ! i) key n flags identity)"
      using find_set_SomeD(2) by blast
  qed
  with created(5) show ?thesis by simp
qed

lemma next_generation_ok: "next_generation g \<le> 0x7fff \<and> next_generation g \<noteq> 0"
proof (cases "0x7fff \<le> g")
  case False
  then have "unat g < 32767" by (simp add: word_le_nat_alt)
  then have "unat (g + 1) = unat g + 1" by (simp add: unat_word_ariths)
  with \<open>unat g < 32767\<close> have "unat (g + 1) \<le> 32767" "unat (g + 1) \<noteq> 0" by simp_all
  then show ?thesis using False by (auto simp: next_generation_def word_le_nat_alt)
qed (simp add: next_generation_def)

lemma inv_remove:
  assumes inv: "store_inv store" and semid: "in_i32 semid"
  shows "store_inv (snd (tgc_sem_store_remove store semid))"
proof (cases "find_set store semid")
  case (Some k)
  let ?s = "clear_undo_entries store semid 0 True"
  let ?x = "zero_set\<lparr>generation := next_generation (generation (sets store ! k))\<rparr>"
  have "store_inv (?s\<lparr>sets := (sets ?s)[k := ?x]\<rparr>)"
  proof (rule store_inv_write)
    show "store_inv ?s" using inv by (rule store_inv_clear)
    show "k < 128" using Some by (rule find_set_SomeD)
    show "set_ok ?x" using next_generation_ok by (simp add: set_ok_def zero_set_def)
  next
    fix e
    assume e: "e \<in> set (undo_entries ?s)" "undo_active e" "find_set ?s (undo_semid e) = Some k"
    then have "in_i32 (undo_semid e)" "undo_semid e \<noteq> semid"
      using inv by (auto simp: clear_undo_entries_def store_inv_def undo_ok_def)
    with e(3) Some semid have False using find_set_inj by fastforce
    then show "set_active ?x \<and> generation ?x = generation (sets ?s ! k) \<and> undo_semnum e < nsems ?x" ..
  qed (simp add: zero_set_def)
  with Some show ?thesis by (simp add: tgc_sem_store_remove_def Let_def)
qed (use inv in \<open>simp add: tgc_sem_store_remove_def\<close>)

lemma list_update_all: "\<forall>v\<in>set xs. P v \<Longrightarrow> P x \<Longrightarrow> \<forall>v\<in>set (xs[i := x]). P v"
  by (auto dest!: set_update_subset_insert [THEN subsetD])

lemma inv_setval:
  assumes inv: "store_inv store" and pid: "in_i32 pid" and clock: "clock_ok now"
  shows "store_inv (snd (tgc_sem_store_setval now store semid n v pid))"
proof (cases "find_set store semid")
  case (Some k)
  let ?s = "clear_undo_entries store semid n False"
  let ?x = "(sets store ! k)\<lparr>sem_values := (sem_values (sets store ! k))[n := ucast v],
    last_pids := (last_pids (sets store ! k))[n := pid], set_ctime := current_time_seconds now\<rparr>"
  have ok: "set_ok (sets store ! k)" "set_active (sets store ! k)"
    using find_set_ok [OF inv Some] by simp_all
  have "store_inv (?s\<lparr>sets := (sets ?s)[k := ?x]\<rparr>)" if v: "\<not> 32767 < v"
  proof (rule store_inv_update)
    from v have "ucast v \<le> (32767 :: u16)"
      by (simp add: word_le_nat_alt word_less_nat_alt unsigned_ucast_eq take_bit_nat_eq_self)
    then have "\<forall>v\<in>set (sem_values ?x). v \<le> 32767"
      using ok by (simp add: set_ok_def) (intro list_update_all, simp_all)
    moreover have "\<forall>p\<in>set (last_pids ?x). in_i32 p"
      using ok pid by (simp add: set_ok_def) (intro list_update_all, simp_all)
    ultimately show "set_ok ?x"
      using ok clock by (simp add: set_ok_def clock_ok_def)
  qed (use inv Some ok in auto)
  with Some inv show ?thesis
    by (simp add: tgc_sem_store_setval_def Let_def)
qed (use inv in \<open>simp add: tgc_sem_store_setval_def\<close>)

lemma foldl_fill_nth:
  "length (foldl (\<lambda>ps k. ps[f k := p]) ps ks) = length ps"
  "j < length ps \<Longrightarrow> foldl (\<lambda>ps k. ps[f k := p]) ps ks ! j = (if j \<in> f ` set ks then p else ps ! j)"
  by (induction ks arbitrary: ps) (auto simp: nth_list_update)

lemma foldl_fill_all:
  assumes "\<forall>q\<in>set ps. P q" "P p"
  shows "\<forall>q\<in>set (foldl (\<lambda>ps k. ps[f k := p]) ps ks). P q"
  using assms(1)
proof (induction ks arbitrary: ps)
  case (Cons k ks)
  have "\<forall>q\<in>set (ps[f k := p]). P q" using Cons.prems assms(2) by (rule list_update_all)
  then show ?case unfolding foldl_Cons by (rule Cons.IH)
qed simp

lemma inv_setall:
  assumes inv: "store_inv store" and pid: "in_i32 pid" and clock: "clock_ok now"
    and len: "n \<le> length vals"
  shows "store_inv (snd (tgc_sem_store_setall now store semid vals n pid))"
proof (cases "find_set store semid")
  case (Some k)
  let ?s = "clear_undo_entries store semid 0 True"
  let ?x = "(sets store ! k)\<lparr>sem_values := take n vals @ drop n (sem_values (sets store ! k)),
    last_pids := foldl (\<lambda>pids k. pids[k := pid]) (last_pids (sets store ! k)) [0..<n],
    set_ctime := current_time_seconds now\<rparr>"
  have ok: "set_ok (sets store ! k)" "set_active (sets store ! k)"
    using find_set_ok [OF inv Some] by simp_all
  have "store_inv (?s\<lparr>sets := (sets ?s)[k := ?x]\<rparr>)"
    if v: "\<not> list_ex (\<lambda>k. 32767 < vals ! k) [0..<n]" and n: "n = unat (nsems (sets store ! k))"
  proof (rule store_inv_update)
    from v len have "\<forall>x\<in>set (take n vals). x \<le> 32767"
      by (auto simp: in_set_conv_nth list_ex_iff not_less)
    moreover have "\<forall>p\<in>set (last_pids ?x). in_i32 p"
      using ok pid by (simp add: set_ok_def) (intro foldl_fill_all, simp_all)
    ultimately show "set_ok ?x"
      using ok clock len n by (simp add: set_ok_def clock_ok_def foldl_fill_nth)
  qed (use inv Some ok in auto)
  with Some inv show ?thesis
    by (simp add: tgc_sem_store_setall_def Let_def)
qed (use inv in \<open>simp add: tgc_sem_store_setall_def\<close>)

lemma mode_mask_le: "(m::u32) AND NOT 511 = 0 \<Longrightarrow> m \<le> 511"
proof -
  assume "m AND NOT 511 = 0"
  then have "m = m AND 511"
    by (metis and.right_neutral bit.conj_disj_distrib bit.disj_cancel_right or.right_neutral)
  then show ?thesis by (metis word_and_le1)
qed

lemma inv_set_metadata:
  assumes inv: "store_inv store" and clock: "clock_ok now"
  shows "store_inv (snd (tgc_sem_store_set_metadata now store semid uid gid mode actor))"
proof (cases "find_set store semid")
  case (Some k)
  have ok: "set_ok (sets store ! k)" "set_active (sets store ! k)"
    using find_set_ok [OF inv Some] by simp_all
  have "store_inv (store\<lparr>sets := (sets store)[k := (sets store ! k)\<lparr>set_gid := gid, set_mode := mode,
      set_ctime := current_time_seconds now\<rparr>]\<rparr>)" if "mode AND NOT 511 = 0"
    using inv Some
  proof (rule store_inv_update)
    show "set_ok ((sets store ! k)\<lparr>set_gid := gid, set_mode := mode,
        set_ctime := current_time_seconds now\<rparr>)"
      using ok clock mode_mask_le [OF that] by (simp add: set_ok_def clock_ok_def)
  qed (use ok in auto)
  with Some inv show ?thesis
    by (simp add: tgc_sem_store_set_metadata_def Let_def)
qed (use inv in \<open>simp add: tgc_sem_store_set_metadata_def\<close>)

lemma inv_adjust_wait_count:
  assumes inv: "store_inv store"
  shows "store_inv (snd (tgc_sem_store_adjust_wait_count store semid n z d))"
proof (cases "find_set store semid")
  case (Some k)
  have ok: "set_ok (sets store ! k)" "set_active (sets store ! k)"
    using find_set_ok [OF inv Some] by simp_all
  have "store_inv (store\<lparr>sets := (sets store)[k := (sets store ! k)\<lparr>zero_waiters :=
      (zero_waiters (sets store ! k))[n := c]\<rparr>]\<rparr>)" for c
    using inv Some by (rule store_inv_update) (use ok in \<open>auto simp: set_ok_def\<close>)
  moreover have "store_inv (store\<lparr>sets := (sets store)[k := (sets store ! k)\<lparr>negative_waiters :=
      (negative_waiters (sets store ! k))[n := c]\<rparr>]\<rparr>)" for c
    using inv Some by (rule store_inv_update) (use ok in \<open>auto simp: set_ok_def\<close>)
  ultimately show ?thesis
    using Some inv by (simp add: tgc_sem_store_adjust_wait_count_def Let_def)
qed (use inv in \<open>simp add: tgc_sem_store_adjust_wait_count_def\<close>)

end
