(* ===== verification/SemOp.thy ===== *)
theory SemOp
  imports SemStoreInv
begin

text \<open>
  \<open>semop\<close> and \<open>SEM_UNDO\<close>: what the four loops of \<open>tgc_sem_store_tryop_detail\<close> compute, against
  reference definitions on unbounded integers, and how the table of 4096 undo slots behaves as a
  function from process, set and semaphore to a pending adjustment.
\<close>

unbundle bit_operations_syntax

subsection \<open>Applying the operations\<close>

lemma add_op_word:
  assumes "(v::u16) \<le> 32767" "0 < sint (d::i16)"
  shows "uint (ucast v + scast d :: u32) = uint v + sint d"
    "\<not> 32767 < (ucast v + scast d :: u32) \<Longrightarrow> uint (ucast (ucast v + scast d :: u32) :: u16) = uint v + sint d"
    "(32767 < (ucast v + scast d :: u32)) \<longleftrightarrow> 32767 < uint v + sint d"
proof -
  have b: "0 \<le> uint v" "uint v \<le> 32767" "sint d \<le> 32767"
    using assms(1) sint_i16_bounds by (simp_all add: uint_le_u16)
  have "(ucast v + scast d :: u32) = word_of_int (uint v + sint d)"
    by simp
  then show u: "uint (ucast v + scast d :: u32) = uint v + sint d"
    using b assms(2) by (simp only:) (intro uint_word_of_int_u32, simp_all)
  show "(32767 < (ucast v + scast d :: u32)) \<longleftrightarrow> 32767 < uint v + sint d"
    unfolding word_less_def u by simp
  show "uint (ucast (ucast v + scast d :: u32) :: u16) = uint v + sint d"
    if "\<not> 32767 < (ucast v + scast d :: u32)"
  proof -
    from that have "uint v + sint d \<le> 32767" unfolding word_less_def u by simp
    then show ?thesis
      unfolding unsigned_ucast_eq u using b assms(2) by (simp add: take_bit_int_eq_self)
  qed
qed

lemma sub_op_word:
  assumes "(v::u16) \<le> 32767" "sint (d::i16) < 0"
  shows "(ucast v < (word_of_int (- sint d) :: u32)) \<longleftrightarrow> uint v + sint d < 0"
    "\<not> uint v + sint d < 0 \<Longrightarrow> uint (ucast (ucast v - (word_of_int (- sint d) :: u32)) :: u16) = uint v + sint d"
proof -
  have b: "0 \<le> uint v" "uint v \<le> 32767" "- 32768 \<le> sint d"
    using assms(1) sint_i16_bounds by (simp_all add: uint_le_u16)
  have a: "uint (word_of_int (- sint d) :: u32) = - sint d"
    using b assms(2) by (intro uint_word_of_int_u32) simp_all
  have v: "uint (ucast v :: u32) = uint v"
    using b by (simp add: unsigned_ucast_eq take_bit_int_eq_self)
  show "(ucast v < (word_of_int (- sint d) :: u32)) \<longleftrightarrow> uint v + sint d < 0"
    unfolding word_less_def a v by linarith
  show "uint (ucast (ucast v - (word_of_int (- sint d) :: u32)) :: u16) = uint v + sint d"
    if "\<not> uint v + sint d < 0"
  proof -
    have "ucast v - (word_of_int (- sint d) :: u32) = word_of_int (uint v + sint d)" by simp
    then have "uint (ucast v - (word_of_int (- sint d) :: u32)) = uint v + sint d"
      using b that assms(2) by (simp only:) (intro uint_word_of_int_u32, simp_all)
    then show ?thesis
      unfolding unsigned_ucast_eq using b that assms(2) by (simp add: take_bit_int_eq_self)
  qed
qed

datatype sv_outcome = SvDone "int list" | SvRange | SvWait tgc_sem_op

fun sv_apply :: "int list \<Rightarrow> tgc_sem_op list \<Rightarrow> sv_outcome" where
  "sv_apply vals [] = SvDone vals"
| "sv_apply vals (operation # operations) =
     (let n = unat (sem_num operation); d = sint (sem_op operation); v = vals ! n in
      if d = 0 then (if v = 0 then sv_apply vals operations else SvWait operation)
      else if v + d < 0 then SvWait operation
      else if 32767 < v + d then SvRange
      else sv_apply (vals[n := v + d]) operations)"

fun sv_outcome_of :: "working_result \<Rightarrow> sv_outcome" where
  "sv_outcome_of (Working working) = SvDone (map uint working)"
| "sv_outcome_of OutOfRange = SvRange"
| "sv_outcome_of (Blocked operation) = SvWait operation"

lemma apply_operations_sv:
  assumes "\<forall>v\<in>set ws. v \<le> 32767" "\<forall>operation\<in>set ops. unat (sem_num operation) < length ws"
  shows "sv_outcome_of (apply_operations ws ops) = sv_apply (map uint ws) ops"
  using assms
proof (induction ops arbitrary: ws)
  case (Cons operation ops)
  define n where "n = unat (sem_num operation)"
  define d where "d = sem_op operation"
  have n: "n < length ws" "ws ! n \<le> 32767"
    using Cons.prems by (simp_all add: n_def)
  have IH: "sv_outcome_of (apply_operations (ws[n := x]) ops) = sv_apply ((map uint ws)[n := uint x]) ops"
    if "x \<le> 32767" for x
    using Cons.IH [of "ws[n := x]"] Cons.prems list_update_all [of ws "\<lambda>v. v \<le> 32767"] that
    by (simp add: map_update)
  have zero: "uint (ws ! n) = 0 \<longleftrightarrow> ws ! n = 0" by (simp add: uint_0_iff)
  consider "0 < sint d" | "sint d < 0" | "sint d = 0" by linarith
  then show ?case
  proof cases
    case 1
    note w = add_op_word [OF n(2) 1]
    have nn: "\<not> uint (ws ! n) + sint d < 0" using 1 uint_ge_0 [of "ws ! n"] by linarith
    have "sv_apply (map uint ws) (operation # ops) = (if 32767 < uint (ws ! n) + sint d then SvRange
        else sv_apply ((map uint ws)[n := uint (ws ! n) + sint d]) ops)"
      using 1 n by (simp add: Let_def n_def [symmetric] d_def [symmetric] nn)
    moreover have "apply_operations ws (operation # ops) = (if 32767 < uint (ws ! n) + sint d then OutOfRange
        else apply_operations (ws[n := ucast (ucast (ws ! n) + scast d :: u32)]) ops)"
      using 1 w(3) by (simp add: Let_def n_def [symmetric] d_def [symmetric])
    moreover have "(ucast (ucast (ws ! n) + scast d :: u32) :: u16) \<le> 32767" if "\<not> 32767 < uint (ws ! n) + sint d"
      using w(2,3) that by (simp add: uint_le_u16)
    ultimately show ?thesis using IH w(2,3) by simp
  next
    case 2
    note w = sub_op_word [OF n(2) 2]
    have "uint (ws ! n) \<le> 32767" using n by (simp add: uint_le_u16)
    then have le: "uint (ws ! n) + sint d \<le> 32767" using 2 by linarith
    then have "sv_apply (map uint ws) (operation # ops) = (if uint (ws ! n) + sint d < 0 then SvWait operation
        else sv_apply ((map uint ws)[n := uint (ws ! n) + sint d]) ops)"
      using 2 n by (simp add: Let_def n_def [symmetric] d_def [symmetric])
    moreover have "apply_operations ws (operation # ops) = (if uint (ws ! n) + sint d < 0 then Blocked operation
        else apply_operations (ws[n := ucast (ucast (ws ! n) - (word_of_int (- sint d) :: u32))]) ops)"
      using 2 w(1) by (simp add: Let_def n_def [symmetric] d_def [symmetric])
    moreover have "(ucast (ucast (ws ! n) - (word_of_int (- sint d) :: u32)) :: u16) \<le> 32767"
      if "\<not> uint (ws ! n) + sint d < 0"
      using w(2) that le by (simp add: uint_le_u16)
    ultimately show ?thesis using IH w(2) by simp
  next
    case 3
    then show ?thesis
      using Cons.IH [of ws] Cons.prems n zero
      by (simp add: Let_def n_def [symmetric] d_def [symmetric])
  qed
qed simp

text \<open>The net change the operations ask of semaphore \<open>n\<close>, in general and with \<open>SEM_UNDO\<close> only.\<close>

definition is_undo :: "tgc_sem_op \<Rightarrow> bool" where
  "is_undo operation \<longleftrightarrow> sem_flg operation AND 4096 \<noteq> 0"

definition op_sum :: "tgc_sem_op list \<Rightarrow> nat \<Rightarrow> int" where
  "op_sum ops n = (\<Sum>operation\<leftarrow>filter (\<lambda>operation. unat (sem_num operation) = n) ops. sint (sem_op operation))"

definition undo_sum :: "tgc_sem_op list \<Rightarrow> nat \<Rightarrow> int" where
  "undo_sum ops n = - op_sum (filter is_undo ops) n"

lemma op_sum_simps [simp]:
  "op_sum [] n = 0"
  "op_sum (operation # ops) n = (if unat (sem_num operation) = n then sint (sem_op operation) else 0) + op_sum ops n"
  by (simp_all add: op_sum_def)

lemma op_sum_append: "op_sum (xs @ ys) n = op_sum xs n + op_sum ys n"
  by (induction xs) simp_all

lemma sv_apply_sum:
  assumes "sv_apply vals ops = SvDone vals'" "j < length vals"
  shows "vals' ! j = vals ! j + op_sum ops j"
  using assms
proof (induction ops arbitrary: vals)
  case (Cons operation ops)
  then show ?case
    by (auto simp: Let_def nth_list_update split: if_splits)
qed simp

lemma sv_apply_length: "sv_apply vals ops = SvDone vals' \<Longrightarrow> length vals' = length vals"
  by (induction ops arbitrary: vals) (auto simp: Let_def split: if_splits)

lemma sv_apply_bounds:
  assumes "sv_apply vals ops = SvDone vals'" "\<forall>v\<in>set vals. 0 \<le> v \<and> v \<le> 32767"
  shows "\<forall>v\<in>set vals'. 0 \<le> v \<and> v \<le> 32767"
  using assms
proof (induction ops arbitrary: vals)
  case (Cons operation ops)
  let ?n = "unat (sem_num operation)" let ?x = "vals ! ?n + sint (sem_op operation)"
  consider "sv_apply vals ops = SvDone vals'"
    | "sv_apply (vals[?n := ?x]) ops = SvDone vals'" "0 \<le> ?x" "?x \<le> 32767"
    using Cons.prems(1) by (auto simp: Let_def split: if_splits)
  then show ?case
  proof cases
    case 2
    have "\<forall>v\<in>set (vals[?n := ?x]). 0 \<le> v \<and> v \<le> 32767"
      using Cons.prems(2) 2 by (intro list_update_all) simp_all
    with 2(1) show ?thesis by (rule Cons.IH)
  qed (use Cons in blast)
qed simp

subsection \<open>Summing the undo adjustments\<close>

text \<open>The loop fails exactly when some prefix of the request asks for an adjustment out of range.\<close>

definition undo_overflow :: "int list \<Rightarrow> tgc_sem_op list \<Rightarrow> bool" where
  "undo_overflow ds ops \<longleftrightarrow>
     (\<exists>i\<le>length ops. \<exists>n<length ds. \<not> undo_in_range (ds ! n + undo_sum (take i ops) n))"

lemma undo_sum_simps [simp]:
  "undo_sum [] n = 0"
  "undo_sum (operation # ops) n =
     (if is_undo operation \<and> unat (sem_num operation) = n then - sint (sem_op operation) else 0) + undo_sum ops n"
  by (simp_all add: undo_sum_def)

lemma undo_overflow_Cons:
  assumes "\<forall>d\<in>set ds. undo_in_range d"
  shows "undo_overflow ds (operation # ops) \<longleftrightarrow>
    undo_overflow (if is_undo operation then ds[unat (sem_num operation) :=
      ds ! unat (sem_num operation) - sint (sem_op operation)] else ds) ops"
    (is "?l \<longleftrightarrow> undo_overflow ?ds ops")
proof -
  have eq: "ds ! n + undo_sum (take (Suc i) (operation # ops)) n = ?ds ! n + undo_sum (take i ops) n"
    if "n < length ds" for n i
    using that by (auto simp: nth_list_update)
  have len: "length ?ds = length ds" by simp
  show ?thesis
  proof
    assume ?l
    then obtain i n where i: "i \<le> Suc (length ops)" "n < length ds"
      "\<not> undo_in_range (ds ! n + undo_sum (take i (operation # ops)) n)"
      by (auto simp: undo_overflow_def)
    moreover have "i \<noteq> 0" using i assms by (cases i) simp_all
    ultimately obtain i' where "i = Suc i'" by (cases i) simp_all
    with i eq have "i' \<le> length ops" "n < length ?ds" "\<not> undo_in_range (?ds ! n + undo_sum (take i' ops) n)"
      by (simp_all only: len) simp_all
    then show "undo_overflow ?ds ops" unfolding undo_overflow_def by blast
  next
    assume "undo_overflow ?ds ops"
    then obtain i n where "i \<le> length ops" "n < length ds" "\<not> undo_in_range (?ds ! n + undo_sum (take i ops) n)"
      unfolding undo_overflow_def len by blast
    then have "Suc i \<le> length (operation # ops)" "n < length ds"
      "\<not> undo_in_range (ds ! n + undo_sum (take (Suc i) (operation # ops)) n)"
      by (simp_all only: eq) simp_all
    then show ?l unfolding undo_overflow_def by blast
  qed
qed

lemma undo_overflow_now:
  assumes "n < length ds" "\<not> undo_in_range (ds ! n)"
  shows "undo_overflow ds ops"
  using assms unfolding undo_overflow_def by (intro exI [of _ 0]) auto

lemma sum_undo_deltas_eq:
  assumes "\<forall>operation\<in>set ops. unat (sem_num operation) < length ds" "\<forall>d\<in>set ds. undo_in_range d"
  shows "sum_undo_deltas ds ops =
    (if undo_overflow ds ops then None else Some (map (\<lambda>n. ds ! n + undo_sum ops n) [0..<length ds]))"
  using assms
proof (induction ops arbitrary: ds)
  case Nil
  then show ?case by (simp add: undo_overflow_def map_nth)
next
  case (Cons operation ops)
  define s where "s = unat (sem_num operation)"
  define x where "x = ds ! s - sint (sem_op operation)"
  have s: "s < length ds" using Cons.prems by (simp add: s_def)
  note oc = undo_overflow_Cons [OF Cons.prems(2), of operation ops, folded s_def, folded x_def]
  show ?case
  proof (cases "is_undo operation")
    case False
    then show ?thesis using Cons oc by (simp add: is_undo_def)
  next
    case True
    then have step: "sum_undo_deltas ds (operation # ops) =
        (if \<not> undo_in_range x then None else sum_undo_deltas (ds[s := x]) ops)"
      by (simp add: Let_def is_undo_def s_def x_def)
    show ?thesis
    proof (cases "undo_in_range x")
      case False
      then have "undo_overflow (ds[s := x]) ops" using s by (intro undo_overflow_now [of s]) simp_all
      with False step oc True show ?thesis by simp
    next
      case ok: True
      have "\<forall>d\<in>set (ds[s := x]). undo_in_range d"
        using Cons.prems(2) ok by (rule list_update_all)
      then have "sum_undo_deltas (ds[s := x]) ops = (if undo_overflow (ds[s := x]) ops then None
          else Some (map (\<lambda>n. ds[s := x] ! n + undo_sum ops n) [0..<length ds]))"
        using Cons.IH [of "ds[s := x]"] Cons.prems(1) by simp
      moreover have "map (\<lambda>n. ds[s := x] ! n + undo_sum ops n) [0..<length ds] =
          map (\<lambda>n. ds ! n + undo_sum (operation # ops) n) [0..<length ds]"
        using True by (auto simp: nth_list_update s_def x_def)
      ultimately show ?thesis using step oc True ok by simp
    qed
  qed
qed

subsection \<open>The undo table as a function\<close>

definition undo_adj :: "tgc_undo_entry list \<Rightarrow> int \<times> int \<times> u16 \<Rightarrow> int" where
  "undo_adj es key =
     (case find_index (\<lambda>e. undo_active e \<and> undo_key e = key) es of
        None \<Rightarrow> 0 | Some i \<Rightarrow> adjustment (es ! i))"

lemma find_undo_entry_key:
  "find_undo_entry store pid semid n =
     find_index (\<lambda>e. undo_active e \<and> undo_key e = (pid, semid, n)) (undo_entries store)"
  by (simp add: find_undo_entry_def undo_key_def)

lemma undo_adj_eqI:
  assumes "undo_distinct es" "i < length es" "undo_active (es ! i)" "undo_key (es ! i) = key"
  shows "undo_adj es key = adjustment (es ! i)"
proof -
  have "find_index (\<lambda>e. undo_active e \<and> undo_key e = key) es = Some i"
    using assms by (intro find_index_unique) (auto simp: undo_distinct_def)
  then show ?thesis by (simp add: undo_adj_def)
qed

lemma undo_adj_zeroI:
  assumes "\<And>i. i < length es \<Longrightarrow> undo_active (es ! i) \<Longrightarrow> undo_key (es ! i) = key \<Longrightarrow> adjustment (es ! i) = 0"
  shows "undo_adj es key = 0"
  using assms by (auto simp: undo_adj_def split: option.splits dest: find_index_SomeD)

definition undo_nonzero :: "tgc_undo_entry list \<Rightarrow> bool" where
  "undo_nonzero es \<longleftrightarrow> (\<forall>e\<in>set es. undo_active e \<longrightarrow> adjustment e \<noteq> 0)"

lemma undo_adj_eq_0:
  assumes "undo_nonzero es"
  shows "undo_adj es key = 0 \<longleftrightarrow> find_index (\<lambda>e. undo_active e \<and> undo_key e = key) es = None"
proof (cases "find_index (\<lambda>e. undo_active e \<and> undo_key e = key) es")
  case (Some i)
  have "es ! i \<in> set es" "undo_active (es ! i)" using find_index_SomeD(1,2) [OF Some] by simp_all
  with assms have "adjustment (es ! i) \<noteq> 0" by (simp add: undo_nonzero_def)
  with Some show ?thesis by (simp add: undo_adj_def)
qed (simp add: undo_adj_def)

lemma undo_adj_write:
  assumes "undo_distinct (es[i := e])" "undo_distinct es" "i < length es"
  shows "undo_adj (es[i := e]) key =
    (if undo_active e \<and> undo_key e = key then adjustment e
     else if undo_active (es ! i) \<and> undo_key (es ! i) = key then 0 else undo_adj es key)"
proof (cases "undo_active e \<and> undo_key e = key")
  case True
  then show ?thesis using undo_adj_eqI [OF assms(1), of i] assms(3) by simp
next
  case False
  show ?thesis
  proof (cases "undo_active (es ! i) \<and> undo_key (es ! i) = key")
    case True
    have "undo_adj (es[i := e]) key = 0"
    proof (rule undo_adj_zeroI)
      fix j assume j: "j < length (es[i := e])" "undo_active (es[i := e] ! j)" "undo_key (es[i := e] ! j) = key"
      with False have "j \<noteq> i" using assms(3) by auto
      with j True assms(2,3) have False by (auto simp: undo_distinct_def)
      then show "adjustment (es[i := e] ! j) = 0" ..
    qed
    with True False show ?thesis by auto
  next
    case no: False
    then have "find_index (\<lambda>e. undo_active e \<and> undo_key e = key) (es[i := e]) =
        find_index (\<lambda>e. undo_active e \<and> undo_key e = key) es"
      using False assms(3) by (intro find_index_update_same) simp_all
    moreover have "es[i := e] ! j = es ! j" if "find_index (\<lambda>e. undo_active e \<and> undo_key e = key) es = Some j" for j
      using find_index_SomeD(2) [OF that] no by (cases "j = i") auto
    ultimately show ?thesis using False no by (auto simp: undo_adj_def split: option.splits)
  qed
qed

text \<open>What the commit loop needs of the table, and keeps.\<close>

definition undo_table_ok :: "tgc_sem_store \<Rightarrow> bool" where
  "undo_table_ok store \<longleftrightarrow> length (undo_entries store) = 4096 \<and>
     (\<forall>e\<in>set (undo_entries store). undo_ok store e) \<and> undo_distinct (undo_entries store)"

lemma undo_table_nonzero: "undo_table_ok store \<Longrightarrow> undo_nonzero (undo_entries store)"
  by (auto simp: undo_table_ok_def undo_nonzero_def undo_ok_def)

abbreviation free_slots :: "tgc_sem_store \<Rightarrow> nat" where
  "free_slots store \<equiv> count_slots (\<lambda>e. \<not> undo_active e) (undo_entries store)"

definition fresh_entry :: "int \<Rightarrow> int \<Rightarrow> u16 \<Rightarrow> tgc_undo_entry" where
  "fresh_entry pid semid n =
     \<lparr>undo_pid = pid, undo_semid = semid, adjustment = 0, undo_semnum = n, undo_active = True\<rparr>"

definition add_adjustment :: "int \<Rightarrow> tgc_undo_entry \<Rightarrow> tgc_undo_entry" where
  "add_adjustment d e =
     (let e = e\<lparr>adjustment := adjustment e + d\<rparr> in
      if adjustment e = 0 then e\<lparr>undo_active := False\<rparr> else e)"

lemma add_adjustment_sel [simp]:
  "undo_pid (add_adjustment d e) = undo_pid e"
  "undo_semid (add_adjustment d e) = undo_semid e"
  "undo_semnum (add_adjustment d e) = undo_semnum e"
  "undo_key (add_adjustment d e) = undo_key e"
  "adjustment (add_adjustment d e) = adjustment e + d"
  "undo_active (add_adjustment d e) \<longleftrightarrow> undo_active e \<and> adjustment e + d \<noteq> 0"
  by (auto simp: add_adjustment_def Let_def undo_key_def)

lemma fresh_entry_sel [simp]:
  "undo_pid (fresh_entry pid semid n) = pid" "undo_semid (fresh_entry pid semid n) = semid"
  "undo_semnum (fresh_entry pid semid n) = n" "adjustment (fresh_entry pid semid n) = 0"
  "undo_active (fresh_entry pid semid n)" "undo_key (fresh_entry pid semid n) = (pid, semid, n)"
  by (simp_all add: fresh_entry_def undo_key_def)

text \<open>The slot the commit loop writes for one semaphore: the process's own, or the first free one.\<close>

definition commit_slot :: "tgc_sem_store \<Rightarrow> int \<Rightarrow> int \<Rightarrow> u16 \<Rightarrow> (nat \<times> tgc_undo_entry) option" where
  "commit_slot store pid semid n =
     (case find_undo_entry store pid semid n of
        Some e \<Rightarrow> Some (e, undo_entries store ! e)
      | None \<Rightarrow> map_option (\<lambda>e. (e, fresh_entry pid semid n)) (find_free_undo_entry store))"

lemma commit_undo_Cons:
  "commit_undo store pid semid ds (n # ns) =
     (if ds ! n = 0 then commit_undo store pid semid ds ns
      else case commit_slot store pid semid (word_of_nat n) of
        None \<Rightarrow> (False, store)
      | Some (i, e) \<Rightarrow> commit_undo (store\<lparr>undo_entries := (undo_entries store)[i := add_adjustment (ds ! n) e]\<rparr>)
          pid semid ds ns)"
  unfolding commit_undo.simps commit_slot_def fresh_entry_def add_adjustment_def Let_def by (rule refl)

lemma commit_slot_SomeD:
  assumes "undo_table_ok store" "commit_slot store pid semid n = Some (i, e)"
  shows "i < 4096" "undo_key e = (pid, semid, n)" "undo_active e"
    "adjustment e = undo_adj (undo_entries store) (pid, semid, n)"
    "undo_active (undo_entries store ! i) \<longleftrightarrow> undo_adj (undo_entries store) (pid, semid, n) \<noteq> 0"
    "undo_active (undo_entries store ! i) \<Longrightarrow> undo_key (undo_entries store ! i) = (pid, semid, n)"
    "\<And>j. j < 4096 \<Longrightarrow> j \<noteq> i \<Longrightarrow> undo_active (undo_entries store ! j) \<Longrightarrow> undo_key (undo_entries store ! j) \<noteq> (pid, semid, n)"
proof -
  let ?es = "undo_entries store" let ?key = "(pid, semid, n)"
  let ?find = "find_index (\<lambda>e. undo_active e \<and> undo_key e = ?key) ?es"
  have len: "length ?es = 4096" and dist: "undo_distinct ?es"
    using assms(1) by (simp_all add: undo_table_ok_def)
  have zero: "undo_adj ?es ?key = 0 \<longleftrightarrow> ?find = None"
    using undo_adj_eq_0 [OF undo_table_nonzero [OF assms(1)]] .
  have *: "i < 4096 \<and> undo_key e = ?key \<and> undo_active e \<and> adjustment e = undo_adj ?es ?key \<and>
    (undo_active (?es ! i) \<longleftrightarrow> undo_adj ?es ?key \<noteq> 0) \<and> (undo_active (?es ! i) \<longrightarrow> undo_key (?es ! i) = ?key) \<and>
    (\<forall>j<4096. j \<noteq> i \<longrightarrow> undo_active (?es ! j) \<longrightarrow> undo_key (?es ! j) \<noteq> ?key)"
  proof (cases ?find)
    case None
    with assms(2) have e: "find_free_undo_entry store = Some i" "e = fresh_entry pid semid n"
      by (auto simp: commit_slot_def find_undo_entry_key)
    moreover from None have "undo_adj ?es ?key = 0" using zero by simp
    moreover from None len have "\<forall>j<4096. undo_active (?es ! j) \<longrightarrow> undo_key (?es ! j) \<noteq> ?key"
      using nth_mem [of _ ?es] by (auto simp: find_index_None)
    moreover have "i < 4096" "\<not> undo_active (?es ! i)"
      using e(1) len find_index_SomeD(1,2) [of "\<lambda>e. \<not> undo_active e" ?es i] by (simp_all add: find_free_undo_entry_def)
    ultimately show ?thesis by simp
  next
    case (Some k)
    with assms(2) have e: "i = k" "e = ?es ! k"
      by (auto simp: commit_slot_def find_undo_entry_key)
    note k = find_index_SomeD(1,2) [OF Some]
    have "adjustment e = undo_adj ?es ?key" using Some e by (simp add: undo_adj_def)
    moreover have "undo_adj ?es ?key \<noteq> 0" using zero Some by simp
    moreover have "\<forall>j<4096. j \<noteq> k \<longrightarrow> undo_active (?es ! j) \<longrightarrow> undo_key (?es ! j) \<noteq> ?key"
      using k dist len by (auto simp: undo_distinct_def)
    ultimately show ?thesis using e k len by simp
  qed
  then show "i < 4096" "undo_key e = (pid, semid, n)" "undo_active e"
    "adjustment e = undo_adj (undo_entries store) (pid, semid, n)"
    "undo_active (undo_entries store ! i) \<longleftrightarrow> undo_adj (undo_entries store) (pid, semid, n) \<noteq> 0"
    "undo_active (undo_entries store ! i) \<Longrightarrow> undo_key (undo_entries store ! i) = (pid, semid, n)"
    "\<And>j. j < 4096 \<Longrightarrow> j \<noteq> i \<Longrightarrow> undo_active (undo_entries store ! j) \<Longrightarrow> undo_key (undo_entries store ! j) \<noteq> (pid, semid, n)"
    by blast+
qed

lemma commit_slot_None:
  assumes "undo_table_ok store" "undo_adj (undo_entries store) (pid, semid, n) \<noteq> 0 \<or> 0 < free_slots store"
  shows "commit_slot store pid semid n \<noteq> None"
  using assms undo_adj_eq_0 [OF undo_table_nonzero [OF assms(1)], of "(pid, semid, n)"]
  by (auto simp: commit_slot_def find_undo_entry_key find_free_undo_entry_def count_slots_find split: option.splits)

lemma has_sem_undo [simp]: "has_sem (store\<lparr>undo_entries := es\<rparr>) semid n = has_sem store semid n"
  by (simp add: has_sem_def split: option.splits)

lemma commit_step:
  assumes ok: "undo_table_ok store" and slot: "commit_slot store pid semid n = Some (i, e)"
    and i32: "in_i32 pid" "in_i32 semid" and sem: "has_sem store semid n" and d: "d \<noteq> 0"
    and range: "undo_in_range (undo_adj (undo_entries store) (pid, semid, n) + d)"
    and store': "store' = store\<lparr>undo_entries := (undo_entries store)[i := add_adjustment d e]\<rparr>"
  shows "undo_table_ok store'"
    and "undo_adj (undo_entries store') key =
      undo_adj (undo_entries store) key + (if key = (pid, semid, n) then d else 0)"
    and "free_slots store \<le> free_slots store' + (if undo_adj (undo_entries store) (pid, semid, n) = 0 then 1 else 0)"
proof -
  let ?es = "undo_entries store" let ?e = "add_adjustment d e"
  note s = commit_slot_SomeD [OF ok slot]
  have len: "length ?es = 4096" and dist: "undo_distinct ?es" and all: "\<forall>e\<in>set ?es. undo_ok store e"
    using ok by (simp_all add: undo_table_ok_def)
  have key: "undo_pid e = pid" "undo_semid e = semid" "undo_semnum e = n"
    using s(2) by (simp_all add: undo_key_def)
  have "undo_ok store ?e"
    using i32 sem range s(3,4) by (simp add: undo_ok_def key)
  with all have "\<forall>e\<in>set (?es[i := ?e]). undo_ok store e" by (rule list_update_all)
  moreover have dist': "undo_distinct (?es[i := ?e])"
    unfolding undo_distinct_def
  proof (intro allI impI)
    fix j k assume "j < length (?es[i := ?e])" "k < length (?es[i := ?e])"
      and "undo_active (?es[i := ?e] ! j) \<and> undo_active (?es[i := ?e] ! k) \<and>
        undo_key (?es[i := ?e] ! j) = undo_key (?es[i := ?e] ! k)"
    then show "j = k"
      using s(1,2) s(7) [of j] s(7) [of k] dist len
      by (cases "j = i"; cases "k = i") (simp_all add: undo_distinct_def)
  qed
  ultimately show "undo_table_ok store'"
    using len by (simp add: undo_table_ok_def store')
  show "undo_adj (undo_entries store') key = undo_adj ?es key + (if key = (pid, semid, n) then d else 0)"
    using undo_adj_write [OF dist' dist, of key] s len by (auto simp: store')
  show "free_slots store \<le> free_slots store' + (if undo_adj ?es (pid, semid, n) = 0 then 1 else 0)"
    using count_slots_update [of i ?es "\<lambda>e. \<not> undo_active e" ?e] s(1,5) len by (simp add: store' split: if_splits)
qed

text \<open>The slots the request still needs: one per semaphore it adjusts for the first time.\<close>

definition new_slots :: "tgc_undo_entry list \<Rightarrow> int \<Rightarrow> int \<Rightarrow> int list \<Rightarrow> nat list \<Rightarrow> nat" where
  "new_slots es pid semid ds ns =
     length (filter (\<lambda>n. ds ! n \<noteq> 0 \<and> undo_adj es (pid, semid, word_of_nat n) = 0) ns)"

definition totals_in_range :: "tgc_undo_entry list \<Rightarrow> int \<Rightarrow> int \<Rightarrow> int list \<Rightarrow> nat list \<Rightarrow> bool" where
  "totals_in_range es pid semid ds ns \<longleftrightarrow>
     (\<forall>n\<in>set ns. ds ! n = 0 \<or> undo_in_range (undo_adj es (pid, semid, word_of_nat n) + ds ! n))"

lemma totals_in_range_simps [simp]:
  "totals_in_range es pid semid ds []"
  "totals_in_range es pid semid ds (n # ns) \<longleftrightarrow>
     (ds ! n = 0 \<or> undo_in_range (undo_adj es (pid, semid, word_of_nat n) + ds ! n)) \<and>
     totals_in_range es pid semid ds ns"
  by (simp_all add: totals_in_range_def)

lemma new_slots_simps [simp]:
  "new_slots es pid semid ds [] = 0"
  "new_slots es pid semid ds (n # ns) =
     (if ds ! n \<noteq> 0 \<and> undo_adj es (pid, semid, word_of_nat n) = 0 then 1 else 0) + new_slots es pid semid ds ns"
  by (simp_all add: new_slots_def)

lemma slots_cong:
  assumes "\<forall>n\<in>set ns. undo_adj es' (pid, semid, word_of_nat n) = undo_adj es (pid, semid, word_of_nat n)"
  shows "new_slots es' pid semid ds ns = new_slots es pid semid ds ns"
    "totals_in_range es' pid semid ds ns = totals_in_range es pid semid ds ns"
  using assms by (induction ns) simp_all

lemma required_undo_entries_eq:
  assumes "undo_table_ok store"
  shows "required_undo_entries store pid semid ds ns r =
    (if totals_in_range (undo_entries store) pid semid ds ns
     then Some (r + new_slots (undo_entries store) pid semid ds ns) else None)"
proof (induction ns arbitrary: r)
  case (Cons n ns)
  let ?find = "find_undo_entry store pid semid (word_of_nat n)"
  let ?adj = "undo_adj (undo_entries store) (pid, semid, word_of_nat n)"
  have f: "?adj = (case ?find of None \<Rightarrow> 0 | Some e \<Rightarrow> adjustment (undo_entries store ! e))"
    by (simp add: undo_adj_def find_undo_entry_key)
  have z: "?adj = 0 \<longleftrightarrow> ?find = None"
    using undo_adj_eq_0 [OF undo_table_nonzero [OF assms]] by (simp add: find_undo_entry_key)
  show ?case
  proof (cases ?find)
    case None
    with f z show ?thesis by (simp add: Cons.IH)
  next
    case (Some e)
    with f z have "?adj = adjustment (undo_entries store ! e)" "?adj \<noteq> 0" by auto
    with Some show ?thesis by (simp add: Cons.IH add.commute)
  qed
qed simp

lemma word_of_nat_inj_u16:
  assumes "m < 65536" "n < 65536" "(word_of_nat m :: u16) = word_of_nat n"
  shows "m = n"
proof -
  have m: "unat (word_of_nat m :: u16) = m" using assms(1) by (simp add: unat_of_nat)
  have n: "unat (word_of_nat n :: u16) = n" using assms(2) by (simp add: unat_of_nat)
  from arg_cong [OF assms(3), of unat] show ?thesis unfolding m n .
qed

text \<open>What a successful commit has done to the table.\<close>

definition undo_committed ::
  "tgc_sem_store \<Rightarrow> int \<Rightarrow> int \<Rightarrow> int list \<Rightarrow> nat list \<Rightarrow> tgc_undo_entry list \<Rightarrow> bool" where
  "undo_committed store pid semid ds ns es \<longleftrightarrow> undo_table_ok (store\<lparr>undo_entries := es\<rparr>) \<and>
     (\<forall>p s m. undo_adj es (p, s, m) = undo_adj (undo_entries store) (p, s, m) +
       (if p = pid \<and> s = semid \<and> unat m \<in> set ns then ds ! unat m else 0))"

lemma undo_committed_zero:
  assumes "ds ! n = 0"
  shows "undo_committed store pid semid ds (n # ns) es = undo_committed store pid semid ds ns es"
proof -
  have "(if p = pid \<and> s = semid \<and> unat m \<in> set (n # ns) then ds ! unat m else 0) =
      (if p = pid \<and> s = semid \<and> unat m \<in> set ns then ds ! unat m else 0)" for p s and m :: u16
    using assms by auto
  then show ?thesis unfolding undo_committed_def by presburger
qed

lemma undo_committed_Cons:
  assumes "undo_committed store' pid semid ds ns es" "n < 65536" "n \<notin> set ns"
    "store' = store\<lparr>undo_entries := es0\<rparr>"
    "\<And>key. undo_adj es0 key = undo_adj (undo_entries store) key + (if key = (pid, semid, word_of_nat n) then ds ! n else 0)"
  shows "undo_committed store pid semid ds (n # ns) es"
proof -
  have "undo_adj es (p, s, m) = undo_adj (undo_entries store) (p, s, m) +
      (if p = pid \<and> s = semid \<and> unat m \<in> set (n # ns) then ds ! unat m else 0)" for p s m
  proof (cases "m = word_of_nat n")
    case True
    then have "unat m = n" using assms(2) by (simp add: unat_of_nat)
    with True assms show ?thesis by (simp add: undo_committed_def)
  next
    case False
    then have "unat m \<noteq> n" by auto
    with False assms(1,4,5) show ?thesis by (simp add: undo_committed_def)
  qed
  with assms(1,4) show ?thesis by (simp add: undo_committed_def)
qed

lemma commit_undo_spec:
  assumes "undo_table_ok store" "in_i32 pid" "in_i32 semid" "distinct ns"
    "\<forall>n\<in>set ns. n < 65536 \<and> has_sem store semid (word_of_nat n)"
    "totals_in_range (undo_entries store) pid semid ds ns"
    "new_slots (undo_entries store) pid semid ds ns \<le> free_slots store"
  shows "\<exists>es. commit_undo store pid semid ds ns = (True, store\<lparr>undo_entries := es\<rparr>) \<and>
    undo_committed store pid semid ds ns es"
  using assms
proof (induction ns arbitrary: store)
  case Nil
  then show ?case by (intro exI [of _ "undo_entries store"]) (simp add: undo_committed_def)
next
  case (Cons n ns)
  let ?n = "word_of_nat n :: u16"
  have n: "n < 65536" "n \<notin> set ns" using Cons.prems(4,5) by simp_all
  show ?case
  proof (cases "ds ! n = 0")
    case True
    then have "\<exists>es. commit_undo store pid semid ds ns = (True, store\<lparr>undo_entries := es\<rparr>) \<and>
        undo_committed store pid semid ds ns es"
      using Cons.prems by (intro Cons.IH) simp_all
    with True show ?thesis by (simp add: undo_committed_zero)
  next
    case False
    have range: "undo_in_range (undo_adj (undo_entries store) (pid, semid, ?n) + ds ! n)"
      and sem: "has_sem store semid ?n"
      using Cons.prems(5,6) False by simp_all
    have "commit_slot store pid semid ?n \<noteq> None"
      using Cons.prems(7) False by (intro commit_slot_None [OF Cons.prems(1)]) auto
    then obtain i e where slot: "commit_slot store pid semid ?n = Some (i, e)" by auto
    define store' where "store' = store\<lparr>undo_entries := (undo_entries store)[i := add_adjustment (ds ! n) e]\<rparr>"
    note step = commit_step [OF Cons.prems(1) slot Cons.prems(2,3) sem False range store'_def]
    have "\<forall>m\<in>set ns. undo_adj (undo_entries store') (pid, semid, word_of_nat m) =
        undo_adj (undo_entries store) (pid, semid, word_of_nat m)"
      using n Cons.prems(5) word_of_nat_inj_u16 [of _ n] by (auto simp: step(2))
    note same = slots_cong [OF this]
    have "new_slots (undo_entries store') pid semid ds ns \<le> free_slots store'"
      using Cons.prems(7) step(3) False by (simp add: same split: if_splits)
    then have "\<exists>es. commit_undo store' pid semid ds ns = (True, store'\<lparr>undo_entries := es\<rparr>) \<and>
        undo_committed store' pid semid ds ns es"
      using Cons.prems step(1) by (intro Cons.IH) (simp_all add: same, simp_all add: store'_def)
    then obtain es where es: "commit_undo store' pid semid ds ns = (True, store'\<lparr>undo_entries := es\<rparr>)"
      "undo_committed store' pid semid ds ns es" by blast
    have "undo_committed store pid semid ds (n # ns) es"
      using es(2) n store'_def
      by (rule undo_committed_Cons) (use step(2) in \<open>simp add: store'_def\<close>)
    moreover have "commit_undo store pid semid ds (n # ns) = (True, store\<lparr>undo_entries := es\<rparr>)"
      using es(1) False unfolding commit_undo_Cons slot by (simp add: store'_def)
    ultimately show ?thesis by blast
  qed
qed

subsection \<open>The whole request\<close>

definition valid_ops :: "u16 \<Rightarrow> tgc_sem_op list \<Rightarrow> bool" where
  "valid_ops n ops \<longleftrightarrow> ops \<noteq> [] \<and>
     (\<forall>operation\<in>set ops. sem_num operation < n \<and>
        (ucast (sem_flg operation) :: u32) AND NOT (2048 OR 4096) = 0)"

definition undo_deltas_of :: "tgc_sem_op list \<Rightarrow> int list" where
  "undo_deltas_of ops = map (undo_sum ops) [0..<512]"

definition undo_verdict :: "tgc_sem_store \<Rightarrow> u16 \<Rightarrow> int \<Rightarrow> int \<Rightarrow> tgc_sem_op list \<Rightarrow> int" where
  "undo_verdict store n semid pid ops =
     (if undo_overflow (replicate 512 0) ops \<or>
         \<not> totals_in_range (undo_entries store) pid semid (undo_deltas_of ops) [0..<unat n]
      then err ERANGE
      else if free_slots store < new_slots (undo_entries store) pid semid (undo_deltas_of ops) [0..<unat n]
      then err ENOSPC else 0)"

definition set_after_ops ::
  "int option \<Rightarrow> tgc_sem_set \<Rightarrow> u16 list \<Rightarrow> tgc_sem_op list \<Rightarrow> int \<Rightarrow> tgc_sem_set" where
  "set_after_ops now slot working ops pid =
     slot\<lparr>sem_values := working,
       last_pids := foldl (\<lambda>pids operation. pids[unat (sem_num operation) := pid]) (last_pids slot) ops,
       set_otime := current_time_seconds now\<rparr>"

lemma undo_table_ok_inv: "store_inv store \<Longrightarrow> undo_table_ok store"
  by (simp add: store_inv_def undo_table_ok_def)

lemma store_inv_table:
  "store_inv store \<Longrightarrow> undo_table_ok (store\<lparr>undo_entries := es\<rparr>) \<Longrightarrow> store_inv (store\<lparr>undo_entries := es\<rparr>)"
  by (simp add: store_inv_def undo_table_ok_def)

lemma valid_ops_list_ex:
  "list_ex (\<lambda>operation. n \<le> sem_num operation \<or>
      (ucast (sem_flg operation) :: u32) AND NOT (2048 OR 4096) \<noteq> 0) ops \<longleftrightarrow> ops \<noteq> [] \<and> \<not> valid_ops n ops"
  by (auto simp: valid_ops_def list_ex_iff not_less)

lemma store_update_comm:
  fixes store :: tgc_sem_store
  shows "store\<lparr>undo_entries := es, sets := ss\<rparr> = store\<lparr>sets := ss, undo_entries := es\<rparr>"
  by simp

lemma find_set_cong: "sets a = sets b \<Longrightarrow> find_set a semid = find_set b semid"
  by (simp add: find_set_def split: option.splits)

lemma tryop_invalid:
  "find_set store semid = None \<Longrightarrow>
   tgc_sem_store_tryop_detail now store semid ops pid wr = (err EINVAL, store, wr)"
  "find_set store semid = Some k \<Longrightarrow> \<not> valid_ops (nsems (sets store ! k)) ops \<Longrightarrow>
   tgc_sem_store_tryop_detail now store semid ops pid wr = (err EINVAL, store, wr)"
proof -
  show "tgc_sem_store_tryop_detail now store semid ops pid wr = (err EINVAL, store, wr)"
    if "find_set store semid = None"
    using that by (simp add: tgc_sem_store_tryop_detail_def)
  show "tgc_sem_store_tryop_detail now store semid ops pid wr = (err EINVAL, store, wr)"
    if "find_set store semid = Some k" "\<not> valid_ops (nsems (sets store ! k)) ops"
    using that unfolding tgc_sem_store_tryop_detail_def Let_def valid_ops_list_ex
    by (cases "ops = []") simp_all
qed

lemma tryop_not_working:
  assumes "find_set store semid = Some k" "valid_ops (nsems (sets store ! k)) ops"
  shows "apply_operations (sem_values (sets store ! k)) ops = OutOfRange \<Longrightarrow>
      tgc_sem_store_tryop_detail now store semid ops pid wr = (err ERANGE, store, wr)"
    "apply_operations (sem_values (sets store ! k)) ops = Blocked operation \<Longrightarrow>
      tgc_sem_store_tryop_detail now store semid ops pid wr =
        (if sem_flg operation AND 2048 \<noteq> 0 then err EAGAIN else 1, store,
         \<lparr>wr_sem_num = sem_num operation, wr_wait_for_zero = (if sint (sem_op operation) = 0 then 1 else 0)\<rparr>)"
  using assms unfolding tgc_sem_store_tryop_detail_def Let_def valid_ops_list_ex
  by (simp_all add: valid_ops_def)

lemma set_after_ops_ok:
  assumes "set_ok s" "set_active s" "valid_ops (nsems s) ops" "apply_operations (sem_values s) ops = Working w"
    "in_i32 pid"
  shows "set_ok (s\<lparr>sem_values := w,
       last_pids := foldl (\<lambda>pids operation. pids[unat (sem_num operation) := pid]) (last_pids s) ops\<rparr>)"
    "length w = unat (nsems s)" "map uint w = map (\<lambda>n. uint (sem_values s ! n) + op_sum ops n) [0..<unat (nsems s)]"
proof -
  let ?n = "unat (nsems s)"
  have len: "length (sem_values s) = ?n" and vals: "\<forall>v\<in>set (sem_values s). v \<le> 32767"
    using assms(1,2) by (simp_all add: set_ok_def)
  have "\<forall>operation\<in>set ops. unat (sem_num operation) < length (sem_values s)"
    using assms(3) len by (simp add: valid_ops_def word_less_nat_alt)
  from apply_operations_sv [OF vals this]
  have sv: "sv_apply (map uint (sem_values s)) ops = SvDone (map uint w)" by (simp add: assms(4))
  show lw: "length w = ?n" using sv_apply_length [OF sv] len by simp
  show "map uint w = map (\<lambda>n. uint (sem_values s ! n) + op_sum ops n) [0..<?n]"
    using sv_apply_sum [OF sv] lw len by (intro nth_equalityI) simp_all
  have "\<forall>v\<in>set w. v \<le> 32767"
    using sv_apply_bounds [OF sv] vals by (simp add: uint_le_u16)
  moreover have "\<forall>p\<in>set (foldl (\<lambda>pids operation. pids[unat (sem_num operation) := pid]) (last_pids s) ops). in_i32 p"
    using assms(1,2,5) by (intro foldl_fill_all) (simp_all add: set_ok_def)
  ultimately show "set_ok (s\<lparr>sem_values := w,
       last_pids := foldl (\<lambda>pids operation. pids[unat (sem_num operation) := pid]) (last_pids s) ops\<rparr>)"
    using assms(1,2) lw by (simp add: set_ok_def foldl_fill_nth)
qed

lemma undo_checks:
  assumes inv: "store_inv store" and find: "find_set store semid = Some k"
    and valid: "valid_ops (nsems (sets store ! k)) ops"
  shows "sum_undo_deltas (replicate 512 0) ops =
      (if undo_overflow (replicate 512 0) ops then None else Some (undo_deltas_of ops))"
    "required_undo_entries store pid semid (undo_deltas_of ops) [0..<unat (nsems (sets store ! k))] 0 =
      (if totals_in_range (undo_entries store) pid semid (undo_deltas_of ops) [0..<unat (nsems (sets store ! k))]
       then Some (new_slots (undo_entries store) pid semid (undo_deltas_of ops) [0..<unat (nsems (sets store ! k))])
       else None)"
proof -
  have "unat (nsems (sets store ! k)) \<le> 512"
    using find_set_ok [OF inv find] by (simp add: set_ok_def)
  then have "\<forall>operation\<in>set ops. unat (sem_num operation) < length (replicate 512 (0::int))"
    using valid by (auto simp: valid_ops_def word_less_nat_alt)
  from sum_undo_deltas_eq [OF this]
  have "sum_undo_deltas (replicate 512 0) ops = (if undo_overflow (replicate 512 0) ops then None
      else Some (map (\<lambda>n. replicate 512 0 ! n + undo_sum ops n) [0..<512]))"
    by (simp add: undo_in_range_def)
  moreover have "map (\<lambda>n. replicate 512 0 ! n + undo_sum ops n) [0..<512] = undo_deltas_of ops"
    by (simp add: undo_deltas_of_def)
  ultimately show "sum_undo_deltas (replicate 512 0) ops =
      (if undo_overflow (replicate 512 0) ops then None else Some (undo_deltas_of ops))" by simp
qed (simp add: required_undo_entries_eq [OF undo_table_ok_inv [OF inv]])

lemma tryop_refused:
  assumes inv: "store_inv store" and find: "find_set store semid = Some k"
    and valid: "valid_ops (nsems (sets store ! k)) ops"
    and work: "apply_operations (sem_values (sets store ! k)) ops = Working w"
    and v: "undo_verdict store (nsems (sets store ! k)) semid pid ops \<noteq> 0"
  shows "tgc_sem_store_tryop_detail now store semid ops pid wr =
    (undo_verdict store (nsems (sets store ! k)) semid pid ops, store, wr)"
proof -
  note u = undo_checks [OF inv find valid]
  have ne: "ops \<noteq> []" using valid by (simp add: valid_ops_def)
  show ?thesis
    using v unfolding tgc_sem_store_tryop_detail_def find option.case Let_def valid_ops_list_ex work
      working_result.case u(1) undo_verdict_def
    by (cases "undo_overflow (replicate 512 0) ops") (simp_all add: ne valid u(2) split: if_splits)
qed


text \<open>The slot between the two writes of a successful request: the values are in, the time is not.\<close>

definition set_mid_ops :: "tgc_sem_set \<Rightarrow> u16 list \<Rightarrow> tgc_sem_op list \<Rightarrow> int \<Rightarrow> tgc_sem_set" where
  "set_mid_ops slot working ops pid =
     slot\<lparr>sem_values := working,
       last_pids := foldl (\<lambda>pids operation. pids[unat (sem_num operation) := pid]) (last_pids slot) ops\<rparr>"

lemma set_mid_sel [simp]:
  "set_active (set_mid_ops slot w ops pid) = set_active slot" "nsems (set_mid_ops slot w ops pid) = nsems slot"
  "generation (set_mid_ops slot w ops pid) = generation slot" "set_key (set_mid_ops slot w ops pid) = set_key slot"
  "(set_mid_ops slot w ops pid)\<lparr>set_otime := current_time_seconds now\<rparr> = set_after_ops now slot w ops pid"
  by (simp_all add: set_mid_ops_def set_after_ops_def)

lemma set_after_sel [simp]:
  "set_active (set_after_ops now slot w ops pid) = set_active slot"
  "nsems (set_after_ops now slot w ops pid) = nsems slot"
  "generation (set_after_ops now slot w ops pid) = generation slot"
  "set_key (set_after_ops now slot w ops pid) = set_key slot"
  "sem_values (set_after_ops now slot w ops pid) = w"
  by (simp_all add: set_after_ops_def)

lemma has_semI:
  "store_inv store \<Longrightarrow> find_set store semid = Some k \<Longrightarrow> n < unat (nsems (sets store ! k)) \<Longrightarrow>
   has_sem store semid (word_of_nat n) \<and> n < 65536"
proof -
  assume inv: "store_inv store" and find: "find_set store semid = Some k"
    and n: "n < unat (nsems (sets store ! k))"
  have "unat (nsems (sets store ! k)) \<le> 512" using find_set_ok [OF inv find] by (simp add: set_ok_def)
  with n have "n < 512" by simp
  moreover then have "unat (word_of_nat n :: u16) = n" by (simp add: unat_of_nat)
  ultimately show ?thesis using find n by (simp add: has_sem_def word_less_nat_alt)
qed

lemma tryop_success:
  assumes inv: "store_inv store" and i32: "in_i32 pid" "in_i32 semid" and find: "find_set store semid = Some k"
    and valid: "valid_ops (nsems (sets store ! k)) ops"
    and work: "apply_operations (sem_values (sets store ! k)) ops = Working w"
    and v: "undo_verdict store (nsems (sets store ! k)) semid pid ops = 0"
  shows "\<exists>es. tgc_sem_store_tryop_detail now store semid ops pid wr =
      (0, store\<lparr>sets := (sets store)[k := set_after_ops now (sets store ! k) w ops pid], undo_entries := es\<rparr>, wr) \<and>
    store_inv (store\<lparr>sets := (sets store)[k := set_mid_ops (sets store ! k) w ops pid], undo_entries := es\<rparr>) \<and>
    (\<forall>p s m. undo_adj es (p, s, m) = undo_adj (undo_entries store) (p, s, m) +
       (if p = pid \<and> s = semid then undo_sum ops (unat m) else 0))"
proof -
  let ?s = "sets store ! k" let ?ns = "[0..<unat (nsems ?s)]" let ?ds = "undo_deltas_of ops"
  define store1 where "store1 = store\<lparr>sets := (sets store)[k := set_mid_ops ?s w ops pid]\<rparr>"
  note ok = find_set_ok [OF inv find]
  have k: "k < length (sets store)" using inv find_set_SomeD(1) [OF find] by (simp add: store_inv_def)
  have n512: "unat (nsems ?s) \<le> 512" using ok by (simp add: set_ok_def)
  have "store_inv store1"
    unfolding store1_def using inv find
    by (rule store_inv_update)
      (use ok set_after_ops_ok(1) [OF _ _ valid work i32(1)] in \<open>simp_all add: set_mid_ops_def\<close>)
  have find1: "find_set store1 semid = Some k"
    using find find_set_write_same [OF k] by (simp add: store1_def)
  have ge: "\<not> undo_overflow (replicate 512 0) ops"
    "totals_in_range (undo_entries store) pid semid ?ds ?ns"
    "new_slots (undo_entries store) pid semid ?ds ?ns \<le> free_slots store"
    using v by (auto simp: undo_verdict_def split: if_splits)
  have "\<exists>es. commit_undo store1 pid semid ?ds ?ns = (True, store1\<lparr>undo_entries := es\<rparr>) \<and>
    undo_committed store1 pid semid ?ds ?ns es"
  proof (rule commit_undo_spec)
    show "undo_table_ok store1" using \<open>store_inv store1\<close> by (rule undo_table_ok_inv)
    show "\<forall>n\<in>set ?ns. n < 65536 \<and> has_sem store1 semid (word_of_nat n)"
      using has_semI [OF \<open>store_inv store1\<close> find1] k by (simp add: store1_def)
  qed (use ge i32 in \<open>simp_all add: store1_def\<close>)
  then obtain es where es: "commit_undo store1 pid semid ?ds ?ns = (True, store1\<lparr>undo_entries := es\<rparr>)"
    "undo_committed store1 pid semid ?ds ?ns es" by blast
  have zero: "undo_sum ops n = 0" if "\<not> n < unat (nsems ?s)" for n
  proof -
    have "unat (sem_num operation) \<noteq> n" if "operation \<in> set ops" for operation
      using valid that \<open>\<not> n < unat (nsems ?s)\<close> by (auto simp: valid_ops_def word_less_nat_alt)
    then show ?thesis by (induction ops) auto
  qed
  have "undo_adj es (p, s, m) = undo_adj (undo_entries store) (p, s, m) +
       (if p = pid \<and> s = semid then undo_sum ops (unat m) else 0)" for p s m
    using es(2) zero [of "unat m"] n512 by (auto simp: undo_committed_def store1_def undo_deltas_of_def)
  moreover have "store_inv (store1\<lparr>undo_entries := es\<rparr>)"
    using \<open>store_inv store1\<close> es(2) by (intro store_inv_table) (simp_all add: undo_committed_def)
  moreover have "tgc_sem_store_tryop_detail now store semid ops pid wr =
      (0, store1\<lparr>undo_entries := es, sets := (sets store1)[k := set_after_ops now ?s w ops pid]\<rparr>, wr)"
  proof -
    note u = undo_checks [OF inv find valid]
    have ne: "ops \<noteq> []" using valid by (simp add: valid_ops_def)
    show ?thesis
      unfolding tgc_sem_store_tryop_detail_def find option.case Let_def valid_ops_list_ex work
        working_result.case u(1)
      using ge es(1) k
      by (simp add: ne valid u(2) not_less store1_def set_mid_ops_def [symmetric])
  qed
  ultimately show ?thesis by (intro exI [of _ es]) (simp add: store1_def)
qed


text \<open>Every request either leaves the store alone or succeeds as \<open>tryop_success\<close> describes.\<close>

lemma tryop_cases:
  assumes inv: "store_inv store" and i32: "in_i32 pid" "in_i32 semid"
  obtains (fails) r wr' where "tgc_sem_store_tryop_detail now store semid ops pid wr = (r, store, wr')" "r \<noteq> 0"
  | (succeeds) k w es where "find_set store semid = Some k" "valid_ops (nsems (sets store ! k)) ops"
      "apply_operations (sem_values (sets store ! k)) ops = Working w"
      "tgc_sem_store_tryop_detail now store semid ops pid wr =
        (0, store\<lparr>sets := (sets store)[k := set_after_ops now (sets store ! k) w ops pid], undo_entries := es\<rparr>, wr)"
      "store_inv (store\<lparr>sets := (sets store)[k := set_mid_ops (sets store ! k) w ops pid], undo_entries := es\<rparr>)"
      "\<And>p s m. undo_adj es (p, s, m) = undo_adj (undo_entries store) (p, s, m) +
         (if p = pid \<and> s = semid then undo_sum ops (unat m) else 0)"
proof (cases "find_set store semid")
  case None
  then show ?thesis using fails tryop_invalid(1) by fastforce
next
  case (Some k)
  show ?thesis
  proof (cases "valid_ops (nsems (sets store ! k)) ops")
    case False
    with Some show ?thesis using fails tryop_invalid(2) by fastforce
  next
    case valid: True
    show ?thesis
    proof (cases "apply_operations (sem_values (sets store ! k)) ops")
      case (Working w)
      show ?thesis
      proof (cases "undo_verdict store (nsems (sets store ! k)) semid pid ops = 0")
        case True
        from tryop_success [OF inv i32 Some valid Working True] show ?thesis
          using succeeds [OF Some valid Working] by blast
      next
        case False
        from tryop_refused [OF inv Some valid Working False] False show ?thesis by (rule fails)
      qed
    next
      case OutOfRange
      show ?thesis by (rule fails [OF tryop_not_working(1) [OF Some valid OutOfRange]]) simp
    next
      case (Blocked operation)
      show ?thesis by (rule fails [OF tryop_not_working(2) [OF Some valid Blocked]]) simp
    qed
  qed
qed

lemma inv_tryop_detail:
  assumes inv: "store_inv store" and i32: "in_i32 pid" "in_i32 semid" and clock: "clock_ok now"
  shows "store_inv (fst (snd (tgc_sem_store_tryop_detail now store semid ops pid wr)))"
  using inv i32
proof (cases rule: tryop_cases [where now = now and ops = ops and wr = wr])
  case fails
  with inv show ?thesis by simp
next
  case (succeeds k w es)
  let ?s1 = "store\<lparr>sets := (sets store)[k := set_mid_ops (sets store ! k) w ops pid], undo_entries := es\<rparr>"
  have k: "k < length (sets store)" using inv find_set_SomeD(1) [OF succeeds(1)] by (simp add: store_inv_def)
  have "find_set ?s1 semid = find_set (store\<lparr>sets := (sets store)[k := set_mid_ops (sets store ! k) w ops pid]\<rparr>) semid"
    by (rule find_set_cong) simp
  then have find: "find_set ?s1 semid = Some k" using find_set_write_same [OF k] succeeds(1) by simp
  have "store_inv (?s1\<lparr>sets := (sets ?s1)[k := set_after_ops now (sets store ! k) w ops pid]\<rparr>)"
  proof (rule store_inv_update [OF succeeds(5) find])
    have "set_ok (set_mid_ops (sets store ! k) w ops pid)"
      using nth_set_ok [OF succeeds(5), of k] k inv by (simp add: store_inv_def)
    then show "set_ok (set_after_ops now (sets store ! k) w ops pid)"
      using find_set_SomeD(2) [OF succeeds(1)] clock
      by (simp add: set_ok_def set_mid_ops_def set_after_ops_def clock_ok_def)
  qed (use find_set_SomeD(2) [OF succeeds(1)] k in simp_all)
  with succeeds(4) show ?thesis by (simp add: store_update_comm)
qed

end
