(* ===== verification/SemSpec.thy ===== *)
theory SemSpec
  imports SemOp
begin

text \<open>
  The System V contract of the semaphore store. The abstract state maps each live identifier to
  the list of its values and each process, identifier and semaphore to the pending undo
  adjustment; slots, generations and table positions are gone. Each mutating operation of
  \<open>src/sem_store.c\<close> is shown to commute with the abstraction \<open>sv_of\<close>.
\<close>

unbundle bit_operations_syntax

record sysv =
  sv_values :: "int \<Rightarrow> int list option"
  sv_undo :: "int \<times> int \<times> u16 \<Rightarrow> int"

definition sv_of :: "tgc_sem_store \<Rightarrow> sysv" where
  "sv_of store =
     \<lparr>sv_values = (\<lambda>semid. if in_i32 semid
        then map_option (\<lambda>k. map uint (sem_values (sets store ! k))) (find_set store semid) else None),
      sv_undo = undo_adj (undo_entries store)\<rparr>"

definition sv_remove :: "sysv \<Rightarrow> int \<Rightarrow> int \<times> sysv" where
  "sv_remove st semid =
     (case sv_values st semid of
        None \<Rightarrow> (err EINVAL, st)
      | Some vals \<Rightarrow> (0, \<lparr>sv_values = (sv_values st)(semid := None),
          sv_undo = (\<lambda>(p, s, n). if s = semid then 0 else sv_undo st (p, s, n))\<rparr>))"

definition sv_getval :: "sysv \<Rightarrow> int \<Rightarrow> nat \<Rightarrow> int" where
  "sv_getval st semid n =
     (case sv_values st semid of
        None \<Rightarrow> err EINVAL
      | Some vals \<Rightarrow> if n < length vals then vals ! n else err EINVAL)"

definition sv_setval :: "sysv \<Rightarrow> int \<Rightarrow> nat \<Rightarrow> int \<Rightarrow> int \<times> sysv" where
  "sv_setval st semid n v =
     (case sv_values st semid of
        None \<Rightarrow> (err EINVAL, st)
      | Some vals \<Rightarrow>
          if length vals \<le> n then (err EINVAL, st)
          else if 32767 < v then (err ERANGE, st)
          else (0, \<lparr>sv_values = (sv_values st)(semid := Some (vals[n := v])),
            sv_undo = (\<lambda>(p, s, m). if s = semid \<and> unat m = n then 0 else sv_undo st (p, s, m))\<rparr>))"

definition sv_setall :: "sysv \<Rightarrow> int \<Rightarrow> int list \<Rightarrow> int \<times> sysv" where
  "sv_setall st semid new =
     (case sv_values st semid of
        None \<Rightarrow> (err EINVAL, st)
      | Some vals \<Rightarrow>
          if length new \<noteq> length vals then (err EINVAL, st)
          else if list_ex (\<lambda>v. 32767 < v) new then (err ERANGE, st)
          else (0, \<lparr>sv_values = (sv_values st)(semid := Some new),
            sv_undo = (\<lambda>(p, s, m). if s = semid then 0 else sv_undo st (p, s, m))\<rparr>))"

definition sv_exit :: "sysv \<Rightarrow> int \<Rightarrow> sysv" where
  "sv_exit st pid =
     \<lparr>sv_values = (\<lambda>semid. map_option (\<lambda>vals.
        map (\<lambda>n. clamp_value (vals ! n + sv_undo st (pid, semid, word_of_nat n))) [0..<length vals]) (sv_values st semid)),
      sv_undo = (\<lambda>(p, s, m). if p = pid then 0 else sv_undo st (p, s, m))\<rparr>"

subsection \<open>Observing a store\<close>

lemma sv_of_values_Some:
  "sv_values (sv_of store) semid = Some vals \<longleftrightarrow>
     in_i32 semid \<and> (\<exists>k. find_set store semid = Some k \<and> vals = map uint (sem_values (sets store ! k)))"
  by (auto simp: sv_of_def)

lemma sv_of_find:
  "in_i32 semid \<Longrightarrow> sv_values (sv_of store) semid =
     (case find_set store semid of None \<Rightarrow> None | Some k \<Rightarrow> Some (map uint (sem_values (sets store ! k))))"
  by (simp add: sv_of_def split: option.splits)

lemma sv_of_undo: "sv_undo (sv_of store) = undo_adj (undo_entries store)"
  by (simp add: sv_of_def)

lemma sv_values_undo [simp]: "sv_values (sv_of (store\<lparr>undo_entries := es\<rparr>)) = sv_values (sv_of store)"
  by (auto simp: sv_of_def option.map_comp fun_eq_iff split: option.splits)

lemma sysv_eqI: "sv_values a = sv_values b \<Longrightarrow> sv_undo a = sv_undo b \<Longrightarrow> a = (b::sysv)"
  by simp

lemma length_values:
  "store_inv store \<Longrightarrow> find_set store semid = Some k \<Longrightarrow> length (sem_values (sets store ! k)) = unat (nsems (sets store ! k))"
  using find_set_ok by (fastforce simp: set_ok_def)

lemma sv_write:
  assumes inv: "store_inv store" and find: "find_set store semid = Some k" "in_i32 semid"
    and same: "set_active x" "generation x = generation (sets store ! k)"
  shows "sv_values (sv_of (store\<lparr>sets := (sets store)[k := x]\<rparr>)) =
    (sv_values (sv_of store))(semid := Some (map uint (sem_values x)))"
proof
  fix s
  have k: "k < length (sets store)" using inv find_set_SomeD(1) [OF find(1)] by (simp add: store_inv_def)
  have f: "find_set (store\<lparr>sets := (sets store)[k := x]\<rparr>) s = find_set store s"
    using find_set_SomeD(2) [OF find(1)] same by (intro find_set_write_same [OF k]) simp_all
  show "sv_values (sv_of (store\<lparr>sets := (sets store)[k := x]\<rparr>)) s =
    ((sv_values (sv_of store))(semid := Some (map uint (sem_values x)))) s"
  proof (cases "s = semid")
    case True
    with find f k show ?thesis by (simp add: sv_of_def)
  next
    case False
    show ?thesis
    proof (cases "in_i32 s \<and> find_set store s \<noteq> None")
      case True
      then obtain j where j: "find_set store s = Some j" by auto
      with True False find find_set_inj have "j \<noteq> k" by blast
      with False j f True show ?thesis by (simp add: sv_of_def)
    next
      case no: False
      then show ?thesis using f False by (auto simp: sv_of_def)
    qed
  qed
qed

lemma undo_adj_clear:
  "undo_adj (map (clear_entry semid n b) es) (p, s, m) =
     (if s = semid \<and> (b \<or> unat m = n) then 0 else undo_adj es (p, s, m))"
proof (cases "s = semid \<and> (b \<or> unat m = n)")
  case True
  then have "undo_adj (map (clear_entry semid n b) es) (p, s, m) = 0"
    by (intro undo_adj_zeroI) (auto simp: undo_key_def)
  with True show ?thesis by simp
next
  case False
  have "find_index (\<lambda>e. undo_active e \<and> undo_key e = (p, s, m)) (map (clear_entry semid n b) es) =
      find_index (\<lambda>e. undo_active e \<and> undo_key e = (p, s, m)) es"
    unfolding find_index_map using False by (intro find_index_cong) (auto simp: undo_key_def)
  with False show ?thesis
    by (auto simp: undo_adj_def split: option.splits dest: find_index_SomeD(1))
qed

subsection \<open>The operations refine their specification\<close>

lemma sv_undo_clear:
  "sv_undo (sv_of (clear_undo_entries store semid n b)) =
     (\<lambda>(p, s, m). if s = semid \<and> (b \<or> unat m = n) then 0 else sv_undo (sv_of store) (p, s, m))"
  by (simp add: sv_of_undo clear_undo_entries_def undo_adj_clear fun_eq_iff)

lemma sv_undo_sets: "sv_undo (sv_of (store\<lparr>sets := ss\<rparr>)) = sv_undo (sv_of store)"
  by (simp add: sv_of_undo)

lemma sv_values_clear: "sv_values (sv_of (clear_undo_entries store semid n b)) = sv_values (sv_of store)"
  by (simp add: clear_undo_entries_def)

lemma refine_getval:
  assumes "store_inv store" "in_i32 semid"
  shows "tgc_sem_store_getval store semid n = sv_getval (sv_of store) semid n"
proof (cases "find_set store semid")
  case (Some k)
  with length_values [OF assms(1) Some] assms(2) show ?thesis
    by (simp add: tgc_sem_store_getval_def sv_getval_def sv_of_find)
qed (use assms(2) in \<open>simp add: tgc_sem_store_getval_def sv_getval_def sv_of_find\<close>)

lemma refine_setval:
  assumes inv: "store_inv store" and i32: "in_i32 semid"
  shows "map_prod id sv_of (tgc_sem_store_setval now store semid n v pid) =
    sv_setval (sv_of store) semid n (uint v)"
proof (cases "find_set store semid")
  case None
  then show ?thesis using i32 by (simp add: tgc_sem_store_setval_def sv_setval_def sv_of_find)
next
  case (Some k)
  let ?s = "clear_undo_entries store semid n False"
  let ?x = "(sets store ! k)\<lparr>sem_values := (sem_values (sets store ! k))[n := ucast v],
    last_pids := (last_pids (sets store ! k))[n := pid], set_ctime := current_time_seconds now\<rparr>"
  have len: "length (sem_values (sets store ! k)) = unat (nsems (sets store ! k))"
    using inv Some by (rule length_values)
  have v: "32767 < v \<longleftrightarrow> 32767 < uint v" by (simp add: word_less_def)
  have "sv_of (?s\<lparr>sets := (sets ?s)[k := ?x]\<rparr>) =
    \<lparr>sv_values = (sv_values (sv_of store))(semid := Some ((map uint (sem_values (sets store ! k)))[n := uint v])),
     sv_undo = (\<lambda>(p, s, m). if s = semid \<and> unat m = n then 0 else sv_undo (sv_of store) (p, s, m))\<rparr>"
    if "\<not> 32767 < v"
  proof (rule sysv_eqI)
    have "uint (ucast v :: u16) = uint v"
      using that unfolding v by (simp add: unsigned_ucast_eq take_bit_int_eq_self)
    moreover have "sv_values (sv_of (?s\<lparr>sets := (sets ?s)[k := ?x]\<rparr>)) =
        (sv_values (sv_of ?s))(semid := Some (map uint (sem_values ?x)))"
      using store_inv_clear [OF inv] Some i32 find_set_SomeD(2) [OF Some] by (intro sv_write) simp_all
    ultimately show "sv_values (sv_of (?s\<lparr>sets := (sets ?s)[k := ?x]\<rparr>)) =
        sv_values \<lparr>sv_values = (sv_values (sv_of store))(semid := Some ((map uint (sem_values (sets store ! k)))[n := uint v])),
     sv_undo = (\<lambda>(p, s, m). if s = semid \<and> unat m = n then 0 else sv_undo (sv_of store) (p, s, m))\<rparr>"
      by (simp add: sv_values_clear map_update)
  qed (simp add: sv_undo_sets sv_undo_clear)
  then show ?thesis
    using Some i32 len
    by (simp add: tgc_sem_store_setval_def sv_setval_def sv_of_find Let_def v)
qed

lemma refine_setall:
  assumes inv: "store_inv store" and i32: "in_i32 semid" and n: "n = length vals"
  shows "map_prod id sv_of (tgc_sem_store_setall now store semid vals n pid) =
    sv_setall (sv_of store) semid (map uint vals)"
proof (cases "find_set store semid")
  case None
  then show ?thesis using i32 by (simp add: tgc_sem_store_setall_def sv_setall_def sv_of_find)
next
  case (Some k)
  let ?s = "clear_undo_entries store semid 0 True"
  let ?x = "(sets store ! k)\<lparr>sem_values := take n vals @ drop n (sem_values (sets store ! k)),
    last_pids := foldl (\<lambda>pids k. pids[k := pid]) (last_pids (sets store ! k)) [0..<n],
    set_ctime := current_time_seconds now\<rparr>"
  have len: "length (sem_values (sets store ! k)) = unat (nsems (sets store ! k))"
    using inv Some by (rule length_values)
  have v: "list_ex (\<lambda>k. 32767 < vals ! k) [0..<n] \<longleftrightarrow> list_ex (\<lambda>v. 32767 < v) (map uint vals)"
    using n by (auto simp: list_ex_length word_less_def)
  have "sv_of (?s\<lparr>sets := (sets ?s)[k := ?x]\<rparr>) =
    \<lparr>sv_values = (sv_values (sv_of store))(semid := Some (map uint vals)),
     sv_undo = (\<lambda>(p, s, m). if s = semid then 0 else sv_undo (sv_of store) (p, s, m))\<rparr>"
    if "n = unat (nsems (sets store ! k))"
  proof (rule sysv_eqI)
    have "sv_values (sv_of (?s\<lparr>sets := (sets ?s)[k := ?x]\<rparr>)) =
        (sv_values (sv_of ?s))(semid := Some (map uint (sem_values ?x)))"
      using store_inv_clear [OF inv] Some i32 find_set_SomeD(2) [OF Some] by (intro sv_write) simp_all
    then show "sv_values (sv_of (?s\<lparr>sets := (sets ?s)[k := ?x]\<rparr>)) =
        sv_values \<lparr>sv_values = (sv_values (sv_of store))(semid := Some (map uint vals)),
     sv_undo = (\<lambda>(p, s, m). if s = semid then 0 else sv_undo (sv_of store) (p, s, m))\<rparr>"
      using that n len by (simp add: sv_values_clear)
  qed (simp add: sv_undo_sets sv_undo_clear)
  then show ?thesis
    unfolding tgc_sem_store_setall_def Some option.case Let_def v
    using Some i32 len n by (simp add: sv_setall_def sv_of_find)
qed

lemma refine_remove:
  assumes inv: "store_inv store" and i32: "in_i32 semid"
  shows "map_prod id sv_of (tgc_sem_store_remove store semid) = sv_remove (sv_of store) semid"
proof (cases "find_set store semid")
  case None
  then show ?thesis using i32 by (simp add: tgc_sem_store_remove_def sv_remove_def sv_of_find)
next
  case (Some k)
  let ?s = "clear_undo_entries store semid 0 True"
  let ?x = "zero_set\<lparr>generation := next_generation (generation (sets store ! k))\<rparr>"
  have k: "k < length (sets store)" using inv find_set_SomeD(1) [OF Some] by (simp add: store_inv_def)
  have "sv_of (?s\<lparr>sets := (sets ?s)[k := ?x]\<rparr>) =
    \<lparr>sv_values = (sv_values (sv_of store))(semid := None),
     sv_undo = (\<lambda>(p, s, m). if s = semid then 0 else sv_undo (sv_of store) (p, s, m))\<rparr>"
  proof (rule sysv_eqI)
    have "sv_values (sv_of (?s\<lparr>sets := (sets ?s)[k := ?x]\<rparr>)) s = ((sv_values (sv_of store))(semid := None)) s" for s
    proof (cases "in_i32 s \<and> s \<noteq> semid \<and> find_set store s \<noteq> None")
      case True
      then obtain j where j: "find_set ?s s = Some j" by auto
      with True Some i32 find_set_inj have "j \<noteq> k" by fastforce
      with find_set_write_other [OF j, of k ?x] j True show ?thesis by (simp add: sv_of_def)
    next
      case False
      have "find_set (?s\<lparr>sets := (sets ?s)[k := ?x]\<rparr>) s = None" if "in_i32 s"
      proof (rule ccontr)
        assume "find_set (?s\<lparr>sets := (sets ?s)[k := ?x]\<rparr>) s \<noteq> None"
        then obtain j where j: "find_set (?s\<lparr>sets := (sets ?s)[k := ?x]\<rparr>) s = Some j" by auto
        then have "j \<noteq> k" using find_set_SomeD(2) [OF j] k by (auto simp: zero_set_def)
        with j have "find_set store s = Some j" by (simp add: find_set_Some)
        with False that Some \<open>j \<noteq> k\<close> show False by auto
      qed
      with False show ?thesis by (auto simp: sv_of_def)
    qed
    then show "sv_values (sv_of (?s\<lparr>sets := (sets ?s)[k := ?x]\<rparr>)) =
      sv_values \<lparr>sv_values = (sv_values (sv_of store))(semid := None),
     sv_undo = (\<lambda>(p, s, m). if s = semid then 0 else sv_undo (sv_of store) (p, s, m))\<rparr>" by auto
  qed (simp add: sv_undo_sets sv_undo_clear)
  with Some i32 show ?thesis
    by (simp add: tgc_sem_store_remove_def sv_remove_def sv_of_find Let_def)
qed

subsection \<open>\<open>semop\<close>\<close>

definition sv_semop :: "sysv \<Rightarrow> int \<Rightarrow> tgc_sem_op list \<Rightarrow> int \<Rightarrow> int \<times> sysv" where
  "sv_semop st semid ops pid =
     (case sv_values st semid of
        None \<Rightarrow> (err EINVAL, st)
      | Some vals \<Rightarrow>
          if \<not> valid_ops (word_of_nat (length vals)) ops then (err EINVAL, st)
          else
            (case sv_apply vals ops of
               SvRange \<Rightarrow> (err ERANGE, st)
             | SvWait operation \<Rightarrow> (if sem_flg operation AND 2048 \<noteq> 0 then err EAGAIN else 1, st)
             | SvDone vals' \<Rightarrow>
                 if (\<exists>i\<le>length ops. \<exists>n<length vals. \<not> undo_in_range (undo_sum (take i ops) n)) \<or>
                    (\<exists>n<length vals. \<not> undo_in_range (sv_undo st (pid, semid, word_of_nat n) + undo_sum ops n))
                 then (err ERANGE, st)
                 else if 4096 < card {key. sv_undo st key \<noteq> 0} +
                    card {n. n < length vals \<and> undo_sum ops n \<noteq> 0 \<and> sv_undo st (pid, semid, word_of_nat n) = 0}
                 then (err ENOSPC, st)
                 else (0, \<lparr>sv_values = (sv_values st)(semid := Some vals'),
                   sv_undo = (\<lambda>(p, s, m). sv_undo st (p, s, m) +
                     (if p = pid \<and> s = semid then undo_sum ops (unat m) else 0))\<rparr>)))"

lemma pending_slots:
  assumes "undo_table_ok store"
  shows "free_slots store + card {key. undo_adj (undo_entries store) key \<noteq> 0} = 4096"
proof -
  let ?es = "undo_entries store"
  let ?I = "{i. i < length ?es \<and> undo_active (?es ! i)}"
  have dist: "undo_distinct ?es" and len: "length ?es = 4096"
    using assms by (simp_all add: undo_table_ok_def)
  have "{key. undo_adj ?es key \<noteq> 0} = (\<lambda>i. undo_key (?es ! i)) ` ?I"
  proof (intro set_eqI iffI)
    fix key assume "key \<in> {key. undo_adj ?es key \<noteq> 0}"
    then obtain i where "find_index (\<lambda>e. undo_active e \<and> undo_key e = key) ?es = Some i"
      by (auto simp: undo_adj_def split: option.splits)
    from find_index_SomeD(1,2) [OF this] show "key \<in> (\<lambda>i. undo_key (?es ! i)) ` ?I" by blast
  next
    fix key assume "key \<in> (\<lambda>i. undo_key (?es ! i)) ` ?I"
    then obtain i where i: "i < length ?es" "undo_active (?es ! i)" "undo_key (?es ! i) = key" by blast
    have "adjustment (?es ! i) \<noteq> 0"
      using undo_table_nonzero [OF assms] i nth_mem by (auto simp: undo_nonzero_def)
    with undo_adj_eqI [OF dist i] show "key \<in> {key. undo_adj ?es key \<noteq> 0}" by simp
  qed
  moreover have "inj_on (\<lambda>i. undo_key (?es ! i)) ?I"
    using dist by (auto simp: inj_on_def undo_distinct_def)
  ultimately have "card {key. undo_adj ?es key \<noteq> 0} = card ?I" by (simp add: card_image)
  also have "\<dots> = count_slots undo_active ?es"
    by (simp add: count_slots_def length_filter_conv_card)
  finally show ?thesis
    using sum_length_filter_compl [of undo_active ?es] len by (simp add: count_slots_def)
qed

lemma new_slots_card:
  assumes "N \<le> 512"
  shows "new_slots es pid semid (undo_deltas_of ops) [0..<N] =
    card {n. n < N \<and> undo_sum ops n \<noteq> 0 \<and> undo_adj es (pid, semid, word_of_nat n) = 0}"
proof -
  have "new_slots es pid semid (undo_deltas_of ops) [0..<N] =
      card {n. n < N \<and> undo_deltas_of ops ! n \<noteq> 0 \<and> undo_adj es (pid, semid, word_of_nat n) = 0}"
    unfolding new_slots_def length_filter_conv_card by (rule arg_cong [where f = card]) auto
  also have "\<dots> = card {n. n < N \<and> undo_sum ops n \<noteq> 0 \<and> undo_adj es (pid, semid, word_of_nat n) = 0}"
    using assms by (intro arg_cong [where f = card]) (auto simp: undo_deltas_of_def)
  finally show ?thesis .
qed

lemma undo_adj_in_range:
  assumes "undo_table_ok store"
  shows "undo_in_range (undo_adj (undo_entries store) key)"
proof (cases "find_index (\<lambda>e. undo_active e \<and> undo_key e = key) (undo_entries store)")
  case (Some i)
  from find_index_SomeD(1,2) [OF Some] have "undo_active (undo_entries store ! i)"
    "undo_ok store (undo_entries store ! i)" using assms by (simp_all add: undo_table_ok_def)
  with Some show ?thesis by (simp add: undo_adj_def undo_ok_def)
qed (simp add: undo_adj_def undo_in_range_def)

lemma totals_in_range_iff:
  assumes "undo_table_ok store" "N \<le> 512"
  shows "totals_in_range (undo_entries store) pid semid (undo_deltas_of ops) [0..<N] \<longleftrightarrow>
    (\<forall>n<N. undo_in_range (undo_adj (undo_entries store) (pid, semid, word_of_nat n) + undo_sum ops n))"
proof -
  have d: "undo_deltas_of ops ! n = undo_sum ops n" if "n < N" for n
    using that assms(2) by (simp add: undo_deltas_of_def)
  have z: "undo_in_range (undo_adj (undo_entries store) (pid, semid, word_of_nat n) + undo_sum ops n)"
    if "undo_sum ops n = 0" for n using that undo_adj_in_range [OF assms(1)] by simp
  show ?thesis
    unfolding totals_in_range_def using d z by (metis atLeastLessThan_iff le0 set_upt)
qed

lemma undo_sum_out:
  assumes "\<forall>operation\<in>set ops. unat (sem_num operation) < N" "N \<le> n"
  shows "undo_sum ops n = 0"
  using assms by (induction ops) auto

lemma undo_overflow_iff:
  assumes "\<forall>operation\<in>set ops. unat (sem_num operation) < N" "N \<le> 512"
  shows "undo_overflow (replicate 512 0) ops \<longleftrightarrow>
    (\<exists>i\<le>length ops. \<exists>n<N. \<not> undo_in_range (undo_sum (take i ops) n))"
proof -
  have "undo_sum (take i ops) n = 0" if "N \<le> n" for i n
    using assms(1) that by (intro undo_sum_out [of _ N]) (auto dest: in_set_takeD)
  then have lt: "n < N" if "\<not> undo_in_range (undo_sum (take i ops) n)" for i n
    using that by (cases "N \<le> n") (simp_all add: undo_in_range_def)
  have "(\<exists>n<512. \<not> undo_in_range (undo_sum (take i ops) n)) \<longleftrightarrow>
      (\<exists>n<N. \<not> undo_in_range (undo_sum (take i ops) n))" for i
    using lt [of i] assms(2) by (meson less_le_trans)
  moreover have "undo_overflow (replicate 512 0) ops \<longleftrightarrow>
      (\<exists>i\<le>length ops. \<exists>n<512. \<not> undo_in_range (undo_sum (take i ops) n))"
    unfolding undo_overflow_def by (simp cong: conj_cong)
  ultimately show ?thesis by simp
qed

lemma undo_verdict_sv:
  assumes inv: "store_inv store" and find: "find_set store semid = Some k"
    and valid: "valid_ops (nsems (sets store ! k)) ops" and N: "N = unat (nsems (sets store ! k))"
  shows "undo_verdict store (nsems (sets store ! k)) semid pid ops =
    (if (\<exists>i\<le>length ops. \<exists>n<N. \<not> undo_in_range (undo_sum (take i ops) n)) \<or>
        (\<exists>n<N. \<not> undo_in_range (undo_adj (undo_entries store) (pid, semid, word_of_nat n) + undo_sum ops n))
     then err ERANGE
     else if 4096 < card {key. undo_adj (undo_entries store) key \<noteq> 0} +
        card {n. n < N \<and> undo_sum ops n \<noteq> 0 \<and> undo_adj (undo_entries store) (pid, semid, word_of_nat n) = 0}
     then err ENOSPC else 0)"
proof -
  note table = undo_table_ok_inv [OF inv]
  have N512: "N \<le> 512" using find_set_ok [OF inv find] N by (simp add: set_ok_def)
  have "\<forall>operation\<in>set ops. unat (sem_num operation) < N"
    using valid N by (simp add: valid_ops_def word_less_nat_alt)
  note over = undo_overflow_iff [OF this N512]
  have "free_slots store < m \<longleftrightarrow> 4096 < card {key. undo_adj (undo_entries store) key \<noteq> 0} + m" for m
    using pending_slots [OF table] by linarith
  then show ?thesis
    unfolding undo_verdict_def over totals_in_range_iff [OF table N512] N [symmetric] new_slots_card [OF N512]
    by (simp only: not_all not_imp)
qed

lemma refine_semop:
  assumes inv: "store_inv store" and i32: "in_i32 pid" "in_i32 semid"
  shows "map_prod id sv_of (tgc_sem_store_tryop now store semid ops pid) = sv_semop (sv_of store) semid ops pid"
proof (cases "find_set store semid")
  case None
  then show ?thesis
    using i32 tryop_invalid(1) [OF None] by (simp add: tgc_sem_store_tryop_def sv_semop_def sv_of_find)
next
  case (Some k)
  let ?s = "sets store ! k"
  have len: "length (sem_values ?s) = unat (nsems ?s)" using inv Some by (rule length_values)
  have vals: "\<forall>v\<in>set (sem_values ?s). v \<le> 32767"
    using find_set_ok [OF inv Some] by (simp add: set_ok_def)
  have sv: "sv_values (sv_of store) semid = Some (map uint (sem_values ?s))"
    using Some i32 by (simp add: sv_of_find)
  show ?thesis
  proof (cases "valid_ops (nsems ?s) ops")
    case False
    then show ?thesis
      using tryop_invalid(2) [OF Some False] by (simp add: tgc_sem_store_tryop_def sv_semop_def sv len)
  next
    case valid: True
    have "\<forall>operation\<in>set ops. unat (sem_num operation) < length (sem_values ?s)"
      using valid len by (simp add: valid_ops_def word_less_nat_alt)
    note ap = apply_operations_sv [OF vals this]
    show ?thesis
    proof (cases "apply_operations (sem_values ?s) ops")
      case OutOfRange
      with ap valid tryop_not_working(1) [OF Some valid OutOfRange] show ?thesis
        by (simp add: tgc_sem_store_tryop_def sv_semop_def sv len)
    next
      case (Blocked operation)
      then have "sv_apply (map uint (sem_values ?s)) ops = SvWait operation" using ap by simp
      with valid tryop_not_working(2) [OF Some valid Blocked] show ?thesis
        by (simp add: tgc_sem_store_tryop_def sv_semop_def sv len)
    next
      case (Working w)
      note v = undo_verdict_sv [OF inv Some valid refl, of pid]
      have abs: "sv_semop (sv_of store) semid ops pid =
        (undo_verdict store (nsems ?s) semid pid ops,
         if undo_verdict store (nsems ?s) semid pid ops = 0
         then \<lparr>sv_values = (sv_values (sv_of store))(semid := Some (map uint w)),
           sv_undo = (\<lambda>(p, s, m). undo_adj (undo_entries store) (p, s, m) +
             (if p = pid \<and> s = semid then undo_sum ops (unat m) else 0))\<rparr>
         else sv_of store)"
        unfolding v sv_semop_def sv using ap [symmetric] valid by (simp add: Working len sv_of_undo)
      show ?thesis
      proof (cases "undo_verdict store (nsems ?s) semid pid ops = 0")
        case False
        with tryop_refused [OF inv Some valid Working False] abs show ?thesis
          by (simp add: tgc_sem_store_tryop_def)
      next
        case True
        from tryop_success [OF inv i32 Some valid Working True] obtain es where
          es: "tgc_sem_store_tryop_detail now store semid ops pid \<lparr>wr_sem_num = 0, wr_wait_for_zero = 0\<rparr> =
            (0, store\<lparr>sets := (sets store)[k := set_after_ops now ?s w ops pid], undo_entries := es\<rparr>,
             \<lparr>wr_sem_num = 0, wr_wait_for_zero = 0\<rparr>)"
          "\<And>p s m. undo_adj es (p, s, m) = undo_adj (undo_entries store) (p, s, m) +
             (if p = pid \<and> s = semid then undo_sum ops (unat m) else 0)" by blast
        have "sv_values (sv_of (store\<lparr>sets := (sets store)[k := set_after_ops now ?s w ops pid]\<rparr>)) =
            (sv_values (sv_of store))(semid := Some (map uint w))"
          using sv_write [OF inv Some i32(2), of "set_after_ops now ?s w ops pid"] find_set_SomeD(2) [OF Some] by simp
        then have "sv_of (store\<lparr>sets := (sets store)[k := set_after_ops now ?s w ops pid], undo_entries := es\<rparr>) =
          \<lparr>sv_values = (sv_values (sv_of store))(semid := Some (map uint w)),
           sv_undo = (\<lambda>(p, s, m). undo_adj (undo_entries store) (p, s, m) +
             (if p = pid \<and> s = semid then undo_sum ops (unat m) else 0))\<rparr>"
          by (intro sysv_eqI) (simp_all add: sv_of_undo es(2) fun_eq_iff)
        with es(1) abs True show ?thesis by (simp add: tgc_sem_store_tryop_def)
      qed
    qed
  qed
qed

subsection \<open>Process exit\<close>

lemma clamp_value_bounds [simp]: "0 \<le> clamp_value v" "clamp_value v \<le> 32767" "clamp_value v < 65536"
  by (simp_all add: clamp_value_def)

lemma clamp_value_id: "0 \<le> v \<Longrightarrow> v \<le> 32767 \<Longrightarrow> clamp_value v = v"
  by (simp add: clamp_value_def)

lemma exit_step_skip:
  "\<not> (undo_active (undo_entries store ! i) \<and> undo_pid (undo_entries store ! i) = pid) \<Longrightarrow>
   process_exit_step now pid i (store, c) = (store, c)"
  by (auto simp: process_exit_step_def Let_def)

lemma undo_deactivate_ok:
  assumes "undo_table_ok store" "i < 4096"
  shows "undo_table_ok (store\<lparr>undo_entries := (undo_entries store)[i := (undo_entries store ! i)\<lparr>undo_active := False\<rparr>]\<rparr>)"
proof -
  let ?es = "undo_entries store" let ?e = "(?es ! i)\<lparr>undo_active := False\<rparr>"
  have "\<forall>e\<in>set (?es[i := ?e]). undo_ok store e"
    using assms by (intro list_update_all) (simp_all add: undo_table_ok_def undo_ok_def)
  moreover have "undo_distinct (?es[i := ?e])"
    using assms by (auto simp: undo_table_ok_def undo_distinct_def nth_list_update split: if_splits)
  ultimately show ?thesis using assms by (simp add: undo_table_ok_def)
qed

lemma exit_step_apply:
  assumes inv: "store_inv store" and pid: "in_i32 pid" and clock: "clock_ok (now i)" and i: "i < 4096"
    and e: "e = undo_entries store ! i" "undo_active e" "undo_pid e = pid"
  obtains store' vals where "process_exit_step now pid i (store, c) = (store', 1)" "store_inv store'"
    "undo_entries store' = (undo_entries store)[i := e\<lparr>undo_active := False\<rparr>]"
    "sv_values (sv_of store) (undo_semid e) = Some vals" "unat (undo_semnum e) < length vals"
    "sv_values (sv_of store') = (sv_values (sv_of store))(undo_semid e :=
       Some (vals[unat (undo_semnum e) := clamp_value (vals ! unat (undo_semnum e) + adjustment e)]))"
proof -
  have "undo_ok store e" using inv i e(1) by (simp add: store_inv_def)
  with e(2) have sem: "has_sem store (undo_semid e) (undo_semnum e)" "in_i32 (undo_semid e)"
    by (simp_all add: undo_ok_def)
  then obtain k where find: "find_set store (undo_semid e) = Some k" "undo_semnum e < nsems (sets store ! k)"
    by (auto simp: has_sem_def split: option.splits)
  let ?s = "sets store ! k" let ?n = "unat (undo_semnum e)"
  let ?v = "clamp_value (uint (sem_values ?s ! ?n) + adjustment e)"
  define x where "x = ?s\<lparr>sem_values := (sem_values ?s)[?n := word_of_int ?v], last_pids := (last_pids ?s)[?n := pid],
    set_otime := current_time_seconds (now i)\<rparr>"
  define store1 where "store1 = store\<lparr>sets := (sets store)[k := x]\<rparr>"
  note ok = find_set_ok [OF inv find(1)]
  have n: "?n < length (sem_values ?s)"
    using length_values [OF inv find(1)] find(2) by (simp add: word_less_nat_alt)
  have u: "uint (word_of_int ?v :: u16) = ?v"
    by (intro uint_word_of_int_u16) simp_all
  have inv1: "store_inv store1"
    unfolding store1_def using inv find(1)
  proof (rule store_inv_update)
    have "(word_of_int ?v :: u16) \<le> 32767" unfolding uint_le_u16 u by simp
    then have "\<forall>v\<in>set (sem_values x). v \<le> 32767"
      unfolding x_def using ok by (simp add: set_ok_def) (intro list_update_all, simp_all)
    moreover have "\<forall>p\<in>set (last_pids x). in_i32 p"
      unfolding x_def using ok pid by (simp add: set_ok_def) (intro list_update_all, simp_all)
    ultimately show "set_ok x"
      unfolding x_def using ok clock by (simp add: set_ok_def clock_ok_def)
  qed (use ok in \<open>simp_all add: x_def\<close>)
  let ?store' = "store1\<lparr>undo_entries := (undo_entries store)[i := e\<lparr>undo_active := False\<rparr>]\<rparr>"
  have inv2: "store_inv ?store'"
    using store_inv_table [OF inv1] undo_deactivate_ok [OF undo_table_ok_inv [OF inv1] i] e(1)
    by (simp add: store1_def)
  have step: "process_exit_step now pid i (store, c) = (?store', 1)"
    using find e by (simp add: process_exit_step_def Let_def store1_def x_def)
  have "sv_values (sv_of store1) = (sv_values (sv_of store))(undo_semid e := Some (map uint (sem_values x)))"
    unfolding store1_def using inv find(1) sem(2) ok by (intro sv_write) (simp_all add: x_def)
  moreover have "map uint (sem_values x) = (map uint (sem_values ?s))[?n := clamp_value (map uint (sem_values ?s) ! ?n + adjustment e)]"
    using u n by (simp add: x_def map_update)
  ultimately have "sv_values (sv_of ?store') = (sv_values (sv_of store))(undo_semid e :=
       Some ((map uint (sem_values ?s))[?n := clamp_value (map uint (sem_values ?s) ! ?n + adjustment e)]))"
    by simp
  then show ?thesis
    using that [OF step inv2] find sem n by (simp add: sv_of_find)
qed

text \<open>Whether one of the listed slots holds the adjustment of a key.\<close>

definition undo_hits :: "tgc_undo_entry list \<Rightarrow> nat list \<Rightarrow> int \<times> int \<times> u16 \<Rightarrow> bool" where
  "undo_hits es slots key \<longleftrightarrow> (\<exists>i\<in>set slots. undo_active (es ! i) \<and> undo_key (es ! i) = key)"

definition exit_values :: "sysv \<Rightarrow> int \<Rightarrow> (int \<times> int \<times> u16 \<Rightarrow> bool) \<Rightarrow> int \<Rightarrow> int list option" where
  "exit_values st pid hit semid = map_option (\<lambda>vals.
     map (\<lambda>n. if hit (pid, semid, word_of_nat n)
              then clamp_value (vals ! n + sv_undo st (pid, semid, word_of_nat n)) else vals ! n)
       [0..<length vals]) (sv_values st semid)"

lemma undo_hits_Cons:
  "undo_hits es (i # slots) key \<longleftrightarrow> undo_active (es ! i) \<and> undo_key (es ! i) = key \<or> undo_hits es slots key"
  by (auto simp: undo_hits_def)

lemma undo_hits_other: "i \<notin> set slots \<Longrightarrow> undo_hits (es[i := e]) slots key = undo_hits es slots key"
  unfolding undo_hits_def by (metis nth_list_update_neq)

lemma exit_values_step:
  assumes vals: "sv_values st s0 = Some vals" "unat m0 < length vals" "length vals \<le> 65536"
    and st1: "sv_values st1 = (sv_values st)(s0 :=
      Some (vals[unat m0 := clamp_value (vals ! unat m0 + sv_undo st (pid, s0, m0))]))"
      "\<And>key. sv_undo st1 key = (if key = (pid, s0, m0) then 0 else sv_undo st key)"
    and hit: "\<not> hit (pid, s0, m0)" "\<And>key. hit' key \<longleftrightarrow> key = (pid, s0, m0) \<or> hit key"
  shows "exit_values st1 pid hit = exit_values st pid hit'"
proof
  fix s
  show "exit_values st1 pid hit s = exit_values st pid hit' s"
  proof (cases "s = s0")
    case False
    then show ?thesis by (simp add: exit_values_def st1 hit(2) cong: if_cong)
  next
    case True
    have "(word_of_nat n = m0) \<longleftrightarrow> n = unat m0" if "n < length vals" for n
      using that vals(3) by (auto simp: unat_of_nat)
    then show ?thesis
      using vals(1,2) hit(1) unfolding True
      by (auto simp: exit_values_def st1 hit(2) nth_list_update cong: if_cong)
  qed
qed

lemma exit_fold:
  assumes "store_inv store" "in_i32 pid" "\<forall>i. clock_ok (now i)" "distinct slots" "set slots \<subseteq> {..<4096}"
  shows "\<exists>store'. fold (process_exit_step now pid) slots (store, c) =
      (store', if \<exists>s n. undo_hits (undo_entries store) slots (pid, s, n) then 1 else c) \<and> store_inv store' \<and>
    sv_values (sv_of store') = exit_values (sv_of store) pid (undo_hits (undo_entries store) slots) \<and>
    (\<forall>p s n. sv_undo (sv_of store') (p, s, n) =
      (if p = pid \<and> undo_hits (undo_entries store) slots (p, s, n) then 0 else sv_undo (sv_of store) (p, s, n)))"
    (is "\<exists>store'. ?P slots store c store'")
  using assms
proof (induction slots arbitrary: store c)
  case Nil
  have none: "undo_hits (undo_entries store) [] = (\<lambda>key. False)"
    by (simp add: undo_hits_def fun_eq_iff)
  have "exit_values (sv_of store) pid (\<lambda>key. False) = sv_values (sv_of store)"
    by (simp add: exit_values_def map_nth fun_eq_iff option.map_ident)
  with Nil show ?case by (simp add: none)
next
  case (Cons i slots)
  let ?es = "undo_entries store" let ?e = "?es ! i"
  show ?case
  proof (cases "undo_active ?e \<and> undo_pid ?e = pid")
    case False
    then have "undo_hits ?es (i # slots) (pid, s, n) = undo_hits ?es slots (pid, s, n)" for s n
      by (auto simp: undo_hits_Cons undo_key_def)
    moreover from Cons obtain store' where "?P slots store c store'" by fastforce
    ultimately have "?P (i # slots) store c store'"
      using exit_step_skip [OF False, of now c] by (auto simp: exit_values_def)
    then show ?thesis ..
  next
    case True
    have i: "i < 4096" "i \<notin> set slots" using Cons.prems(4,5) by simp_all
    obtain store1 vals where s1: "process_exit_step now pid i (store, c) = (store1, 1)" "store_inv store1"
      "undo_entries store1 = ?es[i := ?e\<lparr>undo_active := False\<rparr>]"
      "sv_values (sv_of store) (undo_semid ?e) = Some vals" "unat (undo_semnum ?e) < length vals"
      "sv_values (sv_of store1) = (sv_values (sv_of store))(undo_semid ?e :=
         Some (vals[unat (undo_semnum ?e) := clamp_value (vals ! unat (undo_semnum ?e) + adjustment ?e)]))"
      using exit_step_apply [OF Cons.prems(1,2) _ i(1) refl, of now c] Cons.prems(3) True by blast
    obtain store' where IH: "?P slots store1 1 store'"
      using Cons.IH [OF s1(2) Cons.prems(2,3), of 1] Cons.prems(4,5) by auto
    let ?key = "(pid, undo_semid ?e, undo_semnum ?e)"
    have key: "undo_key ?e = ?key" using True by (simp add: undo_key_def)
    have dist: "undo_distinct ?es" "undo_distinct (undo_entries store1)" and len: "length ?es = 4096"
      using Cons.prems(1) s1(2) by (simp_all add: store_inv_def)
    have adj: "sv_undo (sv_of store) ?key = adjustment ?e"
      using undo_adj_eqI [OF dist(1), of i] True i len key by (simp add: sv_of_undo)
    have undo1: "sv_undo (sv_of store1) key = (if key = ?key then 0 else sv_undo (sv_of store) key)" for key
      using undo_adj_write [of ?es i "?e\<lparr>undo_active := False\<rparr>" key] dist s1(3) True i len key
      by (auto simp: sv_of_undo)
    have other: "undo_hits (undo_entries store1) slots = undo_hits ?es slots"
      using i(2) by (simp add: s1(3) undo_hits_other fun_eq_iff)
    have miss: "\<not> undo_hits ?es slots ?key"
      using dist(1) True key i Cons.prems(5) len by (auto simp: undo_hits_def undo_distinct_def)
    have hits: "undo_hits ?es (i # slots) k \<longleftrightarrow> k = ?key \<or> undo_hits ?es slots k" for k
      using True key by (auto simp: undo_hits_Cons)
    have "length vals \<le> 65536"
      using s1(4) length_values [OF Cons.prems(1)] find_set_ok [OF Cons.prems(1)]
      by (fastforce simp: sv_of_values_Some set_ok_def)
    then have vs: "exit_values (sv_of store1) pid (undo_hits ?es slots) =
        exit_values (sv_of store) pid (undo_hits ?es (i # slots))"
      using s1(4,5) s1(6) [folded adj] undo1 miss hits by (intro exit_values_step)
    have "sv_undo (sv_of store') (p, s, n) = (if p = pid \<and> undo_hits ?es (i # slots) (p, s, n) then 0
        else sv_undo (sv_of store) (p, s, n))" for p s n
      using IH miss undo1 [of "(p, s, n)"] hits [of "(p, s, n)"] unfolding other by auto
    moreover have "\<exists>s n. undo_hits ?es (i # slots) (pid, s, n)" using hits by blast
    ultimately show ?thesis
      using IH s1(1) vs by (intro exI [of _ store']) (simp add: other)
  qed
qed

lemma undo_hits_all:
  assumes "undo_table_ok store"
  shows "undo_hits (undo_entries store) [0..<length (undo_entries store)] key \<longleftrightarrow> undo_adj (undo_entries store) key \<noteq> 0"
  unfolding undo_adj_eq_0 [OF undo_table_nonzero [OF assms]] find_index_None undo_hits_def
  by (metis atLeastLessThan_iff in_set_conv_nth le0 set_upt)

lemma sv_values_bounds:
  assumes "store_inv store" "sv_values (sv_of store) semid = Some vals"
  shows "\<forall>v\<in>set vals. 0 \<le> v \<and> v \<le> 32767"
  using assms find_set_ok by (fastforce simp: sv_of_values_Some set_ok_def uint_le_u16)

lemma refine_process_exit:
  assumes inv: "store_inv store" and pid: "in_i32 pid" "0 < pid" and clock: "\<forall>i. clock_ok (now i)"
  shows "sv_of (snd (tgc_sem_store_process_exit now store pid)) = sv_exit (sv_of store) pid"
    "store_inv (snd (tgc_sem_store_process_exit now store pid))"
    "fst (tgc_sem_store_process_exit now store pid) =
      (if \<exists>s n. sv_undo (sv_of store) (pid, s, n) \<noteq> 0 then 1 else 0)"
proof -
  let ?es = "undo_entries store"
  have len: "length ?es = 4096" using inv by (simp add: store_inv_def)
  note hits = undo_hits_all [OF undo_table_ok_inv [OF inv]]
  obtain store' where s: "fold (process_exit_step now pid) [0..<length ?es] (store, 0) =
      (store', if \<exists>s n. undo_hits ?es [0..<length ?es] (pid, s, n) then 1 else 0)" "store_inv store'"
    "sv_values (sv_of store') = exit_values (sv_of store) pid (undo_hits ?es [0..<length ?es])"
    "\<And>p s n. sv_undo (sv_of store') (p, s, n) =
      (if p = pid \<and> undo_hits ?es [0..<length ?es] (p, s, n) then 0 else sv_undo (sv_of store) (p, s, n))"
    using exit_fold [OF inv pid(1) clock, of "[0..<length ?es]" 0] len by (auto simp: atLeast0LessThan)
  have run: "tgc_sem_store_process_exit now store pid =
      (if \<exists>s n. sv_undo (sv_of store) (pid, s, n) \<noteq> 0 then 1 else 0, store')"
    using pid(2) s(1) by (simp add: tgc_sem_store_process_exit_def hits sv_of_undo)
  have "exit_values (sv_of store) pid (undo_hits ?es [0..<length ?es]) semid = sv_values (sv_exit (sv_of store) pid) semid" for semid
  proof (cases "sv_values (sv_of store) semid")
    case (Some vals)
    then have "clamp_value (vals ! n) = vals ! n" if "n < length vals" for n
      using sv_values_bounds [OF inv Some] that by (intro clamp_value_id) simp_all
    with Some show ?thesis by (auto simp: exit_values_def sv_exit_def hits sv_of_undo)
  qed (simp add: exit_values_def sv_exit_def)
  then have "sv_of store' = sv_exit (sv_of store) pid"
    by (intro sysv_eqI) (auto simp: s(3) s(4) [unfolded sv_of_undo] hits sv_exit_def sv_of_undo fun_eq_iff)
  then show "sv_of (snd (tgc_sem_store_process_exit now store pid)) = sv_exit (sv_of store) pid"
    "store_inv (snd (tgc_sem_store_process_exit now store pid))"
    "fst (tgc_sem_store_process_exit now store pid) =
      (if \<exists>s n. sv_undo (sv_of store) (pid, s, n) \<noteq> 0 then 1 else 0)"
    using s(2) run by simp_all
qed

end
