(* ===== verification/SemCalls.thy ===== *)
theory SemCalls
  imports SemSpec
begin

text \<open>
  The store as its callers drive it: sequences of calls, the System V history each sequence is, and
  the properties of single operations that callers rely on.
\<close>

unbundle bit_operations_syntax

subsection \<open>Sequences of calls\<close>

text \<open>One call of the store's interface, with what the system answered to it.\<close>

datatype store_call =
    Get sys_answers int int int tgc_sem_identity
  | Remove int
  | Setval "int option" int nat u32 int
  | Setall "int option" int "u16 list" int
  | SetMetadata "int option" int u32 u32 u32 tgc_sem_identity
  | AdjustWaitCount int nat bool int
  | Tryop "int option" int "tgc_sem_op list" int
  | ProcessExit "nat \<Rightarrow> int option" int

fun store_exec :: "store_call \<Rightarrow> tgc_sem_store \<Rightarrow> int \<times> tgc_sem_store" where
  "store_exec (Get sys key n flags identity) store = tgc_sem_store_get_as sys store key n flags identity"
| "store_exec (Remove semid) store = tgc_sem_store_remove store semid"
| "store_exec (Setval now semid n v pid) store = tgc_sem_store_setval now store semid n v pid"
| "store_exec (Setall now semid vals pid) store = tgc_sem_store_setall now store semid vals (length vals) pid"
| "store_exec (SetMetadata now semid uid gid mode actor) store =
     tgc_sem_store_set_metadata now store semid uid gid mode actor"
| "store_exec (AdjustWaitCount semid n z d) store = tgc_sem_store_adjust_wait_count store semid n z d"
| "store_exec (Tryop now semid ops pid) store = tgc_sem_store_tryop now store semid ops pid"
| "store_exec (ProcessExit now pid) store = tgc_sem_store_process_exit now store pid"

text \<open>The arguments have the values their C types allow.\<close>

fun store_call_ok :: "store_call \<Rightarrow> bool" where
  "store_call_ok (Get sys key n flags identity) \<longleftrightarrow> in_i32 key \<and> clock_ok (clock_realtime sys)"
| "store_call_ok (Remove semid) \<longleftrightarrow> in_i32 semid"
| "store_call_ok (Setval now semid n v pid) \<longleftrightarrow> in_i32 semid \<and> in_i32 pid \<and> clock_ok now"
| "store_call_ok (Setall now semid vals pid) \<longleftrightarrow> in_i32 semid \<and> in_i32 pid \<and> clock_ok now"
| "store_call_ok (SetMetadata now semid uid gid mode actor) \<longleftrightarrow> in_i32 semid \<and> clock_ok now"
| "store_call_ok (AdjustWaitCount semid n z d) \<longleftrightarrow> in_i32 semid"
| "store_call_ok (Tryop now semid ops pid) \<longleftrightarrow> in_i32 semid \<and> in_i32 pid \<and> clock_ok now"
| "store_call_ok (ProcessExit now pid) \<longleftrightarrow> in_i32 pid \<and> (\<forall>i. clock_ok (now i))"

definition store_run :: "store_call list \<Rightarrow> tgc_sem_store \<Rightarrow> (store_call \<times> int) list \<times> tgc_sem_store" where
  "store_run = run_calls store_exec"

lemma inv_tryop:
  assumes "store_inv store" "in_i32 pid" "in_i32 semid" "clock_ok now"
  shows "store_inv (snd (tgc_sem_store_tryop now store semid ops pid))"
  using inv_tryop_detail [OF assms] by (simp add: tgc_sem_store_tryop_def case_prod_beta)

lemma inv_process_exit:
  assumes "store_inv store" "in_i32 pid" "\<forall>i. clock_ok (now i)"
  shows "store_inv (snd (tgc_sem_store_process_exit now store pid))"
  using refine_process_exit(2) [OF assms(1,2) _ assms(3)] assms(1)
  by (cases "0 < pid") (simp_all add: tgc_sem_store_process_exit_def)

lemmas store_inv_intros =
  inv_get_as inv_remove inv_setval inv_setall inv_set_metadata inv_adjust_wait_count inv_tryop inv_process_exit

lemma inv_store_exec: "store_inv store \<Longrightarrow> store_call_ok call \<Longrightarrow> store_inv (snd (store_exec call store))"
  by (cases call) (simp_all add: store_inv_intros)

interpretation store_calls: call_system store_exec store_call_ok store_inv
  by unfold_locales (rule inv_store_exec)

subsection \<open>A store with one set\<close>

text \<open>The example the witnesses use: a fresh store in which key 42 was created with two semaphores.\<close>

definition example_call :: store_call where
  "example_call = Get \<lparr>clock_realtime = Some 1000, calloc_ok = (\<lambda>i. True)\<rparr> 42 2 (512 + 384)
     \<lparr>id_uid = 10, id_gid = 20\<rparr>"

definition example_store :: tgc_sem_store where
  "example_store = snd (store_exec example_call tgc_sem_store_create)"

lemma example_call_ok [simp]: "store_call_ok example_call"
  by (simp add: example_call_def in_i32_def clock_ok_def current_time_seconds_def in_i64_def)

lemma example_store_inv [simp]: "store_inv example_store"
  unfolding example_store_def by (intro inv_store_exec inv_create example_call_ok)

definition example_set :: tgc_sem_set where
  "example_set = \<lparr>set_key = 42, generation = 1, nsems = 2, set_active = True, set_uid = 10, set_gid = 20,
     set_cuid = 10, set_cgid = 20, set_mode = 384, set_otime = 0, set_ctime = 1000,
     sem_values = [0, 0], last_pids = [0, 0], negative_waiters = [0, 0], zero_waiters = [0, 0]\<rparr>"

lemma example_result:
  "store_exec example_call tgc_sem_store_create =
     (65537, \<lparr>sets = (replicate 128 zero_set)[0 := example_set], undo_entries = replicate 4096 zero_undo_entry\<rparr>)"
proof -
  have flags: "(896::int) AND 512 \<noteq> 0" "(word_of_int 896 :: u32) AND 511 = 384"
    by (simp_all)
  have id: "make_id 0 1 = 65537" using make_id_eq [of 0 1] by simp
  show ?thesis
    using flags id unfolding example_call_def store_exec.simps tgc_sem_store_get_as_def tgc_sem_store_create_def
    by (simp add: zero_set_def init_set_def example_set_def current_time_seconds_def Let_def
        numeral_2_eq_2 nth_replicate)
qed

lemma example_store_sel [simp]:
  "sets example_store = (replicate 128 zero_set)[0 := example_set]"
  "undo_entries example_store = replicate 4096 zero_undo_entry"
  by (simp_all add: example_store_def example_result)

lemma example_decode: "decode_id 65537 = Some (0, 1)"
  by code_simp

lemma example_find [simp]: "find_set example_store 65537 = Some 0"
  by (simp add: find_set_def example_decode example_set_def nth_list_update)

subsection \<open>The System V history of a run\<close>

definition sv_get :: "sysv \<Rightarrow> int \<Rightarrow> int \<Rightarrow> sysv \<Rightarrow> bool" where
  "sv_get st n r st' \<longleftrightarrow>
     st' = st \<and> (r < 0 \<or> sv_values st r \<noteq> None) \<or>
     sv_values st r = None \<and> 0 < r \<and> 0 < n \<and> n \<le> 512 \<and> (\<forall>p m. sv_undo st (p, r, m) = 0) \<and>
     st' = st\<lparr>sv_values := (sv_values st)(r := Some (replicate (nat n) 0))\<rparr>"

fun sv_step :: "store_call \<Rightarrow> sysv \<Rightarrow> int \<Rightarrow> sysv \<Rightarrow> bool" where
  "sv_step (Get sys key n flags identity) st r st' \<longleftrightarrow> sv_get st n r st'"
| "sv_step (Remove semid) st r st' \<longleftrightarrow> (r, st') = sv_remove st semid"
| "sv_step (Setval now semid n v pid) st r st' \<longleftrightarrow> (r, st') = sv_setval st semid n (uint v)"
| "sv_step (Setall now semid vals pid) st r st' \<longleftrightarrow> (r, st') = sv_setall st semid (map uint vals)"
| "sv_step (SetMetadata now semid uid gid mode actor) st r st' \<longleftrightarrow> st' = st"
| "sv_step (AdjustWaitCount semid n z d) st r st' \<longleftrightarrow> st' = st"
| "sv_step (Tryop now semid ops pid) st r st' \<longleftrightarrow> (r, st') = sv_semop st semid ops pid"
| "sv_step (ProcessExit now pid) st r st' \<longleftrightarrow>
     (if pid \<le> 0 then r = err EINVAL \<and> st' = st
      else r = (if \<exists>s n. sv_undo st (pid, s, n) \<noteq> 0 then 1 else 0) \<and> st' = sv_exit st pid)"

lemma make_id_pos: "i < 128 \<Longrightarrow> g \<le> 0x7fff \<Longrightarrow> 0 < make_id i g"
  by (simp add: make_id_eq add_nonneg_nonneg add_pos_nonneg)

lemma next_generation_neq: "g \<noteq> 0 \<Longrightarrow> next_generation g \<noteq> g"
  by (auto simp: next_generation_def word_le_nat_alt)

lemma sv_undo_dead:
  assumes "store_inv store" "find_set store semid = None"
  shows "sv_undo (sv_of store) (p, semid, m) = 0"
proof -
  have "\<not> (undo_active e \<and> undo_key e = (p, semid, m))" if "e \<in> set (undo_entries store)" for e
    using assms that by (auto simp: store_inv_def undo_ok_def has_sem_def undo_key_def)
  then have "find_index (\<lambda>e. undo_active e \<and> undo_key e = (p, semid, m)) (undo_entries store) = None"
    by (simp add: find_index_None)
  then show ?thesis by (simp add: sv_of_undo undo_adj_def)
qed

text \<open>The identifier \<open>semget\<close> hands out for a new set names nothing in the old store.\<close>

lemma created_id:
  assumes inv: "store_inv store" and i: "find_index (\<lambda>set. \<not> set_active set) (sets store) = Some i"
    and x: "x = init_set sys (sets store ! i) key n flags identity"
  shows "0 < make_id i (generation x)" "find_set store (make_id i (generation x)) = None"
    "find_set (store\<lparr>sets := (sets store)[i := x]\<rparr>) (make_id i (generation x)) = Some i"
    "\<And>s. in_i32 s \<Longrightarrow> s \<noteq> make_id i (generation x) \<Longrightarrow> find_set (store\<lparr>sets := (sets store)[i := x]\<rparr>) s = find_set store s"
    "i < 128" "\<not> set_active (sets store ! i)"
proof -
  have len: "length (sets store) = 128" using inv by (simp add: store_inv_def)
  show i': "i < 128" "\<not> set_active (sets store ! i)"
    using find_index_SomeD [OF i] len by simp_all
  have g: "generation x \<le> 0x7fff" "generation x \<noteq> 0" "set_active x"
    using nth_set_ok [OF inv i'(1)] by (auto simp: x init_set_def set_ok_def)
  note dec = decode_make_id [OF i'(1) g(1,2)]
  show "0 < make_id i (generation x)" using i'(1) g(1) by (rule make_id_pos)
  show "find_set store (make_id i (generation x)) = None"
    using i' by (simp add: find_set_def dec)
  show "find_set (store\<lparr>sets := (sets store)[i := x]\<rparr>) (make_id i (generation x)) = Some i"
    using i' len g by (simp add: find_set_def dec)
  show "find_set (store\<lparr>sets := (sets store)[i := x]\<rparr>) s = find_set store s"
    if s: "in_i32 s" "s \<noteq> make_id i (generation x)" for s
  proof (cases "decode_id s")
    case (Some p)
    obtain j h where p: "p = (j, h)" by (cases p)
    show ?thesis
    proof (cases "j = i")
      case True
      have "h \<noteq> generation x"
        using Some p True s dec decode_id_inj [of s p "make_id i (generation x)"] by auto
      with Some p True i' len show ?thesis by (simp add: find_set_def)
    qed (use Some p in \<open>simp add: find_set_def\<close>)
  qed (simp add: find_set_def)
qed

lemma refine_get_as:
  assumes inv: "store_inv store"
  shows "sv_get (sv_of store) n (fst (tgc_sem_store_get_as sys store key n flags identity))
    (sv_of (snd (tgc_sem_store_get_as sys store key n flags identity)))"
proof (cases rule: get_as_cases [of sys store key n flags identity])
  case (failed e)
  then show ?thesis by (simp add: sv_get_def)
next
  case (existing i)
  have i: "i < 128" "set_active (sets store ! i)"
    using find_index_SomeD [OF existing(2)] inv by (simp_all add: store_inv_def)
  with existing(6) find_set_make_id [OF inv i] show ?thesis by (simp add: sv_get_def sv_of_find)
next
  case (created i)
  define x where "x = init_set sys (sets store ! i) key n flags identity"
  define r where "r = make_id i (generation x)"
  define store' where "store' = store\<lparr>sets := (sets store)[i := x]\<rparr>"
  note id = created_id [OF inv created(3) x_def, folded r_def, folded store'_def]
  have r32: "in_i32 r" by (simp add: r_def)
  have len: "length (sets store) = 128" using inv by (simp add: store_inv_def)
  have "sv_values (sv_of store') s = ((sv_values (sv_of store))(r := Some (replicate (nat n) 0))) s" for s
  proof (cases "s = r")
    case True
    then show ?thesis using id r32 len by (simp add: sv_of_find store'_def x_def init_set_def)
  next
    case False
    show ?thesis
    proof (cases "in_i32 s \<and> find_set store s \<noteq> None")
      case True
      then obtain j where j: "find_set store s = Some j" by auto
      with id(6) find_set_SomeD(2) [OF j] have "j \<noteq> i" by auto
      with True j False id(4) show ?thesis by (simp add: sv_of_def store'_def)
    next
      case no: False
      with False id(4) [of s] show ?thesis by (auto simp: sv_of_def)
    qed
  qed
  then have "sv_of store' = (sv_of store)\<lparr>sv_values := (sv_values (sv_of store))(r := Some (replicate (nat n) 0))\<rparr>"
    by (intro sysv_eqI) (auto simp: sv_of_undo store'_def)
  moreover have "sv_values (sv_of store) r = None" using id(2) r32 by (simp add: sv_of_find)
  moreover have "tgc_sem_store_get_as sys store key n flags identity = (r, store')"
    using created(5) by (simp add: r_def store'_def x_def)
  ultimately show ?thesis
    using created(1,2) id(1) sv_undo_dead [OF inv id(2)] by (simp add: sv_get_def)
qed

lemma sv_of_same_values:
  assumes "find_set store semid = Some k" "k < length (sets store)" "sem_values x = sem_values (sets store ! k)"
    "set_active x" "generation x = generation (sets store ! k)"
  shows "sv_of (store\<lparr>sets := (sets store)[k := x]\<rparr>) = sv_of store"
proof (rule sysv_eqI)
  have f: "find_set (store\<lparr>sets := (sets store)[k := x]\<rparr>) s = find_set store s" for s
    using find_set_SomeD(2) [OF assms(1)] assms by (intro find_set_write_same) simp_all
  have "map_option (\<lambda>j. map uint (sem_values ((sets store)[k := x] ! j))) oj = map_option (\<lambda>j. map uint (sem_values (sets store ! j))) oj" for oj
    using assms(2,3) by (cases oj) (auto simp: nth_list_update)
  then show "sv_values (sv_of (store\<lparr>sets := (sets store)[k := x]\<rparr>)) = sv_values (sv_of store)"
    by (simp add: sv_of_def f fun_eq_iff)
qed (simp add: sv_of_undo)

lemma refine_set_metadata:
  assumes "store_inv store"
  shows "sv_of (snd (tgc_sem_store_set_metadata now store semid uid gid mode actor)) = sv_of store"
proof (cases "find_set store semid")
  case (Some k)
  have "k < length (sets store)" "set_active (sets store ! k)"
    using assms find_set_SomeD [OF Some] by (simp_all add: store_inv_def)
  with Some show ?thesis
    by (simp add: tgc_sem_store_set_metadata_def Let_def sv_of_same_values [OF Some])
qed (simp add: tgc_sem_store_set_metadata_def)

lemma refine_adjust_wait_count:
  assumes "store_inv store"
  shows "sv_of (snd (tgc_sem_store_adjust_wait_count store semid n z d)) = sv_of store"
proof (cases "find_set store semid")
  case (Some k)
  have "k < length (sets store)" "set_active (sets store ! k)"
    using assms find_set_SomeD [OF Some] by (simp_all add: store_inv_def)
  with Some show ?thesis
    by (simp add: tgc_sem_store_adjust_wait_count_def Let_def sv_of_same_values [OF Some])
qed (simp add: tgc_sem_store_adjust_wait_count_def)


lemma refine_store_exec:
  assumes "store_inv store" "store_call_ok call"
  shows "sv_step call (sv_of store) (fst (store_exec call store)) (sv_of (snd (store_exec call store)))"
proof -
  have pair: "(fst x, sv_of (snd x)) = map_prod id sv_of x" for x :: "int \<times> tgc_sem_store" by (cases x) simp
  show ?thesis
  proof (cases call)
    case (Get sys key n flags identity)
    with assms show ?thesis by (simp add: refine_get_as)
  next
    case (ProcessExit now pid)
    with assms refine_process_exit [OF assms(1), of pid now] show ?thesis
      by (cases "pid \<le> 0") (auto simp: tgc_sem_store_process_exit_def)
  next
    case (SetMetadata now semid uid gid mode actor)
    with assms show ?thesis by (simp add: refine_set_metadata)
  next
    case (AdjustWaitCount semid n z d)
    with assms show ?thesis by (simp add: refine_adjust_wait_count)
  qed (use assms in \<open>simp_all add: pair refine_remove refine_setval refine_setall refine_semop\<close>)
qed
interpretation store_sysv: simulation store_exec store_call_ok store_inv sv_of sv_step
  by unfold_locales (rule refine_store_exec)

subsection \<open>Histories of a store\<close>

definition sv_empty :: sysv where
  "sv_empty = \<lparr>sv_values = (\<lambda>semid. None), sv_undo = (\<lambda>key. 0)\<rparr>"

lemma sv_of_create: "sv_of tgc_sem_store_create = sv_empty"
proof (rule sysv_eqI)
  have "find_set tgc_sem_store_create semid = None" for semid
    using decode_id_SomeD(1) by (auto simp: find_set_def tgc_sem_store_create_def zero_set_def split: option.splits)
  then show "sv_values (sv_of tgc_sem_store_create) = sv_values sv_empty"
    by (simp add: sv_of_def sv_empty_def fun_eq_iff)
  show "sv_undo (sv_of tgc_sem_store_create) = sv_undo sv_empty"
    by (simp add: sv_of_def sv_empty_def fun_eq_iff undo_adj_def tgc_sem_store_create_def zero_undo_entry_def)
qed

text \<open>C4. Whatever calls a store receives after its creation, its invariant holds at the end, and the
  calls with their results are a history of the System V specification \<open>sv_step\<close> that starts with no
  set and no pending undo adjustment.\<close>

theorem store_history:
  assumes "list_all store_call_ok calls" "store_run calls tgc_sem_store_create = (history, store)"
  shows "store_inv store \<and> spec_trace sv_step sv_empty history (sv_of store)"
  using store_calls.run_inv [OF inv_create assms(1)] store_sysv.run_trace [OF inv_create assms(1)] assms(2)
  by (simp add: store_run_def sv_of_create)

theorem store_history_witness:
  "list_all store_call_ok [example_call] \<and>
   store_run [example_call] tgc_sem_store_create = ([(example_call, 65537)], example_store) \<and>
   store_inv example_store \<and> spec_trace sv_step sv_empty [(example_call, 65537)] (sv_of example_store)"
proof -
  have run: "store_run [example_call] tgc_sem_store_create = ([(example_call, 65537)], example_store)"
    by (simp add: store_run_def example_result example_store_def)
  have ok: "list_all store_call_ok [example_call]" by simp
  show ?thesis using store_history [OF ok run] ok run by simp
qed

text \<open>C3. A \<open>semop\<close> request is all or nothing: unless it returns zero the store is exactly what it was.
  In particular the second \<open>-ENOSPC\<close> of the source, in the middle of the commit loop, is never taken.\<close>

theorem semop_all_or_nothing:
  assumes "store_inv store" "in_i32 semid" "in_i32 pid"
    and "fst (tgc_sem_store_tryop_detail now store semid ops pid reason) \<noteq> 0"
  shows "fst (snd (tgc_sem_store_tryop_detail now store semid ops pid reason)) = store"
  using assms(1,3,2)
proof (cases rule: tryop_cases [where now = now and ops = ops and wr = reason])
  case fails
  then show ?thesis by simp
next
  case succeeds
  with assms(4) show ?thesis by simp
qed

definition example_op :: "i16 \<Rightarrow> u16 \<Rightarrow> tgc_sem_op" where
  "example_op amount flags = \<lparr>sem_num = 1, sem_op = amount, sem_flg = flags\<rparr>"

lemma example_blocked:
  "tgc_sem_store_tryop_detail (Some 5) example_store 65537 [example_op (-1) 0] 77 \<lparr>wr_sem_num = 0, wr_wait_for_zero = 0\<rparr> =
     (1, example_store, \<lparr>wr_sem_num = 1, wr_wait_for_zero = 0\<rparr>)"
proof -
  have s: "sets example_store ! 0 = example_set" by simp
  have "valid_ops (nsems example_set) [example_op (-1) 0]"
    by (simp add: valid_ops_def example_set_def example_op_def)
  moreover have "apply_operations (sem_values example_set) [example_op (-1) 0] = Blocked (example_op (-1) 0)"
    by (simp add: example_set_def example_op_def)
  ultimately show ?thesis
    using tryop_not_working(2) [OF example_find, unfolded s] by (simp add: example_op_def)
qed

theorem semop_all_or_nothing_witness:
  "fst (tgc_sem_store_tryop_detail (Some 5) example_store 65537 [example_op (-1) 0] 77
     \<lparr>wr_sem_num = 0, wr_wait_for_zero = 0\<rparr>) = 1 \<and>
   fst (snd (tgc_sem_store_tryop_detail (Some 5) example_store 65537 [example_op (-1) 0] 77
     \<lparr>wr_sem_num = 0, wr_wait_for_zero = 0\<rparr>)) = example_store"
  using semop_all_or_nothing [OF example_store_inv, of 65537 77 "Some 5" "[example_op (-1) 0]"
      "\<lparr>wr_sem_num = 0, wr_wait_for_zero = 0\<rparr>"] example_blocked
  by (simp add: in_i32_def)

text \<open>C2. \<open>semop\<close> implements System V: on every store, for every request, the result and the abstract
  state are those of \<open>sv_semop\<close>, which applies the operations in order on unbounded integers, adds
  the negated \<open>SEM_UNDO\<close> amounts to the caller's adjustments, and fails on the first violated bound.\<close>

theorem semop_refines:
  assumes "store_inv store" "in_i32 semid" "in_i32 pid"
  shows "map_prod id sv_of (tgc_sem_store_tryop now store semid ops pid) = sv_semop (sv_of store) semid ops pid"
  using assms by (intro refine_semop)

theorem semop_refines_witness:
  "store_inv example_store \<and>
   map_prod id sv_of (tgc_sem_store_tryop (Some 5) example_store 65537 [example_op 3 4096] 77) =
     sv_semop (sv_of example_store) 65537 [example_op 3 4096] 77"
  using semop_refines [OF example_store_inv, of 65537 77] by (simp add: in_i32_def)

text \<open>C11. Process exit implements System V: every pending adjustment of the process is added to its
  semaphore, the sum clamped to the legal values, and forgotten; adjustments of other processes stay;
  the result says whether there was any.\<close>

theorem exit_refines:
  assumes "store_inv store" "in_i32 pid" "0 < pid" "\<forall>i. clock_ok (now i)"
    and "tgc_sem_store_process_exit now store pid = (r, store')"
  shows "sv_of store' = sv_exit (sv_of store) pid \<and>
    r = (if \<exists>semid n. sv_undo (sv_of store) (pid, semid, n) \<noteq> 0 then 1 else 0)"
  using refine_process_exit [OF assms(1-4)] assms(5) by simp

lemma example_undo: "sv_undo (sv_of example_store) = (\<lambda>key. 0)"
  by (simp add: sv_of_undo undo_adj_def zero_undo_entry_def fun_eq_iff)

theorem exit_refines_witness:
  "sv_of (snd (tgc_sem_store_process_exit (\<lambda>i. Some 5) example_store 77)) = sv_exit (sv_of example_store) 77 \<and>
   fst (tgc_sem_store_process_exit (\<lambda>i. Some 5) example_store 77) = 0"
  using exit_refines [OF example_store_inv _ _ _ surjective_pairing, of 77 "\<lambda>i. Some 5"]
  by (simp add: in_i32_def clock_ok_def in_i64_def current_time_seconds_def example_undo)

subsection \<open>Undo\<close>

lemma sv_semop_success:
  assumes "sv_semop st semid ops pid = (0, st')"
  obtains vals vals' where "sv_values st semid = Some vals" "valid_ops (word_of_nat (length vals)) ops"
    "sv_apply vals ops = SvDone vals'"
    "st' = \<lparr>sv_values = (sv_values st)(semid := Some vals'),
       sv_undo = (\<lambda>(p, s, m). sv_undo st (p, s, m) + (if p = pid \<and> s = semid then undo_sum ops (unat m) else 0))\<rparr>"
proof -
  obtain vals where v: "sv_values st semid = Some vals"
    using assms by (cases "sv_values st semid") (simp_all add: sv_semop_def)
  have valid: "valid_ops (word_of_nat (length vals)) ops"
    using assms by (auto simp: sv_semop_def v split: if_splits)
  obtain vals' where d: "sv_apply vals ops = SvDone vals'"
    using assms by (cases "sv_apply vals ops") (auto simp: sv_semop_def v valid split: if_splits)
  from assms have "st' = \<lparr>sv_values = (sv_values st)(semid := Some vals'),
       sv_undo = (\<lambda>(p, s, m). sv_undo st (p, s, m) + (if p = pid \<and> s = semid then undo_sum ops (unat m) else 0))\<rparr>"
    by (auto simp: sv_semop_def v valid d split: if_splits)
  with v valid d show ?thesis by (rule that)
qed

lemma undo_sum_all: "list_all is_undo ops \<Longrightarrow> undo_sum ops n = - op_sum ops n"
  by (simp add: undo_sum_def list_all_iff)

lemma sv_exit_undoes:
  assumes ok: "sv_semop st semid ops pid = (0, st')" and all: "list_all is_undo ops"
    and none: "\<And>s m. sv_undo st (pid, s, m) = 0"
    and bounds: "\<And>s vals. sv_values st s = Some vals \<Longrightarrow> length vals \<le> 512 \<and> (\<forall>v\<in>set vals. 0 \<le> v \<and> v \<le> 32767)"
  shows "sv_exit st' pid = st"
  using ok
proof (cases rule: sv_semop_success)
  case (1 vals vals')
  have len: "length vals' = length vals" using sv_apply_length [OF 1(3)] .
  have "sv_values (sv_exit st' pid) s = sv_values st s" for s
  proof (cases "s = semid")
    case True
    have "map (\<lambda>n. clamp_value (vals' ! n + undo_sum ops (unat (word_of_nat n :: u16)))) [0..<length vals] = vals"
    proof (rule nth_equalityI)
      fix n assume "n < length (map (\<lambda>n. clamp_value (vals' ! n + undo_sum ops (unat (word_of_nat n :: u16)))) [0..<length vals])"
      then have n: "n < length vals" by simp
      then have "unat (word_of_nat n :: u16) = n" using bounds [OF 1(1)] by (simp add: unat_of_nat)
      moreover have "vals' ! n + undo_sum ops n = vals ! n"
        using sv_apply_sum [OF 1(3) n] undo_sum_all [OF all] by simp
      moreover have "clamp_value (vals ! n) = vals ! n"
        using bounds [OF 1(1)] n by (intro clamp_value_id) simp_all
      ultimately show "map (\<lambda>n. clamp_value (vals' ! n + undo_sum ops (unat (word_of_nat n :: u16)))) [0..<length vals] ! n = vals ! n"
        using n by simp
    qed simp
    with True 1 len none show ?thesis by (simp add: sv_exit_def)
  next
    case False
    show ?thesis
    proof (cases "sv_values st s")
      case (Some w)
      then have "map (\<lambda>n. clamp_value (w ! n)) [0..<length w] = w"
        using bounds [OF Some] by (intro nth_equalityI) (simp_all add: clamp_value_id)
      with Some False 1(4) none show ?thesis by (simp add: sv_exit_def)
    qed (use False 1(4) in \<open>simp add: sv_exit_def\<close>)
  qed
  moreover have "sv_undo (sv_exit st' pid) key = sv_undo st key" for key
    using none 1(4) by (cases key) (simp add: sv_exit_def)
  ultimately show ?thesis by (intro sysv_eqI) auto
qed


lemma example_values: "sv_values (sv_of example_store) 65537 = Some [0, 0]"
  by (simp add: sv_of_find in_i32_def example_set_def)

lemma example_semop:
  "sv_semop (sv_of example_store) 65537 [example_op 3 4096] 77 =
     (0, \<lparr>sv_values = (sv_values (sv_of example_store))(65537 := Some [0, 3]),
       sv_undo = (\<lambda>(p, s, m). if p = 77 \<and> s = 65537 then undo_sum [example_op 3 4096] (unat m) else 0)\<rparr>)"
proof -
  have sum: "undo_sum [example_op 3 4096] n = (if n = 1 then - 3 else 0)" for n
    by (auto simp: example_op_def is_undo_def)
  have "i \<le> 1 \<Longrightarrow> undo_in_range (undo_sum (take i [example_op 3 4096]) n)" for i n
    by (cases i) (simp_all add: sum undo_in_range_def del: undo_sum_simps(2))
  moreover have "undo_in_range (undo_sum [example_op 3 4096] n)" for n
    by (simp add: sum undo_in_range_def del: undo_sum_simps)
  moreover have "{n. n < 2 \<and> undo_sum [example_op 3 4096] n \<noteq> 0} = {1}"
    by (auto simp: sum simp del: undo_sum_simps)
  moreover have "sv_apply [0, 0] [example_op 3 4096] = SvDone [0, 3]" by (simp add: example_op_def)
  moreover have "valid_ops 2 [example_op 3 4096]" by (simp add: valid_ops_def example_op_def)
  ultimately show ?thesis
    unfolding sv_semop_def example_values example_undo
    by (auto simp: numeral_2_eq_2 simp del: undo_sum_simps)
qed


subsection \<open>Identifiers\<close>

text \<open>C35. An identifier that was removed stays dead when the slot is used again: after \<open>IPC_RMID\<close> the next
  set created, even in the same slot, has another identifier, and the old one still finds nothing.\<close>

theorem removed_id_stays_dead:
  assumes inv: "store_inv store" and i32: "in_i32 semid" "in_i32 key" and clock: "clock_ok (clock_realtime sys)"
    and rm: "tgc_sem_store_remove store semid = (0, store1)"
    and get: "tgc_sem_store_get_as sys store1 key n flags identity = (r, store2)"
  shows "r \<noteq> semid \<and> find_set store1 semid = None \<and> find_set store2 semid = None"
proof -
  obtain k where find: "find_set store semid = Some k"
    using rm by (cases "find_set store semid") (simp_all add: tgc_sem_store_remove_def)
  have inv1: "store_inv store1" using inv_remove [OF inv i32(1)] rm by simp
  have k: "k < 128" "k < length (sets store)" using inv find_set_SomeD(1) [OF find] by (simp_all add: store_inv_def)
  let ?g = "generation (sets store ! k)"
  have dec: "decode_id semid = Some (k, ?g)" using find by (rule find_set_SomeD)
  have g0: "?g \<noteq> 0" using find_set_ok [OF inv find] by (simp add: set_ok_def)
  have s1: "sets store1 ! k = zero_set\<lparr>generation := next_generation ?g\<rparr>" "length (sets store1) = 128"
    using rm find k inv1 by (auto simp: tgc_sem_store_remove_def Let_def store_inv_def)
  have dead1: "find_set store1 semid = None" using s1 by (simp add: find_set_def dec zero_set_def)
  have "r \<noteq> semid \<and> find_set store2 semid = None"
  proof (cases rule: get_as_cases [of sys store1 key n flags identity])
    case (failed e)
    then have "r < 0" "store2 = store1" using get by simp_all
    with dead1 decode_id_SomeD(3) [OF dec] show ?thesis by auto
  next
    case (existing i)
    have i: "i < 128" "set_active (sets store1 ! i)"
      using find_index_SomeD [OF existing(2)] inv1 by (simp_all add: store_inv_def)
    have "find_set store1 r = Some i" "store2 = store1"
      using existing(6) get find_set_make_id [OF inv1 i] by simp_all
    with dead1 show ?thesis by auto
  next
    case (created i)
    define x where "x = init_set sys (sets store1 ! i) key n flags identity"
    note id = created_id [OF inv1 created(3) x_def]
    have r: "r = make_id i (generation x)" "store2 = store1\<lparr>sets := (sets store1)[i := x]\<rparr>"
      using created(5) get by (simp_all add: x_def)
    have gx: "generation x = (if generation (sets store1 ! i) = 0 then 1 else generation (sets store1 ! i))"
      by (simp add: x_def init_set_def)
    have "r \<noteq> semid"
    proof
      assume "r = semid"
      moreover have "decode_id r = Some (i, generation x)"
        using nth_set_ok [OF inv1 id(5)] id(5) gx unfolding r(1) by (intro decode_make_id) (auto simp: set_ok_def)
      ultimately have "i = k" "generation x = ?g" using dec by auto
      with gx s1(1) next_generation_ok [of ?g] next_generation_neq [OF g0] show False
        by (simp add: zero_set_def)
    qed
    moreover have "find_set store2 semid = None"
      using id(4) [OF i32(1)] \<open>r \<noteq> semid\<close> dead1 r by auto
    ultimately show ?thesis ..
  qed
  with dead1 show ?thesis by simp
qed

lemma example_remove: "tgc_sem_store_remove example_store 65537 = (0, snd (tgc_sem_store_remove example_store 65537))"
  by (simp add: tgc_sem_store_remove_def Let_def)

lemma example_remove_result: "fst (tgc_sem_store_remove example_store 65537) = 0"
  by (simp add: tgc_sem_store_remove_def Let_def)

theorem removed_id_stays_dead_witness:
  "fst (tgc_sem_store_remove example_store 65537) = 0 \<and>
   fst (tgc_sem_store_get_as \<lparr>clock_realtime = Some 7, calloc_ok = (\<lambda>i. True)\<rparr>
     (snd (tgc_sem_store_remove example_store 65537)) 42 2 896 \<lparr>id_uid = 10, id_gid = 20\<rparr>) \<noteq> 65537 \<and>
   find_set (snd (tgc_sem_store_get_as \<lparr>clock_realtime = Some 7, calloc_ok = (\<lambda>i. True)\<rparr>
     (snd (tgc_sem_store_remove example_store 65537)) 42 2 896 \<lparr>id_uid = 10, id_gid = 20\<rparr>)) 65537 = None"
  using removed_id_stays_dead [OF example_store_inv _ _ _ example_remove surjective_pairing, of 42
      "\<lparr>clock_realtime = Some 7, calloc_ok = (\<lambda>i. True)\<rparr>" 2 896 "\<lparr>id_uid = 10, id_gid = 20\<rparr>"]
    example_remove_result
  by (simp add: in_i32_def clock_ok_def in_i64_def current_time_seconds_def)

text \<open>\<open>semget\<close> is stable: once a key has a set, a lookup without \<open>IPC_CREAT | IPC_EXCL\<close> returns the
  identifier the creating call returned and changes nothing, an exclusive creation fails with
  \<open>-EEXIST\<close>, and a lookup that asks for more semaphores than the set has fails with \<open>-EINVAL\<close>.\<close>

lemma semget_stable:
  assumes inv: "store_inv store" and key: "key \<noteq> 0"
    and get: "tgc_sem_store_get_as sys store key n flags identity = (r, store1)" "0 < r"
  shows "tgc_sem_store_get_as sys' store1 key n' flags' identity' =
    (if flags' AND 512 \<noteq> 0 \<and> flags' AND 1024 \<noteq> 0 then (err EEXIST, store1)
     else if n' < 0 \<or> int (unat (nsems (sets store1 ! the (find_set store1 r)))) < n' then (err EINVAL, store1)
     else (r, store1))"
proof -
  let ?P = "\<lambda>set. set_active set \<and> set_key set = key"
  have "\<exists>i. find_index ?P (sets store1) = Some i \<and> r = make_id i (generation (sets store1 ! i)) \<and>
    find_set store1 r = Some i"
  proof (cases rule: get_as_cases [of sys store key n flags identity])
    case (failed e)
    with get show ?thesis using err_neg [of e] by simp
  next
    case (existing i)
    have i: "i < 128" "set_active (sets store ! i)"
      using find_index_SomeD [OF existing(2)] inv by (simp_all add: store_inv_def)
    with existing find_set_make_id [OF inv i] get show ?thesis by auto
  next
    case (created i)
    define x where "x = init_set sys (sets store ! i) key n flags identity"
    note id = created_id [OF inv created(3) x_def]
    have len: "length (sets store) = 128" using inv by (simp add: store_inv_def)
    have s1: "store1 = store\<lparr>sets := (sets store)[i := x]\<rparr>" "r = make_id i (generation x)"
      using created(5) get by (simp_all add: x_def)
    have "find_index ?P ((sets store)[i := x]) = Some i"
    proof (rule find_index_unique)
      fix j assume "j < length ((sets store)[i := x])" "?P ((sets store)[i := x] ! j)"
      then show "j = i" using created(4) [OF key] nth_mem [of j "sets store"] by (cases "j = i") auto
    qed (use id(5) len in \<open>simp_all add: x_def init_set_def\<close>)
    with s1 id(3,5) len show ?thesis by (intro exI [of _ i]) simp
  qed
  then show ?thesis using key by (auto simp: tgc_sem_store_get_as_def Let_def)
qed


subsection \<open>Values\<close>

text \<open>C36. \<open>SETVAL\<close> then \<open>GETVAL\<close>: the semaphore reads back the value, every other semaphore of every
  other set reads what it read before, and no process keeps a pending adjustment for it.\<close>

theorem setval_getval:
  assumes inv: "store_inv store" and i32: "in_i32 semid" "in_i32 semid'" "in_i32 pid" and clock: "clock_ok now"
    and ok: "fst (tgc_sem_store_setval now store semid n v pid) = 0"
  shows "tgc_sem_store_getval (snd (tgc_sem_store_setval now store semid n v pid)) semid' m =
      (if semid' = semid \<and> m = n then uint v else tgc_sem_store_getval store semid' m) \<and>
    sv_undo (sv_of (snd (tgc_sem_store_setval now store semid n v pid))) (p, semid, word_of_nat n) = 0"
proof -
  let ?r = "tgc_sem_store_setval now store semid n v pid"
  have r: "(0, sv_of (snd ?r)) = sv_setval (sv_of store) semid n (uint v)"
    using refine_setval [OF inv i32(1), of now n v pid] ok by (cases ?r) simp
  then obtain vals where vals: "sv_values (sv_of store) semid = Some vals" "n < length vals"
      "sv_values (sv_of (snd ?r)) = (sv_values (sv_of store))(semid := Some (vals[n := uint v]))"
      "sv_undo (sv_of (snd ?r)) = (\<lambda>(p, s, m). if s = semid \<and> unat m = n then 0 else sv_undo (sv_of store) (p, s, m))"
    by (auto simp: sv_setval_def split: option.splits if_splits)
  have "store_inv (snd ?r)" using inv i32(3) clock by (rule inv_setval)
  then have "tgc_sem_store_getval (snd ?r) semid' m = sv_getval (sv_of (snd ?r)) semid' m"
    using i32(2) by (rule refine_getval)
  also have "\<dots> = (if semid' = semid \<and> m = n then uint v else sv_getval (sv_of store) semid' m)"
    using vals by (auto simp: sv_getval_def)
  finally have "tgc_sem_store_getval (snd ?r) semid' m =
      (if semid' = semid \<and> m = n then uint v else tgc_sem_store_getval store semid' m)"
    by (simp add: refine_getval [OF inv i32(2)])
  moreover have "unat (word_of_nat n :: u16) = n"
    using vals(1,2) find_set_ok [OF inv] by (fastforce simp: sv_of_values_Some set_ok_def unat_of_nat)
  ultimately show ?thesis using vals(4) by simp
qed

theorem setval_getval_witness:
  "fst (tgc_sem_store_setval (Some 5) example_store 65537 1 9 77) = 0 \<and>
   tgc_sem_store_getval (snd (tgc_sem_store_setval (Some 5) example_store 65537 1 9 77)) 65537 1 = 9 \<and>
   tgc_sem_store_getval (snd (tgc_sem_store_setval (Some 5) example_store 65537 1 9 77)) 65537 0 = 0"
proof -
  have ok: "fst (tgc_sem_store_setval (Some 5) example_store 65537 1 9 77) = 0"
    by (simp add: tgc_sem_store_setval_def Let_def example_set_def)
  have "tgc_sem_store_getval example_store 65537 0 = 0"
    by (simp add: tgc_sem_store_getval_def example_set_def)
  then show ?thesis
    using setval_getval [OF example_store_inv _ _ _ _ ok, of 65537 1] setval_getval [OF example_store_inv _ _ _ _ ok, of 65537 0] ok
    by (simp add: in_i32_def clock_ok_def in_i64_def current_time_seconds_def)
qed

text \<open>\<open>SETALL\<close> then \<open>GETALL\<close>: reading all values of the set gives back the list that was written,
  after the first elements of the caller's buffer only.\<close>

lemma setall_getall:
  assumes inv: "store_inv store" and i32: "in_i32 semid" "in_i32 pid" and clock: "clock_ok now"
    and ok: "fst (tgc_sem_store_setall now store semid vals (length vals) pid) = 0"
  shows "tgc_sem_store_getall (snd (tgc_sem_store_setall now store semid vals (length vals) pid)) semid buf (length vals) =
    (0, vals @ drop (length vals) buf)"
proof -
  obtain k where find: "find_set store semid = Some k" and n: "length vals = unat (nsems (sets store ! k))"
    using ok by (auto simp: tgc_sem_store_setall_def Let_def split: option.splits if_splits)
  have k: "k < length (sets store)" using inv find_set_SomeD(1) [OF find] by (simp add: store_inv_def)
  let ?s = "clear_undo_entries store semid 0 True"
  let ?x = "(sets store ! k)\<lparr>sem_values := take (length vals) vals @ drop (length vals) (sem_values (sets store ! k)),
    last_pids := foldl (\<lambda>pids k. pids[k := pid]) (last_pids (sets store ! k)) [0..<length vals],
    set_ctime := current_time_seconds now\<rparr>"
  have "snd (tgc_sem_store_setall now store semid vals (length vals) pid) = ?s\<lparr>sets := (sets ?s)[k := ?x]\<rparr>"
    using ok find by (auto simp: tgc_sem_store_setall_def Let_def split: if_splits)
  moreover have "find_set (?s\<lparr>sets := (sets ?s)[k := ?x]\<rparr>) semid = Some k"
    using find_set_write_same [of k ?s ?x semid] find k by simp
  ultimately show ?thesis using k n by (simp add: tgc_sem_store_getall_def Let_def)
qed

subsection \<open>Blocking\<close>

lemma sv_apply_wait:
  assumes "sv_apply vals ops = SvWait operation"
  shows "\<exists>i vals'. i < length ops \<and> ops ! i = operation \<and> sv_apply vals (take i ops) = SvDone vals' \<and>
    (if sint (sem_op operation) = 0 then vals' ! unat (sem_num operation) \<noteq> 0
     else vals' ! unat (sem_num operation) + sint (sem_op operation) < 0)"
  using assms
proof (induction ops arbitrary: vals)
  case (Cons a ops)
  let ?n = "unat (sem_num a)" let ?d = "sint (sem_op a)"
  let ?vals = "if ?d = 0 then vals else vals[?n := vals ! ?n + ?d]"
  show ?case
  proof (cases "if ?d = 0 then vals ! ?n \<noteq> 0 else vals ! ?n + ?d < 0")
    case True
    then have "a = operation" using Cons.prems by (auto simp: Let_def split: if_splits)
    with True show ?thesis by (intro exI [of _ 0] exI [of _ vals]) (auto split: if_splits)
  next
    case False
    then have step: "sv_apply vals (a # xs) = sv_apply ?vals xs" for xs
      using Cons.prems by (auto simp: Let_def split: if_splits)
    with Cons.prems have "sv_apply ?vals ops = SvWait operation" by simp
    from Cons.IH [OF this] obtain i vals' where "i < length ops" "ops ! i = operation"
      "sv_apply ?vals (take i ops) = SvDone vals'"
      "if sint (sem_op operation) = 0 then vals' ! unat (sem_num operation) \<noteq> 0
       else vals' ! unat (sem_num operation) + sint (sem_op operation) < 0" by blast
    with step show ?thesis by (intro exI [of _ "Suc i"] exI [of _ vals']) (simp del: sv_apply.simps(2))
  qed
qed simp

definition explains_wait :: "int list \<Rightarrow> tgc_sem_op list \<Rightarrow> tgc_sem_wait_reason \<Rightarrow> bool" where
  "explains_wait vals ops reason \<longleftrightarrow>
     (\<exists>i<length ops. \<exists>vals'. sv_apply vals (take i ops) = SvDone vals' \<and>
        sem_flg (ops ! i) AND 2048 = 0 \<and> wr_sem_num reason = sem_num (ops ! i) \<and>
        (if sint (sem_op (ops ! i)) = 0
         then vals' ! unat (sem_num (ops ! i)) \<noteq> 0 \<and> wr_wait_for_zero reason = 1
         else vals' ! unat (sem_num (ops ! i)) + sint (sem_op (ops ! i)) < 0 \<and> wr_wait_for_zero reason = 0))"

text \<open>When a request has to wait, the operations before the one it stopped at all went through, that
  operation cannot proceed on the values they produce, it was not marked \<open>IPC_NOWAIT\<close>, and the wait
  reason names its semaphore and whether it waits for zero.\<close>

lemma semop_blocked_reason:
  assumes inv: "store_inv store" and i32: "in_i32 semid" "in_i32 pid"
    and blocked: "tgc_sem_store_tryop_detail now store semid ops pid reason = (1, store', reason')"
  shows "\<exists>k. find_set store semid = Some k \<and> explains_wait (map uint (sem_values (sets store ! k))) ops reason'"
proof -
  obtain k where find: "find_set store semid = Some k"
    using blocked tryop_invalid(1) [of store semid now ops pid reason] by (cases "find_set store semid") auto
  let ?s = "sets store ! k"
  have valid: "valid_ops (nsems ?s) ops"
    using blocked tryop_invalid(2) [OF find, of ops now pid reason] by (cases "valid_ops (nsems ?s) ops") auto
  have len: "length (sem_values ?s) = unat (nsems ?s)" using inv find by (rule length_values)
  have "\<forall>v\<in>set (sem_values ?s). v \<le> 32767" "\<forall>operation\<in>set ops. unat (sem_num operation) < length (sem_values ?s)"
    using find_set_ok [OF inv find] valid len by (simp_all add: set_ok_def valid_ops_def word_less_nat_alt)
  note ap = apply_operations_sv [OF this]
  show ?thesis
  proof (cases "apply_operations (sem_values ?s) ops")
    case (Working w)
    have "fst (tgc_sem_store_tryop_detail now store semid ops pid reason) \<noteq> 1"
    proof (cases "undo_verdict store (nsems ?s) semid pid ops = 0")
      case True
      from tryop_success [OF inv i32(2,1) find valid Working True, of now reason] show ?thesis by auto
    next
      case False
      then have "undo_verdict store (nsems ?s) semid pid ops \<noteq> 1" by (simp add: undo_verdict_def)
      with tryop_refused [OF inv find valid Working False] show ?thesis by simp
    qed
    with blocked show ?thesis by simp
  next
    case OutOfRange
    with tryop_not_working(1) [OF find valid OutOfRange, of now pid reason] blocked show ?thesis by simp
  next
    case (Blocked operation)
    then have "sv_apply (map uint (sem_values ?s)) ops = SvWait operation" using ap by simp
    from sv_apply_wait [OF this] obtain i vals where i: "i < length ops" "ops ! i = operation"
      "sv_apply (map uint (sem_values ?s)) (take i ops) = SvDone vals"
      "if sint (sem_op operation) = 0 then vals ! unat (sem_num operation) \<noteq> 0
       else vals ! unat (sem_num operation) + sint (sem_op operation) < 0" by blast
    from tryop_not_working(2) [OF find valid Blocked, of now pid reason] blocked
    have "sem_flg operation AND 2048 = 0" "reason' = \<lparr>wr_sem_num = sem_num operation,
        wr_wait_for_zero = (if sint (sem_op operation) = 0 then 1 else 0)\<rparr>"
      by (auto split: if_splits)
    with i have "explains_wait (map uint (sem_values ?s)) ops reason'"
      unfolding explains_wait_def by (intro exI [of _ i] exI [of _ vals]) (simp split: if_splits)
    with find show ?thesis by blast
  qed
qed

subsection \<open>Metadata, waiter counts and limits\<close>

text \<open>\<open>IPC_SET\<close> is authorised and minimal: it succeeds only for the owner or the creator, only with the
  owner unchanged, a group the caller is in or the set has, and permission bits; afterwards the metadata
  differ in group, mode and change time only. When it fails nothing changes.\<close>

lemma set_metadata_guarded:
  assumes inv: "store_inv store"
  shows "if fst (tgc_sem_store_set_metadata now store semid uid gid mode actor) = 0
    then (\<exists>md. tgc_sem_store_get_metadata store semid buf = (0, md) \<and>
      id_uid actor \<in> {md_uid md, md_cuid md} \<and> uid = md_uid md \<and> gid \<in> {md_gid md, id_gid actor} \<and> mode \<le> 511 \<and>
      tgc_sem_store_get_metadata (snd (tgc_sem_store_set_metadata now store semid uid gid mode actor)) semid buf =
        (0, md\<lparr>md_gid := gid, md_mode := mode, md_ctime := current_time_seconds now\<rparr>))
    else snd (tgc_sem_store_set_metadata now store semid uid gid mode actor) = store"
proof (cases "find_set store semid")
  case (Some k)
  have k: "k < length (sets store)" using inv find_set_SomeD(1) [OF Some] by (simp add: store_inv_def)
  note dec = find_set_SomeD(2,3) [OF Some]
  show ?thesis
  proof (cases "fst (tgc_sem_store_set_metadata now store semid uid gid mode actor) = 0")
    case True
    let ?s = "sets store ! k"
    let ?x = "?s\<lparr>set_gid := gid, set_mode := mode, set_ctime := current_time_seconds now\<rparr>"
    from True Some have ok: "id_uid actor = set_uid ?s \<or> id_uid actor = set_cuid ?s" "uid = set_uid ?s"
      "gid = set_gid ?s \<or> gid = id_gid actor" "mode AND NOT 511 = 0"
      and s: "snd (tgc_sem_store_set_metadata now store semid uid gid mode actor) = store\<lparr>sets := (sets store)[k := ?x]\<rparr>"
      by (auto simp: tgc_sem_store_set_metadata_def Let_def split: if_splits)
    have "find_set (store\<lparr>sets := (sets store)[k := ?x]\<rparr>) semid = Some k"
      using find_set_write_same [OF k, of ?x semid] Some by simp
    with True Some dec k s ok mode_mask_le [OF ok(4)] show ?thesis
      by (auto simp: tgc_sem_store_get_metadata_def Let_def)
  next
    case False
    with Some show ?thesis by (auto simp: tgc_sem_store_set_metadata_def Let_def)
  qed
qed (simp add: tgc_sem_store_set_metadata_def)

definition zero_metadata :: tgc_sem_metadata where
  "zero_metadata = \<lparr>md_key = 0, md_uid = 0, md_gid = 0, md_cuid = 0, md_cgid = 0, md_mode = 0, md_nsems = 0,
     md_otime = 0, md_ctime = 0, md_sequence = 0\<rparr>"

text \<open>Counting a waiter in and out again restores the store exactly, and in between the count
  \<open>GETNCNT\<close> or \<open>GETZCNT\<close> reports is one more, saturated at \<open>INT_MAX\<close>.\<close>

lemma wait_count_in_out:
  assumes inv: "store_inv store" and ok: "fst (tgc_sem_store_adjust_wait_count store semid n z 1) = 0"
  shows "tgc_sem_store_adjust_wait_count (snd (tgc_sem_store_adjust_wait_count store semid n z 1)) semid n z (-1) = (0, store) \<and>
    tgc_sem_store_get_wait_count (snd (tgc_sem_store_adjust_wait_count store semid n z 1)) semid n z =
      min 2147483647 (tgc_sem_store_get_wait_count store semid n z + 1)"
proof -
  obtain k where find: "find_set store semid = Some k"
    using ok by (cases "find_set store semid") (simp_all add: tgc_sem_store_adjust_wait_count_def)
  let ?s = "sets store ! k"
  define c where "c = (if z then zero_waiters ?s ! n else negative_waiters ?s ! n)"
  define x where "x = (if z then ?s\<lparr>zero_waiters := (zero_waiters ?s)[n := c + 1]\<rparr>
    else ?s\<lparr>negative_waiters := (negative_waiters ?s)[n := c + 1]\<rparr>)"
  have k: "k < length (sets store)" using inv find_set_SomeD(1) [OF find] by (simp add: store_inv_def)
  have n: "\<not> unat (nsems ?s) \<le> n" "c \<noteq> 0xffffffff"
    and s: "snd (tgc_sem_store_adjust_wait_count store semid n z 1) = store\<lparr>sets := (sets store)[k := x]\<rparr>"
    using ok find by (auto simp: tgc_sem_store_adjust_wait_count_def Let_def c_def x_def split: if_splits)
  have len: "n < length (zero_waiters ?s)" "n < length (negative_waiters ?s)"
    using find_set_ok [OF inv find] n by (simp_all add: set_ok_def)
  have find': "find_set (store\<lparr>sets := (sets store)[k := x]\<rparr>) semid = Some k"
    using find_set_write_same [OF k, of x semid] find by (simp add: x_def)
  have nz: "1 + c \<noteq> 0"
  proof
    assume "1 + c = 0"
    then have "c = - 1" by (simp add: add_eq_0_iff)
    with n(2) show False by simp
  qed
  then have "unat (c + 1) = Suc (unat c)" using unatSuc [OF nz] by (simp add: add.commute)
  then have u: "uint (c + 1) = uint c + 1" by (metis of_nat_Suc uint_nat add.commute)
  have cx: "(if z then zero_waiters x ! n else negative_waiters x ! n) = c + 1" "nsems x = nsems ?s"
    using len by (simp_all add: x_def)
  have restore: "(if z then x\<lparr>zero_waiters := (zero_waiters x)[n := c]\<rparr>
      else x\<lparr>negative_waiters := (negative_waiters x)[n := c]\<rparr>) = ?s"
    by (simp add: x_def c_def)
  have "tgc_sem_store_adjust_wait_count (store\<lparr>sets := (sets store)[k := x]\<rparr>) semid n z (-1) = (0, store)"
    using nz n k find' cx restore unfolding tgc_sem_store_adjust_wait_count_def
    by (simp add: Let_def add.commute)
  moreover have "tgc_sem_store_get_wait_count (store\<lparr>sets := (sets store)[k := x]\<rparr>) semid n z =
      min 2147483647 (tgc_sem_store_get_wait_count store semid n z + 1)"
    using n k find find' cx u unfolding tgc_sem_store_get_wait_count_def
    by (simp add: Let_def c_def [symmetric] word_less_def min_def)
  ultimately show ?thesis by (simp add: s)
qed

lemma info_fold:
  "foldl (\<lambda>(highest, m, total) i. if \<not> set_active (ss ! i) then (highest, m, total)
      else (int i, m + 1, total + uint (nsems (ss ! i)))) (0, 0, 0) [0..<n] =
   (if {i. i < n \<and> set_active (ss ! i)} = {} then 0 else int (Max {i. i < n \<and> set_active (ss ! i)}),
    int (card {i. i < n \<and> set_active (ss ! i)}),
    (\<Sum>i | i < n \<and> set_active (ss ! i). uint (nsems (ss ! i))))"
proof (induction n)
  case (Suc n)
  have eq: "{i. i < Suc n \<and> set_active (ss ! i)} =
      (if set_active (ss ! n) then insert n {i. i < n \<and> set_active (ss ! i)} else {i. i < n \<and> set_active (ss ! i)})"
    by (auto simp: less_Suc_eq)
  have "Max (insert n {i. i < n \<and> set_active (ss ! i)}) = n"
    by (intro Max_eqI) auto
  then show ?case using Suc by (auto simp: eq)
qed simp

text \<open>\<open>SEM_INFO\<close> reports the store: the number of sets in use and of semaphores in them, and an
  index below which every set in use lies, itself in use unless the store is empty.\<close>

lemma info_counts:
  assumes "length (sets store) = 128"
  shows "tgc_sem_store_info store True =
    (let active = {i. i < 128 \<and> set_active (sets store ! i)} in
     (if active = {} then 0 else int (Max active),
      (snd (tgc_sem_store_info store False))\<lparr>semusz := int (card active),
        semaem := (\<Sum>i\<in>active. uint (nsems (sets store ! i)))\<rparr>))"
  unfolding tgc_sem_store_info_def assms info_fold by (simp add: Let_def)

text \<open>Semaphore identifiers are a bijection between the positive 32-bit integers that decode and the
  pairs of a slot and a non-zero 15-bit generation.\<close>

lemma sem_ids_bijective:
  "bij_betw (\<lambda>(i, g). make_id i g) {(i, g). i < 128 \<and> g \<noteq> 0 \<and> g \<le> 0x7fff}
     {semid. 0 < semid \<and> in_i32 semid \<and> decode_id semid \<noteq> None}"
proof (rule bij_betw_byWitness [where f' = "\<lambda>semid. the (decode_id semid)"])
  show "\<forall>p\<in>{(i, g). i < 128 \<and> g \<noteq> 0 \<and> g \<le> 0x7fff}. the (decode_id ((\<lambda>(i, g). make_id i g) p)) = p"
    by (auto simp: decode_make_id)
  show "\<forall>semid\<in>{semid. 0 < semid \<and> in_i32 semid \<and> decode_id semid \<noteq> None}.
      (\<lambda>(i, g). make_id i g) (the (decode_id semid)) = semid"
    by (auto simp: make_decode_id(1))
  show "(\<lambda>(i, g). make_id i g) ` {(i, g). i < 128 \<and> g \<noteq> 0 \<and> g \<le> 0x7fff} \<subseteq>
      {semid. 0 < semid \<and> in_i32 semid \<and> decode_id semid \<noteq> None}"
    by (auto simp: decode_make_id make_id_pos)
  show "(\<lambda>semid. the (decode_id semid)) ` {semid. 0 < semid \<and> in_i32 semid \<and> decode_id semid \<noteq> None} \<subseteq>
      {(i, g). i < 128 \<and> g \<noteq> 0 \<and> g \<le> 0x7fff}"
    using decode_id_SomeD make_decode_id(2) by auto
qed

end
