(* ===== verification/Dispatch.thy ===== *)
theory Dispatch
  imports Wire SemCalls
begin

text \<open>
  The request dispatcher of \<open>src/broker_dispatch.c\<close>: one framed request packet against the
  semaphore store. Each static helper of the source is a definition here and returns the C result
  with the store and the response packet it leaves; \<open>sys\<close> holds what the operating system answers
  to the clock reading and the allocations the store makes on the way. The response packet comes in
  as the caller left it. Local arrays and structures that the C code leaves uninitialised until the
  store fills them start as \<open>[]\<close> or zero; only what the store wrote is read.

  The theorems: whatever bytes a client sends, the store keeps its invariant; the response is a
  valid frame that answers the request; it depends neither on what the response buffer held before
  nor on request bytes past the announced length; and a well-formed request has exactly the effect
  of the store operation it names.
\<close>

unbundle bit_operations_syntax

abbreviation (input) SEMGET_SIZE :: u32 where "SEMGET_SIZE \<equiv> 12"
abbreviation (input) SEMID_SIZE :: u32 where "SEMID_SIZE \<equiv> 4"
abbreviation (input) SEMNUM_SIZE :: u32 where "SEMNUM_SIZE \<equiv> 8"
abbreviation (input) SETVAL_SIZE :: u32 where "SETVAL_SIZE \<equiv> 12"
abbreviation (input) ARRAY_PREFIX_SIZE :: u32 where "ARRAY_PREFIX_SIZE \<equiv> 8"
abbreviation (input) OP_SIZE :: "'a::numeral" where "OP_SIZE \<equiv> 8"
abbreviation (input) TIMED_OP_PREFIX_SIZE :: u32 where "TIMED_OP_PREFIX_SIZE \<equiv> 16"
abbreviation (input) METADATA_SIZE :: u32 where "METADATA_SIZE \<equiv> 56"
abbreviation (input) SETMETA_SIZE :: u32 where "SETMETA_SIZE \<equiv> 16"

record tgc_broker_actor =
  actor_pid :: int
  actor_identity :: tgc_sem_identity

definition prepare_response :: "tgc_protocol_packet \<Rightarrow> tgc_protocol_packet \<Rightarrow> tgc_protocol_packet" where
  "prepare_response request response =
     response\<lparr>header := (header response)\<lparr>version := TGC_PROTOCOL_VERSION, kind := TGC_PROTOCOL_RESPONSE,
       opcode := opcode (header request), request_id := request_id (header request),
       payload_length := 0, hdr_result := 0\<rparr>\<rparr>"

definition set_payload_length :: "u32 \<Rightarrow> tgc_protocol_packet \<Rightarrow> tgc_protocol_packet" where
  "set_payload_length n packet = packet\<lparr>header := (header packet)\<lparr>payload_length := n\<rparr>\<rparr>"

definition dispatch_semget ::
  "sys_answers \<Rightarrow> tgc_sem_store \<Rightarrow> tgc_protocol_packet \<Rightarrow> tgc_sem_identity \<Rightarrow> int \<times> tgc_sem_store" where
  "dispatch_semget sys store request identity =
     (if payload_length (header request) \<noteq> SEMGET_SIZE then (err EMSGSIZE, store)
      else
        let key = tgc_wire_get_i32 (payload request) 0;
            nsems = tgc_wire_get_i32 (payload request) 4;
            flags = tgc_wire_get_u32 (payload request) 8;
            allowed_flags = (TGC_IPC_CREAT OR TGC_IPC_EXCL OR MODE_MASK :: u32)
        in if flags AND NOT allowed_flags \<noteq> 0 then (err EINVAL, store)
           else tgc_sem_store_get_as sys store key nsems (sint flags) identity)"

definition dispatch_semnum :: "tgc_sem_store \<Rightarrow> tgc_protocol_packet \<Rightarrow> u16 \<Rightarrow> int" where
  "dispatch_semnum store request opc =
     (if payload_length (header request) \<noteq> SEMNUM_SIZE then err EMSGSIZE
      else
        let semid = tgc_wire_get_i32 (payload request) 0;
            semnum = tgc_wire_get_u32 (payload request) 4
        in if opc = TGC_OPCODE_GETVAL then tgc_sem_store_getval store semid (unat semnum)
           else if opc = TGC_OPCODE_GETPID then tgc_sem_store_getpid store semid (unat semnum)
           else tgc_sem_store_get_wait_count store semid (unat semnum) (opc = TGC_OPCODE_GETZCNT))"

definition dispatch_setval ::
  "int option \<Rightarrow> tgc_sem_store \<Rightarrow> tgc_protocol_packet \<Rightarrow> int \<Rightarrow> int \<times> tgc_sem_store" where
  "dispatch_setval now store request pid =
     (if payload_length (header request) \<noteq> SETVAL_SIZE then (err EMSGSIZE, store)
      else
        let semid = tgc_wire_get_i32 (payload request) 0;
            semnum = tgc_wire_get_u32 (payload request) 4;
            v = tgc_wire_get_u32 (payload request) 8
        in tgc_sem_store_setval now store semid (unat semnum) v pid)"

definition dispatch_getall ::
  "tgc_sem_store \<Rightarrow> tgc_protocol_packet \<Rightarrow> tgc_protocol_packet \<Rightarrow> int \<times> tgc_protocol_packet" where
  "dispatch_getall store request response =
     (if payload_length (header request) \<noteq> SEMNUM_SIZE then (err EMSGSIZE, response)
      else
        let semid = tgc_wire_get_i32 (payload request) 0;
            count = tgc_wire_get_u32 (payload request) 4
        in if count = 0 \<or> TGC_SEM_MAX_PER_SET < count then (err EINVAL, response)
           else
             let (result, vals) = tgc_sem_store_getall store semid [] (unat count)
             in if result \<noteq> 0 then (result, response)
                else
                  let body = tgc_wire_put_u32 (payload response) 0 count;
                      body = wire_put_array tgc_wire_put_u16 2 body 4 vals
                  in (0, set_payload_length (4 + count * 2) (response\<lparr>payload := body\<rparr>)))"

definition dispatch_setall ::
  "int option \<Rightarrow> tgc_sem_store \<Rightarrow> tgc_protocol_packet \<Rightarrow> int \<Rightarrow> int \<times> tgc_sem_store" where
  "dispatch_setall now store request pid =
     (if payload_length (header request) < ARRAY_PREFIX_SIZE then (err EMSGSIZE, store)
      else
        let semid = tgc_wire_get_i32 (payload request) 0;
            count = tgc_wire_get_u32 (payload request) 4
        in if count = 0 \<or> TGC_SEM_MAX_PER_SET < count \<or>
              payload_length (header request) \<noteq> ARRAY_PREFIX_SIZE + count * 2
           then (err EMSGSIZE, store)
           else
             let vals = wire_get_array tgc_wire_get_u16 2 (payload request) 8 (unat count)
             in tgc_sem_store_setall now store semid vals (unat count) pid)"

text \<open>One operation of a \<open>semop\<close> request, and the loop over the first \<open>n\<close> of them; \<open>None\<close> is the
  return of \<open>-EPROTO\<close> at the first operation whose reserved field is not zero.\<close>

definition wire_get_op :: "u8 list \<Rightarrow> nat \<Rightarrow> tgc_sem_op" where
  "wire_get_op b wire = \<lparr>sem_num = tgc_wire_get_u16 b wire, sem_op = tgc_wire_get_i16 b (wire + 2),
     sem_flg = tgc_wire_get_u16 b (wire + 4)\<rparr>"

fun decode_operations :: "u8 list \<Rightarrow> nat \<Rightarrow> nat list \<Rightarrow> tgc_sem_op list option" where
  "decode_operations b prefix_size [] = Some []"
| "decode_operations b prefix_size (i # rest) =
     (let wire = prefix_size + i * OP_SIZE in
      if tgc_wire_get_u16 b (wire + 6) \<noteq> 0 then None
      else map_option ((#) (wire_get_op b wire)) (decode_operations b prefix_size rest))"

definition dispatch_semop ::
  "int option \<Rightarrow> tgc_sem_store \<Rightarrow> tgc_protocol_packet \<Rightarrow> int \<Rightarrow> tgc_protocol_packet \<Rightarrow>
   int \<times> tgc_sem_store \<times> tgc_protocol_packet" where
  "dispatch_semop now store request pid response =
     (let prefix_size = (if opcode (header request) = TGC_OPCODE_SEMTIMEDOP
                         then TIMED_OP_PREFIX_SIZE else ARRAY_PREFIX_SIZE) in
      if payload_length (header request) < prefix_size then (err EMSGSIZE, store, response)
      else
        let semid = tgc_wire_get_i32 (payload request) 0;
            count = tgc_wire_get_u32 (payload request) 4
        in if count = 0 \<or> TGC_SEM_MAX_PER_SET < count \<or>
              payload_length (header request) \<noteq> prefix_size + count * OP_SIZE
           then (err EMSGSIZE, store, response)
           else if opcode (header request) = TGC_OPCODE_SEMTIMEDOP \<and> tgc_wire_get_i64 (payload request) 8 < 0
           then (err EINVAL, store, response)
           else
             (case decode_operations (payload request) (unat prefix_size) [0..<unat count] of
                None \<Rightarrow> (err EPROTO, store, response)
              | Some operations \<Rightarrow>
                  let (result, store, reason) = tgc_sem_store_tryop_detail now store semid operations pid
                        \<lparr>wr_sem_num = 0, wr_wait_for_zero = 0\<rparr>
                  in if result = TGC_SEM_OP_BLOCKED then
                       let body = tgc_wire_put_u16 (payload response) 0 (wr_sem_num reason);
                           body = tgc_wire_put_u16 body 2 (wr_wait_for_zero reason);
                           body = tgc_wire_put_u32 body 4 0
                       in (result, store, set_payload_length 8 (response\<lparr>payload := body\<rparr>))
                     else (result, store, response)))"

definition encode_metadata :: "tgc_protocol_packet \<Rightarrow> tgc_sem_metadata \<Rightarrow> tgc_protocol_packet" where
  "encode_metadata response metadata =
     (let body = payload response;
          body = tgc_wire_put_i32 body 0 (md_key metadata);
          body = tgc_wire_put_u32 body 4 (md_uid metadata);
          body = tgc_wire_put_u32 body 8 (md_gid metadata);
          body = tgc_wire_put_u32 body 12 (md_cuid metadata);
          body = tgc_wire_put_u32 body 16 (md_cgid metadata);
          body = tgc_wire_put_u32 body 20 (md_mode metadata);
          body = tgc_wire_put_u32 body 24 (md_nsems metadata);
          body = tgc_wire_put_u32 body 28 0;
          body = tgc_wire_put_i64 body 32 (md_otime metadata);
          body = tgc_wire_put_i64 body 40 (md_ctime metadata);
          body = tgc_wire_put_u32 body 48 (md_sequence metadata);
          body = tgc_wire_put_u32 body 52 0
      in set_payload_length METADATA_SIZE (response\<lparr>payload := body\<rparr>))"

definition dispatch_stat ::
  "tgc_sem_store \<Rightarrow> tgc_protocol_packet \<Rightarrow> tgc_protocol_packet \<Rightarrow> int \<times> tgc_protocol_packet" where
  "dispatch_stat store request response =
     (if payload_length (header request) \<noteq> SEMID_SIZE then (err EMSGSIZE, response)
      else
        let (result, metadata) =
              tgc_sem_store_get_metadata store (tgc_wire_get_i32 (payload request) 0) zero_metadata
        in if result \<noteq> 0 then (result, response) else (0, encode_metadata response metadata))"

definition dispatch_stat_index ::
  "tgc_sem_store \<Rightarrow> tgc_protocol_packet \<Rightarrow> tgc_protocol_packet \<Rightarrow> int \<times> tgc_protocol_packet" where
  "dispatch_stat_index store request response =
     (if payload_length (header request) \<noteq> SEMID_SIZE then (err EMSGSIZE, response)
      else
        let (result, metadata) =
              tgc_sem_store_stat_index store (unat (tgc_wire_get_u32 (payload request) 0)) zero_metadata
        in if result < 0 then (result, response) else (result, encode_metadata response metadata))"

definition dispatch_setmeta ::
  "int option \<Rightarrow> tgc_sem_store \<Rightarrow> tgc_protocol_packet \<Rightarrow> tgc_sem_identity \<Rightarrow> int \<times> tgc_sem_store" where
  "dispatch_setmeta now store request actor =
     (if payload_length (header request) \<noteq> SETMETA_SIZE then (err EMSGSIZE, store)
      else tgc_sem_store_set_metadata now store (tgc_wire_get_i32 (payload request) 0)
        (tgc_wire_get_u32 (payload request) 4) (tgc_wire_get_u32 (payload request) 8)
        (tgc_wire_get_u32 (payload request) 12) actor)"

definition info_fields :: "tgc_sem_info \<Rightarrow> int list" where
  "info_fields info = [semmap info, semmni info, semmns info, semmnu info, semmsl info,
     semopm info, semume info, semusz info, semvmx info, semaem info]"

definition dispatch_info ::
  "tgc_sem_store \<Rightarrow> tgc_protocol_packet \<Rightarrow> tgc_protocol_packet \<Rightarrow> int \<times> tgc_protocol_packet" where
  "dispatch_info store request response =
     (if payload_length (header request) \<noteq> 4 then (err EMSGSIZE, response)
      else
        let dynamic = tgc_wire_get_u32 (payload request) 0 in
        if 1 < dynamic then (err EINVAL, response)
        else
          let (result, info) = tgc_sem_store_info store (dynamic \<noteq> 0)
          in if result < 0 then (result, response)
             else (result, set_payload_length 40
               (response\<lparr>payload := wire_put_array tgc_wire_put_i32 4 (payload response) 0 (info_fields info)\<rparr>)))"

text \<open>The \<open>switch\<close> of \<open>tgc_broker_dispatch\<close>: the result of the operation, the store and the
  prepared response as the operation leaves them.\<close>

definition dispatch_opcode ::
  "sys_answers \<Rightarrow> tgc_sem_store \<Rightarrow> tgc_protocol_packet \<Rightarrow> tgc_broker_actor \<Rightarrow> tgc_protocol_packet \<Rightarrow>
   int \<times> tgc_sem_store \<times> tgc_protocol_packet" where
  "dispatch_opcode sys store request actor response =
     (let opc = opcode (header request); now = clock_realtime sys; pid = actor_pid actor;
          scalar = (\<lambda>(result, store). (result, store, response));
          reading = (\<lambda>(result, response). (result, store, response))
      in
      if opc = TGC_OPCODE_PING then (if payload_length (header request) = 0 then 0 else err EMSGSIZE, store, response)
      else if opc = TGC_OPCODE_SEMGET then scalar (dispatch_semget sys store request (actor_identity actor))
      else if opc = TGC_OPCODE_REMOVE then
        (if payload_length (header request) = SEMID_SIZE
         then scalar (tgc_sem_store_remove store (tgc_wire_get_i32 (payload request) 0))
         else (err EMSGSIZE, store, response))
      else if opc = TGC_OPCODE_GETVAL \<or> opc = TGC_OPCODE_GETPID \<or> opc = TGC_OPCODE_GETNCNT \<or> opc = TGC_OPCODE_GETZCNT
      then (dispatch_semnum store request opc, store, response)
      else if opc = TGC_OPCODE_SETVAL then scalar (dispatch_setval now store request pid)
      else if opc = TGC_OPCODE_GETALL then reading (dispatch_getall store request response)
      else if opc = TGC_OPCODE_SETALL then scalar (dispatch_setall now store request pid)
      else if opc = TGC_OPCODE_SEMOP \<or> opc = TGC_OPCODE_SEMTIMEDOP then dispatch_semop now store request pid response
      else if opc = TGC_OPCODE_STAT then reading (dispatch_stat store request response)
      else if opc = TGC_OPCODE_STAT_INDEX then reading (dispatch_stat_index store request response)
      else if opc = TGC_OPCODE_SETMETA then scalar (dispatch_setmeta now store request (actor_identity actor))
      else if opc = TGC_OPCODE_INFO then reading (dispatch_info store request response)
      else (err ENOSYS, store, response))"

definition tgc_broker_dispatch ::
  "sys_answers \<Rightarrow> tgc_sem_store \<Rightarrow> tgc_protocol_packet \<Rightarrow> tgc_broker_actor \<Rightarrow> tgc_protocol_packet \<Rightarrow>
   int \<times> tgc_sem_store \<times> tgc_protocol_packet" where
  "tgc_broker_dispatch sys store request actor response =
     (if actor_pid actor \<le> 0 then (err EINVAL, store, response)
      else if version (header request) \<noteq> TGC_PROTOCOL_VERSION \<or> kind (header request) \<noteq> TGC_PROTOCOL_REQUEST \<or>
         hdr_result (header request) \<noteq> 0 \<or> TGC_PROTOCOL_MAX_PAYLOAD < unat (payload_length (header request))
      then (err EPROTO, store, response)
      else
        let (result, store, response) =
              dispatch_opcode sys store request actor (prepare_response request response);
            response = response\<lparr>header := (header response)\<lparr>hdr_result := result\<rparr>\<rparr>
        in (0, store, if result < 0 then set_payload_length 0 response else response))"

subsection \<open>What a request asks of the store\<close>

text \<open>The reference for the dispatcher: the mutating store call a request decodes to, or none when it
  only reads or is malformed.\<close>

definition requested_call :: "sys_answers \<Rightarrow> tgc_protocol_packet \<Rightarrow> tgc_broker_actor \<Rightarrow> store_call option" where
  "requested_call sys request actor =
     (let opc = opcode (header request); len = unat (payload_length (header request)); b = payload request;
          semid = tgc_wire_get_i32 b 0; w = tgc_wire_get_u32 b 4; count = unat w; now = clock_realtime sys;
          pid = actor_pid actor; prefix = (if opc = 14 then 16 else 8)
      in
      if opc = 2 then
        (if len = 12 \<and> tgc_wire_get_u32 b 8 AND NOT (512 OR 1024 OR 511) = 0
         then Some (Get sys semid (sint w) (tgc_wire_get_i32 b 8) (actor_identity actor)) else None)
      else if opc = 3 then (if len = 4 then Some (Remove semid) else None)
      else if opc = 5 then (if len = 12 then Some (Setval now semid count (tgc_wire_get_u32 b 8) pid) else None)
      else if opc = 8 then
        (if 0 < count \<and> count \<le> 512 \<and> len = 8 + count * 2
         then Some (Setall now semid (wire_get_array tgc_wire_get_u16 2 b 8 count) pid) else None)
      else if opc = 9 \<or> opc = 14 then
        (if 0 < count \<and> count \<le> 512 \<and> len = prefix + count * 8 \<and> \<not> (opc = 14 \<and> tgc_wire_get_i64 b 8 < 0)
         then map_option (\<lambda>ops. Tryop now semid ops pid) (decode_operations b prefix [0..<count]) else None)
      else if opc = 13 then
        (if len = 16 then Some (SetMetadata now semid w (tgc_wire_get_u32 b 8) (tgc_wire_get_u32 b 12) (actor_identity actor))
         else None)
      else None)"

lemma u32_eq_iff: "(a::u32) = b \<longleftrightarrow> unat a = unat b"
  by (rule word_unat_eq_iff)

lemma count_arith:
  assumes "unat (count::u32) \<le> 512" "k \<le> 8" "p \<le> 16"
  shows "unat (of_nat p + count * of_nat k) = p + unat count * k"
proof -
  have "unat count * k \<le> 512 * 8" using assms by (intro mult_mono) simp_all
  moreover have "of_nat p + count * of_nat k = (of_nat (p + unat count * k) :: u32)" by simp
  ultimately show ?thesis using assms(3) by (simp only: unat_of_nat) simp
qed

text \<open>A call, or the error that replaced it.\<close>

definition exec_or_fail :: "store_call option \<Rightarrow> int \<times> tgc_sem_store \<Rightarrow> tgc_sem_store \<Rightarrow> bool" where
  "exec_or_fail c r store \<longleftrightarrow>
     (case c of None \<Rightarrow> (\<exists>e. r = (err e, store)) | Some call \<Rightarrow> r = store_exec call store)"

lemma call_semget:
  "opcode (header request) = 2 \<Longrightarrow>
   exec_or_fail (requested_call sys request actor) (dispatch_semget sys store request (actor_identity actor)) store"
  by (auto simp: exec_or_fail_def requested_call_def dispatch_semget_def Let_def u32_eq_iff tgc_wire_get_i32_def)

lemma call_setval:
  "opcode (header request) = 5 \<Longrightarrow>
   exec_or_fail (requested_call sys request actor) (dispatch_setval (clock_realtime sys) store request (actor_pid actor)) store"
  by (auto simp: exec_or_fail_def requested_call_def dispatch_setval_def Let_def u32_eq_iff)

lemma call_setmeta:
  "opcode (header request) = 13 \<Longrightarrow>
   exec_or_fail (requested_call sys request actor)
     (dispatch_setmeta (clock_realtime sys) store request (actor_identity actor)) store"
  by (auto simp: exec_or_fail_def requested_call_def dispatch_setmeta_def Let_def u32_eq_iff)

lemma call_setall:
  assumes "opcode (header request) = 8"
  shows "exec_or_fail (requested_call sys request actor)
    (dispatch_setall (clock_realtime sys) store request (actor_pid actor)) store"
proof -
  define count where "count = tgc_wire_get_u32 (payload request) 4"
  define len where "len = payload_length (header request)"
  have e: "len = 8 + count * 2 \<longleftrightarrow> unat len = 8 + unat count * 2" if "unat count \<le> 512"
    using count_arith [of count 2 8] that by (simp add: u32_eq_iff)
  have z: "count = 0 \<longleftrightarrow> \<not> 0 < unat count" "512 < count \<longleftrightarrow> \<not> unat count \<le> 512" "len < 8 \<longleftrightarrow> \<not> 8 \<le> unat len"
    by (auto simp: word_less_nat_alt unat_eq_zero)
  show ?thesis
    unfolding exec_or_fail_def requested_call_def dispatch_setall_def Let_def assms
      count_def [symmetric] len_def [symmetric] z
    using e by auto
qed

lemma decode_operations_length: "decode_operations b p ks = Some ops \<Longrightarrow> length ops = length ks"
  by (induction ks arbitrary: ops) (auto simp: Let_def split: if_splits)

lemma call_semop:
  assumes "opcode (header request) = 9 \<or> opcode (header request) = 14"
    "dispatch_semop (clock_realtime sys) store request (actor_pid actor) response = (r, store', response')"
  shows "exec_or_fail (requested_call sys request actor) (r, store') store"
proof -
  define count where "count = tgc_wire_get_u32 (payload request) 4"
  define len where "len = payload_length (header request)"
  define p where "p = (if opcode (header request) = 14 then 16 else (8::nat))"
  have pw: "(if opcode (header request) = 14 then 16 else 8) = (of_nat p :: u32)" "unat (of_nat p :: u32) = p" "p \<le> 16"
    by (simp_all add: p_def)
  have e: "len = of_nat p + count * 8 \<longleftrightarrow> unat len = p + unat count * 8" if "unat count \<le> 512"
    using count_arith [of count 8 p] that pw(3) by (simp add: u32_eq_iff)
  have z: "count = 0 \<longleftrightarrow> \<not> 0 < unat count" "512 < count \<longleftrightarrow> \<not> unat count \<le> 512"
    "len < of_nat p \<longleftrightarrow> \<not> p \<le> unat len"
    using pw(2) by (auto simp: word_less_nat_alt unat_eq_zero)
  have req: "requested_call sys request actor =
    (if 0 < unat count \<and> unat count \<le> 512 \<and> unat len = p + unat count * 8 \<and>
        \<not> (opcode (header request) = 14 \<and> tgc_wire_get_i64 (payload request) 8 < 0)
     then map_option (\<lambda>ops. Tryop (clock_realtime sys) (tgc_wire_get_i32 (payload request) 0) ops (actor_pid actor))
       (decode_operations (payload request) p [0..<unat count]) else None)"
    using assms(1) unfolding requested_call_def Let_def count_def [symmetric] len_def [symmetric] p_def
    by (cases "opcode (header request) = 14") simp_all
  define neg where "neg \<longleftrightarrow> opcode (header request) = 14 \<and> tgc_wire_get_i64 (payload request) 8 < 0"
  define ops where "ops = decode_operations (payload request) p [0..<unat count]"
  have run: "dispatch_semop (clock_realtime sys) store request (actor_pid actor) response =
    (if \<not> p \<le> unat len then (err EMSGSIZE, store, response)
     else if \<not> 0 < unat count \<or> \<not> unat count \<le> 512 \<or> len \<noteq> of_nat p + count * 8 then (err EMSGSIZE, store, response)
     else if neg then (err EINVAL, store, response)
     else case ops of None \<Rightarrow> (err EPROTO, store, response)
       | Some operations \<Rightarrow> 
           (case tgc_sem_store_tryop_detail (clock_realtime sys) store (tgc_wire_get_i32 (payload request) 0) operations
              (actor_pid actor) \<lparr>wr_sem_num = 0, wr_wait_for_zero = 0\<rparr> of (result, store, reason) \<Rightarrow>
            if result = 1 then (result, store, set_payload_length 8 (response\<lparr>payload := tgc_wire_put_u32
              (tgc_wire_put_u16 (tgc_wire_put_u16 (payload response) 0 (wr_sem_num reason)) 2 (wr_wait_for_zero reason)) 4 0\<rparr>))
            else (result, store, response)))"
    unfolding dispatch_semop_def Let_def count_def [symmetric] len_def [symmetric] pw z neg_def ops_def by (rule refl)
  show ?thesis
  proof (cases "p \<le> unat len \<and> 0 < unat count \<and> unat count \<le> 512 \<and> unat len = p + unat count * 8 \<and> \<not> neg")
    case False
    with assms(2) e show ?thesis
      unfolding run by (auto simp: exec_or_fail_def req neg_def split: if_splits)
  next
    case True
    then have c: "requested_call sys request actor =
        map_option (\<lambda>ops. Tryop (clock_realtime sys) (tgc_wire_get_i32 (payload request) 0) ops (actor_pid actor)) ops"
      using req by (simp add: neg_def ops_def)
    show ?thesis
    proof (cases ops)
      case None
      with True e assms(2) c show ?thesis unfolding run by (auto simp: exec_or_fail_def)
    next
      case (Some operations)
      with True e assms(2) have "(r, store') = tgc_sem_store_tryop (clock_realtime sys) store
          (tgc_wire_get_i32 (payload request) 0) operations (actor_pid actor)"
        unfolding run tgc_sem_store_tryop_def by (simp split: prod.splits if_splits)
      with c Some show ?thesis by (simp add: exec_or_fail_def)
    qed
  qed
qed

lemma dispatch_opcode_exec:
  assumes "dispatch_opcode sys store request actor response = (r, store', response')"
    "opcode (header request) \<in> {2, 3, 5, 8, 9, 13, 14}"
  shows "exec_or_fail (requested_call sys request actor) (r, store') store"
proof -
  let ?opc = "opcode (header request)"
  consider "?opc = 2" | "?opc = 3" | "?opc = 5" | "?opc = 8" | "?opc = 9 \<or> ?opc = 14" | "?opc = 13"
    using assms(2) by auto
  then show ?thesis
  proof cases
    case 1
    then have "dispatch_semget sys store request (actor_identity actor) = (r, store')"
      using assms(1) by (auto simp: dispatch_opcode_def split: prod.splits)
    with call_semget [OF 1, of sys actor store] show ?thesis by simp
  next
    case 2
    then show ?thesis using assms(1)
      by (auto simp: dispatch_opcode_def exec_or_fail_def requested_call_def Let_def u32_eq_iff split: prod.splits if_splits)
  next
    case 3
    then have "dispatch_setval (clock_realtime sys) store request (actor_pid actor) = (r, store')"
      using assms(1) by (auto simp: dispatch_opcode_def Let_def split: prod.splits)
    with call_setval [OF 3, of sys actor store] show ?thesis by simp
  next
    case 4
    then have "dispatch_setall (clock_realtime sys) store request (actor_pid actor) = (r, store')"
      using assms(1) by (auto simp: dispatch_opcode_def Let_def split: prod.splits)
    with call_setall [OF 4, of sys actor store] show ?thesis by simp
  next
    case 5
    then have "dispatch_semop (clock_realtime sys) store request (actor_pid actor) response = (r, store', response')"
      using assms(1) by (auto simp: dispatch_opcode_def Let_def)
    with call_semop [OF 5] show ?thesis by simp
  next
    case 6
    then have "dispatch_setmeta (clock_realtime sys) store request (actor_identity actor) = (r, store')"
      using assms(1) by (auto simp: dispatch_opcode_def Let_def split: prod.splits)
    with call_setmeta [OF 6, of sys actor store] show ?thesis by simp
  qed
qed

lemma dispatch_opcode_read:
  assumes "dispatch_opcode sys store request actor response = (r, store', response')"
    "opcode (header request) \<notin> {2, 3, 5, 8, 9, 13, 14}"
  shows "requested_call sys request actor = None" "store' = store"
  using assms by (auto simp: dispatch_opcode_def requested_call_def Let_def split: prod.splits if_splits)

lemma dispatch_opcode_store:
  assumes "dispatch_opcode sys store request actor response = (r, store', response')"
  shows "store' = (case requested_call sys request actor of None \<Rightarrow> store | Some c \<Rightarrow> snd (store_exec c store)) \<and>
    (\<forall>c. requested_call sys request actor = Some c \<longrightarrow> r = fst (store_exec c store))"
proof (cases "opcode (header request) \<in> {2, 3, 5, 8, 9, 13, 14}")
  case True
  from dispatch_opcode_exec [OF assms True] show ?thesis
    by (cases "requested_call sys request actor")
      (auto simp: exec_or_fail_def dest: arg_cong [where f = fst] arg_cong [where f = snd])
next
  case False
  from dispatch_opcode_read [OF assms False] show ?thesis by simp
qed

lemma get_i32_in_i32 [simp]: "in_i32 (tgc_wire_get_i32 b off)"
  by (simp add: tgc_wire_get_i32_def)

lemma requested_call_ok:
  assumes "requested_call sys request actor = Some c" "in_i32 (actor_pid actor)" "clock_ok (clock_realtime sys)"
  shows "store_call_ok c"
  using assms by (auto simp: requested_call_def Let_def split: if_splits)

lemma dispatch_cases:
  obtains (refused) "tgc_broker_dispatch sys store request actor response = (err EINVAL, store, response) \<or>
      tgc_broker_dispatch sys store request actor response = (err EPROTO, store, response)"
  | (answered) r store' response' where "0 < actor_pid actor" "version (header request) = 1" "kind (header request) = 1"
      "hdr_result (header request) = 0" "unat (payload_length (header request)) \<le> 8192"
      "dispatch_opcode sys store request actor (prepare_response request response) = (r, store', response')"
      "tgc_broker_dispatch sys store request actor response = (0, store',
         response'\<lparr>header := (header response')\<lparr>hdr_result := r,
           payload_length := (if r < 0 then 0 else payload_length (header response'))\<rparr>\<rparr>)"
proof (cases "actor_pid actor \<le> 0 \<or> version (header request) \<noteq> 1 \<or> kind (header request) \<noteq> 1 \<or>
    hdr_result (header request) \<noteq> 0 \<or> 8192 < unat (payload_length (header request))")
  case True
  then show ?thesis by (intro refused) (auto simp: tgc_broker_dispatch_def)
next
  case False
  obtain r store' response' where
    d: "dispatch_opcode sys store request actor (prepare_response request response) = (r, store', response')"
    by (cases "dispatch_opcode sys store request actor (prepare_response request response)")
  from False show ?thesis
    by (intro answered [OF _ _ _ _ _ d]) (auto simp: tgc_broker_dispatch_def d set_payload_length_def)
qed

lemma inv_dispatch:
  assumes inv: "store_inv store" and pid: "in_i32 (actor_pid actor)" and clock: "clock_ok (clock_realtime sys)"
  shows "store_inv (fst (snd (tgc_broker_dispatch sys store request actor response)))"
proof (cases rule: dispatch_cases [of sys store request actor response])
  case refused
  with inv show ?thesis by auto
next
  case (answered r store' response')
  have "store_inv (case requested_call sys request actor of None \<Rightarrow> store | Some c \<Rightarrow> snd (store_exec c store))"
    using inv requested_call_ok [OF _ pid clock] by (auto simp: inv_store_exec split: option.splits)
  with answered(7) dispatch_opcode_store [OF answered(6)] show ?thesis by simp
qed

subsection \<open>The response is a frame\<close>

lemma semop_result_cases: "fst (sv_semop st semid ops pid) \<in> {0, 1} \<union> range err"
  by (auto simp: sv_semop_def split: option.splits if_splits sv_outcome.splits)

lemma store_exec_in_i32:
  assumes inv: "store_inv store" and ok: "store_call_ok c"
  shows "in_i32 (fst (store_exec c store))"
proof (cases c)
  case (Get sys key n flags identity)
  then show ?thesis
    by (cases rule: get_as_cases [of sys store key n flags identity]) simp_all
next
  case (Tryop now semid ops pid)
  with ok refine_semop [OF inv, of pid semid now ops] have
    "fst (store_exec c store) = fst (sv_semop (sv_of store) semid ops pid)"
    by (metis fst_map_prod id_apply store_call_ok.simps(7) store_exec.simps(7))
  then show ?thesis using semop_result_cases [of "sv_of store" semid ops pid] by auto
next
  case (ProcessExit now pid)
  with ok refine_process_exit(3) [OF inv, of pid now] show ?thesis
    by (cases "pid \<le> 0") (auto simp: tgc_sem_store_process_exit_def)
qed (simp_all add: tgc_sem_store_remove_def tgc_sem_store_setval_def tgc_sem_store_setall_def
    tgc_sem_store_set_metadata_def tgc_sem_store_adjust_wait_count_def Let_def split: option.split)

lemma reading_in_i32:
  assumes inv: "store_inv store"
  shows "in_i32 (tgc_sem_store_getval store semid n)" "in_i32 (tgc_sem_store_getpid store semid n)"
    "in_i32 (tgc_sem_store_get_wait_count store semid n z)"
proof -
  show "in_i32 (tgc_sem_store_getval store semid n)"
    by (simp add: tgc_sem_store_getval_def Let_def split: option.split)
  show "in_i32 (tgc_sem_store_getpid store semid n)"
  proof (cases "find_set store semid")
    case (Some k)
    with find_set_ok [OF inv Some] show ?thesis
      by (simp add: tgc_sem_store_getpid_def Let_def set_ok_def)
  qed (simp add: tgc_sem_store_getpid_def)
  have "in_i32 (uint c)" if "\<not> 2147483647 < c" for c :: u32
  proof -
    have "uint c \<le> 2147483647" using that by (simp add: word_less_def)
    then show ?thesis unfolding in_i32_def using uint_ge_0 [of c] by linarith
  qed
  then show "in_i32 (tgc_sem_store_get_wait_count store semid n z)"
    by (simp add: tgc_sem_store_get_wait_count_def Let_def split: option.split)
qed

text \<open>What an operation may do to the prepared response: write its payload and set its length.\<close>

definition fills :: "tgc_protocol_packet \<Rightarrow> tgc_protocol_packet \<Rightarrow> bool" where
  "fills p q \<longleftrightarrow> header q = (header p)\<lparr>payload_length := payload_length (header q)\<rparr> \<and>
     unat (payload_length (header q)) \<le> 8192 \<and> length (payload q) = length (payload p)"

lemma fills_sel:
  assumes "fills p q"
  shows "version (header q) = version (header p)" "kind (header q) = kind (header p)"
    "opcode (header q) = opcode (header p)" "request_id (header q) = request_id (header p)"
    "hdr_result (header q) = hdr_result (header p)"
proof -
  from assms have eq: "header q = (header p)\<lparr>payload_length := payload_length (header q)\<rparr>" by (simp add: fills_def)
  show "version (header q) = version (header p)" using arg_cong [OF eq, of version] by simp
  show "kind (header q) = kind (header p)" using arg_cong [OF eq, of kind] by simp
  show "opcode (header q) = opcode (header p)" using arg_cong [OF eq, of opcode] by simp
  show "request_id (header q) = request_id (header p)" using arg_cong [OF eq, of request_id] by simp
  show "hdr_result (header q) = hdr_result (header p)" using arg_cong [OF eq, of hdr_result] by simp
qed

lemma fills_refl: "unat (payload_length (header p)) \<le> 8192 \<Longrightarrow> fills p p"
  by (simp add: fills_def)

lemma fills_set:
  "unat n \<le> 8192 \<Longrightarrow> length b = length (payload p) \<Longrightarrow> fills p (set_payload_length n (p\<lparr>payload := b\<rparr>))"
  by (simp add: fills_def set_payload_length_def)

lemma fills_encode_metadata: "fills p (encode_metadata p md)"
  unfolding encode_metadata_def Let_def by (rule fills_set) simp_all

lemma fills_getall:
  assumes "fills p p" "dispatch_getall store request p = (r, q)"
  shows "fills p q"
proof -
  have n: "unat (4 + tgc_wire_get_u32 (payload request) 4 * 2) \<le> 8192" if "\<not> 512 < tgc_wire_get_u32 (payload request) 4"
    using that count_arith [of "tgc_wire_get_u32 (payload request) 4" 2 4] by (simp add: word_less_nat_alt)
  show ?thesis
    using assms by (auto simp: dispatch_getall_def Let_def u16.put_array_length intro!: fills_set n split: if_splits prod.splits)
qed

lemma fills_dispatch_opcode:
  assumes "fills p p" "dispatch_opcode sys store request actor p = (r, store', q)"
  shows "fills p q"
proof -
  have s: "fills p q" if "dispatch_semop now store request pid p = (r, store', q)" for now pid
    using that assms(1) by (auto simp: dispatch_semop_def Let_def intro!: fills_set split: if_splits prod.splits option.splits)
  have t: "fills p q" if "dispatch_stat store request p = (r, q)"
    using that assms(1) by (auto simp: dispatch_stat_def Let_def fills_encode_metadata split: if_splits prod.splits)
  have ti: "fills p q" if "dispatch_stat_index store request p = (r, q)"
    using that assms(1) by (auto simp: dispatch_stat_index_def Let_def fills_encode_metadata split: if_splits prod.splits)
  have i: "fills p q" if "dispatch_info store request p = (r, q)"
    using that assms(1) by (auto simp: dispatch_info_def Let_def i32.put_array_length intro!: fills_set split: if_splits prod.splits)
  show ?thesis
    using assms(2) assms(1) s t ti i fills_getall [OF assms(1)]
    unfolding dispatch_opcode_def Let_def by (simp split: if_splits prod.splits)
qed

lemma dispatch_opcode_in_i32:
  assumes inv: "store_inv store" and pid: "in_i32 (actor_pid actor)" and clock: "clock_ok (clock_realtime sys)"
    and run: "dispatch_opcode sys store request actor p = (r, store', q)"
  shows "in_i32 r"
proof (cases "opcode (header request) \<in> {2, 3, 5, 8, 9, 13, 14}")
  case True
  from dispatch_opcode_exec [OF run True] requested_call_ok [OF _ pid clock] show ?thesis
    using store_exec_in_i32 [OF inv] by (fastforce simp: exec_or_fail_def split: option.splits dest: arg_cong [where f = fst])
next
  case False
  have m: "in_i32 (fst (tgc_sem_store_get_metadata store semid md))" for semid md
    by (simp add: tgc_sem_store_get_metadata_def Let_def split: option.split)
  have info: "in_i32 (fst (tgc_sem_store_info store d))" for d
  proof -
    let ?A = "{i. i < 128 \<and> set_active (sets store ! i)}"
    have "?A \<noteq> {} \<Longrightarrow> Max ?A \<in> ?A" by (intro Max_in) simp_all
    then have "?A \<noteq> {} \<Longrightarrow> Max ?A < 128" by simp
    moreover have "length (sets store) = 128" using inv by (simp add: store_inv_def)
    ultimately show ?thesis
      unfolding tgc_sem_store_info_def by (auto simp: info_fold Let_def in_i32_def)
  qed
  have si: "in_i32 (fst (tgc_sem_store_stat_index store n md))" for n md
    using m by (simp add: tgc_sem_store_stat_index_def case_prod_beta Let_def)
  have ga: "in_i32 (fst (tgc_sem_store_getall store semid b n))" for semid b n
    by (simp add: tgc_sem_store_getall_def Let_def split: option.split)
  have "in_i32 (dispatch_semnum store request opc)" for opc
    using reading_in_i32 [OF inv] by (simp add: dispatch_semnum_def Let_def)
  moreover have "in_i32 (fst (dispatch_getall store request p))"
    using ga by (simp add: dispatch_getall_def Let_def case_prod_beta)
  moreover have "in_i32 (fst (dispatch_stat store request p))"
    using m by (simp add: dispatch_stat_def Let_def case_prod_beta)
  moreover have "in_i32 (fst (dispatch_stat_index store request p))"
    using si by (simp add: dispatch_stat_index_def Let_def case_prod_beta)
  moreover have "in_i32 (fst (dispatch_info store request p))"
    using info by (simp add: dispatch_info_def Let_def case_prod_beta)
  ultimately have "in_i32 (fst (dispatch_opcode sys store request actor p))"
    using False by (simp add: dispatch_opcode_def Let_def case_prod_beta)
  then show ?thesis using run by simp
qed

lemma dispatch_frame:
  assumes "store_inv store" "in_i32 (actor_pid actor)" "clock_ok (clock_realtime sys)" "length (payload response) = 8192"
    and "tgc_broker_dispatch sys store request actor response = (0, store', response')"
  shows "packet_ok response' \<and> opcode (header response') = opcode (header request) \<and>
    request_id (header response') = request_id (header request) \<and>
    (hdr_result (header response') < 0 \<longrightarrow> payload_length (header response') = 0) \<and>
    unat (payload_length (header response')) \<le> 8192 \<and>
    (1 \<le> opcode (header request) \<and> opcode (header request) \<le> 16 \<longrightarrow> header_is_valid (header response') = 0)"
proof (cases rule: dispatch_cases [of sys store request actor response])
  case refused
  with assms(5) show ?thesis by auto
next
  case (answered r store1 response1)
  have p: "fills (prepare_response request response) (prepare_response request response)"
    by (rule fills_refl) (simp add: prepare_response_def)
  note f = fills_dispatch_opcode [OF p answered(6)]
  have i: "in_i32 r" using dispatch_opcode_in_i32 [OF assms(1-3) answered(6)] .
  have h: "version (header response1) = 1" "kind (header response1) = 2"
    "opcode (header response1) = opcode (header request)" "request_id (header response1) = request_id (header request)"
    "unat (payload_length (header response1)) \<le> 8192" "length (payload response1) = 8192"
    using fills_sel [OF f] f assms(4) by (simp_all add: prepare_response_def fills_def)
  with answered(7) assms(5) i show ?thesis
    by (auto simp: packet_ok_def header_is_valid_def)
qed

text \<open>C28. Every request that is answered gets a valid frame back: the response carries the request's opcode
  and identifier, its result is a 32-bit integer, an error has no payload, the payload fits the packet,
  and the encoder accepts its header whenever the request's opcode is one the protocol defines.\<close>

theorem response_is_frame:
  assumes "store_inv store" "in_i32 (actor_pid actor)" "clock_ok (clock_realtime sys)" "length (payload response) = 8192"
    and "tgc_broker_dispatch sys store request actor response = (0, store', response')"
  shows "packet_ok response' \<and> opcode (header response') = opcode (header request) \<and>
    request_id (header response') = request_id (header request) \<and>
    (hdr_result (header response') < 0 \<longrightarrow> payload_length (header response') = 0) \<and>
    unat (payload_length (header response')) \<le> 8192 \<and>
    (1 \<le> opcode (header request) \<and> opcode (header request) \<le> 16 \<longrightarrow> header_is_valid (header response') = 0)"
  using assms by (rule dispatch_frame)

definition ping_request :: tgc_protocol_packet where
  "ping_request = \<lparr>header = \<lparr>version = 1, kind = 1, opcode = 1, request_id = 5, payload_length = 0, hdr_result = 0\<rparr>,
     payload = replicate 8192 0\<rparr>"

definition example_actor :: tgc_broker_actor where
  "example_actor = \<lparr>actor_pid = 77, actor_identity = \<lparr>id_uid = 10, id_gid = 20\<rparr>\<rparr>"

definition example_sys :: sys_answers where
  "example_sys = \<lparr>clock_realtime = Some 1000, calloc_ok = (\<lambda>i. True)\<rparr>"

lemma example_sys_ok [simp]: "clock_ok (clock_realtime example_sys)" "in_i32 (actor_pid example_actor)"
  by (simp_all add: example_sys_def example_actor_def clock_ok_def current_time_seconds_def in_i64_def in_i32_def)

definition ping_response :: tgc_protocol_packet where
  "ping_response = ping_request\<lparr>header := (header ping_request)\<lparr>kind := 2\<rparr>\<rparr>"

lemma ping_dispatch:
  "tgc_broker_dispatch example_sys store ping_request example_actor ping_request = (0, store, ping_response)"
  by (simp add: tgc_broker_dispatch_def ping_request_def ping_response_def example_actor_def dispatch_opcode_def
      prepare_response_def)

theorem response_is_frame_witness:
  "packet_ok ping_response \<and> opcode (header ping_response) = 1 \<and> request_id (header ping_response) = 5 \<and>
   header_is_valid (header ping_response) = 0"
  using response_is_frame [OF example_store_inv example_sys_ok(2,1) _ ping_dispatch]
  by (simp add: ping_request_def)

subsection \<open>No hidden inputs\<close>

text \<open>Two response packets ready to be filled.\<close>

definition blank_pair :: "tgc_protocol_packet \<Rightarrow> tgc_protocol_packet \<Rightarrow> bool" where
  "blank_pair p q \<longleftrightarrow> header p = header q \<and> payload_length (header p) = 0 \<and>
     length (payload p) = 8192 \<and> length (payload q) = 8192"

lemma blank_same: "blank_pair p q \<Longrightarrow> same_frame p q"
  by (auto simp: blank_pair_def same_frame_def)

lemma blank_fill:
  assumes "blank_pair p q" "agree (unat n) b c"
  shows "same_frame (set_payload_length n (p\<lparr>payload := b\<rparr>)) (set_payload_length n (q\<lparr>payload := c\<rparr>))"
  using assms by (simp add: same_frame_def blank_pair_def set_payload_length_def)

lemma blank_agree_0: "blank_pair p q \<Longrightarrow> agree 0 (payload p) (payload q)"
  by (simp add: blank_pair_def)

lemma getall_values_length:
  "store_inv store \<Longrightarrow> tgc_sem_store_getall store semid [] n = (0, vals) \<Longrightarrow> length vals = n"
  using length_values by (fastforce simp: tgc_sem_store_getall_def Let_def split: option.splits if_splits)

lemma same_getall:
  assumes bl: "blank_pair p q" and inv: "store_inv store"
  shows "rel_prod (=) same_frame (dispatch_getall store request p) (dispatch_getall store request q)"
proof -
  define count where "count = tgc_wire_get_u32 (payload request) 4"
  define semid where "semid = tgc_wire_get_i32 (payload request) 0"
  obtain r vals where g: "tgc_sem_store_getall store semid [] (unat count) = (r, vals)" by fastforce
  show ?thesis
  proof (cases "payload_length (header request) = 8 \<and> count \<noteq> 0 \<and> \<not> 512 < count \<and> r = 0")
    case False
    then show ?thesis
      using blank_same [OF bl] g by (auto simp: dispatch_getall_def Let_def count_def semid_def)
  next
    case True
    have le: "unat count \<le> 512" using True by (simp add: word_less_nat_alt)
    have v: "length vals = unat count" using getall_values_length [OF inv] g True by blast
    have "agree 4 (tgc_wire_put_u32 (payload p) 0 count) (tgc_wire_put_u32 (payload q) 0 count)"
      using u32.put_agree [OF blank_agree_0 [OF bl], of count] bl by (simp add: blank_pair_def)
    from u16.put_array_agree [OF this, of vals] bl le v
    have "agree (unat (4 + count * 2)) (wire_put_array tgc_wire_put_u16 2 (tgc_wire_put_u32 (payload p) 0 count) 4 vals)
        (wire_put_array tgc_wire_put_u16 2 (tgc_wire_put_u32 (payload q) 0 count) 4 vals)"
      using count_arith [of count 2 4] by (simp add: blank_pair_def)
    from blank_fill [OF bl this] True g show ?thesis
      by (simp add: dispatch_getall_def Let_def count_def [symmetric] semid_def [symmetric])
  qed
qed

lemma same_encode_metadata:
  assumes bl: "blank_pair p q"
  shows "same_frame (encode_metadata p md) (encode_metadata q md)"
  unfolding encode_metadata_def Let_def
proof (rule blank_fill [OF bl], goal_cases)
  case 1
  note len = bl [unfolded blank_pair_def]
  have "agree (0 + 4) (tgc_wire_put_i32 (payload p) 0 (md_key md)) (tgc_wire_put_i32 (payload q) 0 (md_key md))"
    using len by (intro i32.put_agree blank_agree_0 [OF bl]) simp
  then show ?case
    using len
    by (auto intro!: i32.put_agree [of 0, simplified] u32.put_agree [of 4, simplified] u32.put_agree [of 8, simplified]
      u32.put_agree [of 12, simplified] u32.put_agree [of 16, simplified] u32.put_agree [of 20, simplified]
      u32.put_agree [of 24, simplified] u32.put_agree [of 28, simplified] i64.put_agree [of 32, simplified]
      i64.put_agree [of 40, simplified] u32.put_agree [of 48, simplified] u32.put_agree [of 52, simplified])
qed

lemma same_semop:
  assumes bl: "blank_pair p q"
  shows "rel_prod (=) (rel_prod (=) same_frame) (dispatch_semop now store request pid p) (dispatch_semop now store request pid q)"
proof -
  note len = bl [unfolded blank_pair_def]
  have "agree 8 (tgc_wire_put_u32 (tgc_wire_put_u16 (tgc_wire_put_u16 (payload p) 0 a) 2 b) 4 c)
      (tgc_wire_put_u32 (tgc_wire_put_u16 (tgc_wire_put_u16 (payload q) 0 a) 2 b) 4 c)" for a b c
  proof -
    have "agree (0 + 2) (tgc_wire_put_u16 (payload p) 0 a) (tgc_wire_put_u16 (payload q) 0 a)"
      using len by (intro u16.put_agree blank_agree_0 [OF bl]) simp
    then have "agree 2 (tgc_wire_put_u16 (payload p) 0 a) (tgc_wire_put_u16 (payload q) 0 a)" by (simp only: add_0)
    then have "agree (2 + 2) (tgc_wire_put_u16 (tgc_wire_put_u16 (payload p) 0 a) 2 b)
        (tgc_wire_put_u16 (tgc_wire_put_u16 (payload q) 0 a) 2 b)"
      using len by (intro u16.put_agree) simp_all
    then have "agree 4 (tgc_wire_put_u16 (tgc_wire_put_u16 (payload p) 0 a) 2 b)
        (tgc_wire_put_u16 (tgc_wire_put_u16 (payload q) 0 a) 2 b)" by simp
    from u32.put_agree [OF this, of c] show ?thesis using len by simp
  qed
  then have f: "same_frame (set_payload_length 8 (p\<lparr>payload := tgc_wire_put_u32 (tgc_wire_put_u16 (tgc_wire_put_u16 (payload p) 0 a) 2 b) 4 c\<rparr>))
      (set_payload_length 8 (q\<lparr>payload := tgc_wire_put_u32 (tgc_wire_put_u16 (tgc_wire_put_u16 (payload q) 0 a) 2 b) 4 c\<rparr>))" for a b c
    by (intro blank_fill [OF bl]) simp
  show ?thesis
    using f blank_same [OF bl] by (simp add: dispatch_semop_def Let_def split: option.split prod.split)
qed

lemma same_info:
  assumes bl: "blank_pair p q"
  shows "rel_prod (=) same_frame (dispatch_info store request p) (dispatch_info store request q)"
proof -
  note len = bl [unfolded blank_pair_def]
  have "agree 40 (wire_put_array tgc_wire_put_i32 4 (payload p) 0 (info_fields i))
      (wire_put_array tgc_wire_put_i32 4 (payload q) 0 (info_fields i))" for i
    using i32.put_array_agree [OF blank_agree_0 [OF bl], of "info_fields i"] len by (simp add: info_fields_def)
  then have f: "same_frame (set_payload_length 40 (p\<lparr>payload := wire_put_array tgc_wire_put_i32 4 (payload p) 0 (info_fields i)\<rparr>))
      (set_payload_length 40 (q\<lparr>payload := wire_put_array tgc_wire_put_i32 4 (payload q) 0 (info_fields i)\<rparr>))" for i
    by (intro blank_fill [OF bl]) simp
  show ?thesis
    using f blank_same [OF bl] by (simp add: dispatch_info_def Let_def split: prod.split)
qed

lemma same_opcode:
  assumes bl: "blank_pair p q" and inv: "store_inv store"
  shows "rel_prod (=) (rel_prod (=) same_frame) (dispatch_opcode sys store request actor p)
    (dispatch_opcode sys store request actor q)"
proof -
  have stat: "rel_prod (=) same_frame (dispatch_stat store request p) (dispatch_stat store request q)"
    using blank_same [OF bl] same_encode_metadata [OF bl] by (simp add: dispatch_stat_def Let_def split: prod.split)
  have stat_index: "rel_prod (=) same_frame (dispatch_stat_index store request p) (dispatch_stat_index store request q)"
    using blank_same [OF bl] same_encode_metadata [OF bl] by (simp add: dispatch_stat_index_def Let_def split: prod.split)
  have lift: "rel_prod (=) (rel_prod (=) same_frame) (case a of (r, x) \<Rightarrow> (r, store, x)) (case b of (r, x) \<Rightarrow> (r, store, x))"
    if "rel_prod (=) same_frame a b" for a b
    using that by (auto split: prod.splits)
  have scalar: "rel_prod (=) (rel_prod (=) same_frame) (case a of (r, s) \<Rightarrow> (r, s, p)) (case a of (r, s) \<Rightarrow> (r, s, q))"
    for a :: "int \<times> tgc_sem_store"
    using blank_same [OF bl] by (simp split: prod.split)
  show ?thesis
    using same_getall [OF bl inv] stat stat_index same_info [OF bl] same_semop [OF bl] blank_same [OF bl]
    unfolding dispatch_opcode_def Let_def by (simp add: lift scalar)
qed


text \<open>C29. A response leaks nothing: whatever the response packet held before the dispatch, the status,
  the store and everything that goes on the wire are the same.\<close>

theorem response_leaks_nothing:
  assumes inv: "store_inv store" and len: "length (payload a) = 8192" "length (payload b) = 8192"
    and run: "tgc_broker_dispatch sys store request actor a = (s, store1, a')"
      "tgc_broker_dispatch sys store request actor b = (t, store2, b')"
  shows "s = t \<and> store1 = store2 \<and> (s = 0 \<longrightarrow> same_frame a' b')"
proof -
  have "blank_pair (prepare_response request a) (prepare_response request b)"
    using len by (simp add: blank_pair_def prepare_response_def)
  from same_opcode [OF this inv, of sys request actor]
  obtain r st p q where d: "dispatch_opcode sys store request actor (prepare_response request a) = (r, st, p)"
    "dispatch_opcode sys store request actor (prepare_response request b) = (r, st, q)" "same_frame p q"
    by (auto simp: rel_prod_conv split: prod.splits)
  have lp: "length (payload p) = length (payload q)" using d(3) by (simp add: same_frame_def agree_def)
  show ?thesis
    using run d lp unfolding tgc_broker_dispatch_def d
    by (auto simp: same_frame_def set_payload_length_def Let_def split: if_splits)
qed

theorem response_leaks_nothing_witness:
  "same_frame ping_response (ping_response\<lparr>payload := replicate 8192 170\<rparr>)"
proof -
  have "tgc_broker_dispatch example_sys example_store ping_request example_actor (ping_request\<lparr>payload := replicate 8192 170\<rparr>) =
      (0, example_store, ping_response\<lparr>payload := replicate 8192 170\<rparr>)"
    by (simp add: tgc_broker_dispatch_def ping_request_def ping_response_def example_actor_def dispatch_opcode_def
        prepare_response_def)
  from response_leaks_nothing [OF example_store_inv _ _ ping_dispatch this] show ?thesis
    by (simp add: ping_request_def)
qed

lemma agree_decode_operations:
  assumes "agree n b c" "\<forall>i\<in>set ks. p + i * 8 + 8 \<le> n"
  shows "decode_operations b p ks = decode_operations c p ks"
  using assms(2)
proof (induction ks)
  case (Cons i ks)
  have le: "p + i * 8 + 8 \<le> n" using Cons.prems by simp
  have "tgc_wire_get_u16 b (p + i * 8 + 6) = tgc_wire_get_u16 c (p + i * 8 + 6)"
    using u16.get_agree [OF assms(1), of "p + i * 8 + 6"] le by simp
  moreover have "wire_get_op b (p + i * 8) = wire_get_op c (p + i * 8)"
    using le u16.get_agree [OF assms(1)] i16.get_agree [OF assms(1)] by (simp add: wire_get_op_def)
  ultimately show ?case using Cons by (simp add: Let_def)
qed simp

lemma agree_semop:
  assumes ag: "agree (unat (payload_length h)) b c"
  shows "dispatch_semop now store \<lparr>header = h, payload = b\<rparr> pid p = dispatch_semop now store \<lparr>header = h, payload = c\<rparr> pid p"
proof -
  define prefix where "prefix = (if opcode h = 14 then 16 else 8 :: u32)"
  define count where "count = tgc_wire_get_u32 c 4"
  have px: "unat prefix = (if opcode h = 14 then 16 else 8)" by (simp add: prefix_def)
  show ?thesis
  proof (cases "payload_length h < prefix")
    case True
    then show ?thesis by (simp add: dispatch_semop_def prefix_def)
  next
    case False
    then have le: "unat prefix \<le> unat (payload_length h)" by (simp add: word_less_nat_alt)
    then have ge: "8 \<le> unat (payload_length h)" by (auto simp: px split: if_splits)
    have g: "tgc_wire_get_u32 b 4 = count" "tgc_wire_get_i32 b 0 = tgc_wire_get_i32 c 0"
      using u32.get_agree [OF ag, of 4] i32.get_agree [OF ag, of 0] ge by (simp_all add: count_def)
    show ?thesis
    proof (cases "count = 0 \<or> 512 < count \<or> payload_length h \<noteq> prefix + count * 8")
      case True
      then show ?thesis by (simp add: dispatch_semop_def Let_def g count_def [symmetric] prefix_def)
    next
      case no: False
      then have "unat (payload_length h) = unat prefix + unat count * 8"
        using count_arith [of count 8 "unat prefix"] px by (simp add: word_less_nat_alt prefix_def)
      then have "decode_operations b (unat prefix) [0..<unat count] = decode_operations c (unat prefix) [0..<unat count]"
        by (intro agree_decode_operations [OF ag]) auto
      moreover have "opcode h = 14 \<and> tgc_wire_get_i64 b 8 < 0 \<longleftrightarrow> opcode h = 14 \<and> tgc_wire_get_i64 c 8 < 0"
        using i64.get_agree [OF ag, of 8] le px by auto
      ultimately show ?thesis
        using no False by (simp add: dispatch_semop_def Let_def g count_def [symmetric] prefix_def [symmetric])
    qed
  qed
qed


lemma agree_opcode:
  assumes ag: "agree (unat (payload_length h)) b c"
  shows "dispatch_opcode sys store \<lparr>header = h, payload = b\<rparr> actor p = dispatch_opcode sys store \<lparr>header = h, payload = c\<rparr> actor p"
proof -
  have g32: "tgc_wire_get_u32 b k = tgc_wire_get_u32 c k" "tgc_wire_get_i32 b k = tgc_wire_get_i32 c k"
    if "k + 4 \<le> unat (payload_length h)" for k
    using u32.get_agree [OF ag] i32.get_agree [OF ag] that by simp_all
  note d = dispatch_semget_def dispatch_semnum_def dispatch_setval_def dispatch_getall_def dispatch_stat_def
    dispatch_stat_index_def dispatch_setmeta_def dispatch_info_def
  have all: "dispatch_setall now store \<lparr>header = h, payload = b\<rparr> pid = dispatch_setall now store \<lparr>header = h, payload = c\<rparr> pid" for now pid
  proof (cases "payload_length h < 8")
    case False
    then have ge: "8 \<le> unat (payload_length h)" by (simp add: word_less_nat_alt)
    have "wire_get_array tgc_wire_get_u16 2 b 8 (unat (tgc_wire_get_u32 c 4)) = wire_get_array tgc_wire_get_u16 2 c 8 (unat (tgc_wire_get_u32 c 4))"
      if "\<not> 512 < tgc_wire_get_u32 c 4" "payload_length h = 8 + tgc_wire_get_u32 c 4 * 2"
      using u16.get_array_agree [OF ag, of 8 "unat (tgc_wire_get_u32 c 4)"] that count_arith [of "tgc_wire_get_u32 c 4" 2 8]
      by (simp add: word_less_nat_alt)
    then show ?thesis using ge by (auto simp: dispatch_setall_def Let_def g32)
  qed (simp add: dispatch_setall_def)
  show ?thesis
    unfolding dispatch_opcode_def
    by (simp add: Let_def agree_semop [OF ag] all d g32 u32_eq_iff cong: if_cong)
qed

text \<open>C30. The dispatcher reads nothing of a request beyond its header and the payload bytes that header
  announces: what an earlier request left in the packet buffer cannot influence the answer.\<close>

theorem request_tail_ignored:
  assumes ag: "agree (unat (payload_length h)) b c"
  shows "tgc_broker_dispatch sys store \<lparr>header = h, payload = b\<rparr> actor response =
         tgc_broker_dispatch sys store \<lparr>header = h, payload = c\<rparr> actor response"
  unfolding tgc_broker_dispatch_def by (simp add: agree_opcode [OF ag] prepare_response_def cong: if_cong)

theorem request_tail_ignored_witness:
  "tgc_broker_dispatch example_sys example_store \<lparr>header = header ping_request, payload = replicate 8192 170\<rparr> example_actor ping_request
     = (0, example_store, ping_response)"
  using request_tail_ignored [of "header ping_request" "replicate 8192 170" "replicate 8192 0" example_sys
      example_store example_actor ping_request]
  by (simp add: ping_dispatch [unfolded ping_request_def] ping_request_def agree_def ping_response_def)


subsection \<open>Histories of requests\<close>

text \<open>One request as the broker sees it: the answers of the system during its execution, the request,
  the authenticated actor, and the response buffer. The result is the status with the response.\<close>

type_synonym dispatch_event = "sys_answers \<times> tgc_protocol_packet \<times> tgc_broker_actor \<times> tgc_protocol_packet"

definition dispatch_exec :: "dispatch_event \<Rightarrow> tgc_sem_store \<Rightarrow> (int \<times> tgc_protocol_packet) \<times> tgc_sem_store" where
  "dispatch_exec event store =
     (let (sys, request, actor, response) = event;
          (status, store, response) = tgc_broker_dispatch sys store request actor response
      in ((status, response), store))"

definition dispatch_event_ok :: "dispatch_event \<Rightarrow> bool" where
  "dispatch_event_ok event =
     (case event of (sys, request, actor, response) \<Rightarrow> in_i32 (actor_pid actor) \<and> clock_ok (clock_realtime sys))"

text \<open>The contract of the dispatcher over the abstract semaphores: a refused request changes nothing; an
  accepted one performs the call it decodes to and reports that call's result, or changes nothing.\<close>

definition request_step :: "dispatch_event \<Rightarrow> sysv \<Rightarrow> int \<times> tgc_protocol_packet \<Rightarrow> sysv \<Rightarrow> bool" where
  "request_step event st outcome st' =
     (case event of (sys, request, actor, response) \<Rightarrow>
      if fst outcome \<noteq> 0 then st' = st
      else case requested_call sys request actor of
             None \<Rightarrow> st' = st
           | Some c \<Rightarrow> sv_step c st (hdr_result (header (snd outcome))) st')"

interpretation dispatch_calls: call_system dispatch_exec dispatch_event_ok store_inv
  by unfold_locales
    (auto simp: dispatch_exec_def dispatch_event_ok_def Let_def case_prod_beta inv_dispatch)

lemma dispatch_request_step:
  assumes inv: "store_inv store" and ok: "dispatch_event_ok event"
  shows "request_step event (sv_of store) (fst (dispatch_exec event store)) (sv_of (snd (dispatch_exec event store)))"
proof -
  obtain sys request actor response where ev: "event = (sys, request, actor, response)" by (cases event)
  have a: "in_i32 (actor_pid actor)" "clock_ok (clock_realtime sys)"
    using ok by (simp_all add: ev dispatch_event_ok_def)
  show ?thesis
  proof (cases rule: dispatch_cases [of sys store request actor response])
    case refused
    then show ?thesis by (auto simp: ev dispatch_exec_def request_step_def)
  next
    case (answered r store' response')
    show ?thesis
    proof (cases "requested_call sys request actor")
      case None
      then show ?thesis
        using answered(7) dispatch_opcode_store [OF answered(6)] by (simp add: ev dispatch_exec_def request_step_def)
    next
      case (Some c)
      then have "sv_step c (sv_of store) r (sv_of store')"
        using store_sysv.exec_step [OF inv requested_call_ok [OF Some a]] dispatch_opcode_store [OF answered(6)] by simp
      then show ?thesis using answered(7) Some by (simp add: ev dispatch_exec_def request_step_def)
    qed
  qed
qed

interpretation dispatch_sysv: simulation dispatch_exec dispatch_event_ok store_inv sv_of request_step
  by unfold_locales (rule dispatch_request_step)

text \<open>C10. Over any history of requests on a fresh store, each answered with whatever the clock and the
  allocator said at that moment, the store stays well formed and behaves as the abstract semaphores:
  refused and malformed requests change nothing, every other request performs the call its payload
  encodes, and the result in its response is the result of that call.\<close>

theorem dispatch_history:
  assumes "list_all dispatch_event_ok events"
    and "run_calls dispatch_exec events tgc_sem_store_create = (history, store)"
  shows "store_inv store \<and> spec_trace request_step sv_empty history (sv_of store)"
  using dispatch_calls.run_inv [OF inv_create assms(1)] dispatch_sysv.run_trace [OF inv_create assms(1)] assms(2)
  by (simp add: sv_of_create)

theorem dispatch_history_witness:
  "spec_trace request_step sv_empty
     [((example_sys, ping_request, example_actor, ping_request), (0, ping_response))] (sv_of tgc_sem_store_create)"
  using dispatch_history [of "[(example_sys, ping_request, example_actor, ping_request)]"]
  by (simp add: dispatch_event_ok_def dispatch_exec_def ping_dispatch)

end
