(* ===== verification/Transport.thy ===== *)
theory Transport
  imports Wire
begin

text \<open>
  The transport of \<open>src/transport.c\<close>: framed packets over a stream socket, and the checks around the
  owner-only socket. The kernel is not part of the sources, so what it does is data: the receiving
  side of a socket is the list of things its \<open>recv\<close> calls meet, the sending side is the list of
  answers its \<open>send\<close> calls get, and the calls on the file system have their answers in a record. Every
  behaviour of the kernel in a run is one such list, so nothing is assumed of it by the definitions. A
  call that finds its list empty has not returned yet and the whole operation is \<open>None\<close>; operations on the
  file system also return the list of their effects, in order. An error number the kernel reports is an
  \<open>int\<close>.
\<close>

unbundle bit_operations_syntax

abbreviation (input) TGC_TRANSPORT_EOF :: int where "TGC_TRANSPORT_EOF \<equiv> 1"
abbreviation (input) PATH_MAX :: nat where "PATH_MAX \<equiv> 4096"
abbreviation (input) SUN_PATH_SIZE :: nat where "SUN_PATH_SIZE \<equiv> 108"

record tgc_peer_credentials =
  cred_pid :: int
  cred_uid :: u32
  cred_gid :: u32

subsection \<open>Receiving\<close>

text \<open>A \<open>Segment\<close> is a run of bytes the kernel has ready; the empty segment is the end of the stream.
  \<open>recv\<close> takes at most the bytes asked for and leaves the rest of the segment to the next call.\<close>

datatype recv_event = Segment "u8 list" | Recv_fault int

fun recv_call :: "nat \<Rightarrow> recv_event list \<Rightarrow> (recv_event \<times> recv_event list) option" where
  "recv_call n [] = None"
| "recv_call n (Segment bs # s) =
     Some (if length bs \<le> n then (Segment bs, s) else (Segment (take n bs), Segment (drop n bs) # s))"
| "recv_call n (Recv_fault e # s) = Some (Recv_fault e, s)"

text \<open>\<open>output + offset\<close> receives the bytes.\<close>

definition store_bytes :: "u8 list \<Rightarrow> nat \<Rightarrow> u8 list \<Rightarrow> u8 list" where
  "store_bytes output offset bs = take offset output @ bs @ drop (offset + length bs) output"

function receive_exact ::
  "u8 list \<Rightarrow> nat \<Rightarrow> nat \<Rightarrow> bool \<Rightarrow> bool \<Rightarrow> recv_event list \<Rightarrow> (int \<times> u8 list \<times> recv_event list) option" where
  "receive_exact output offset len clean_eof_allowed restart_on_eintr s =
     (if offset < len then
        (case recv_call (len - offset) s of
           None \<Rightarrow> None
         | Some (Segment bs, s') \<Rightarrow>
             if bs \<noteq> []
             then receive_exact (store_bytes output offset bs) (offset + length bs) len clean_eof_allowed restart_on_eintr s'
             else Some (if clean_eof_allowed \<and> offset = 0 then TGC_TRANSPORT_EOF else err EPROTO, output, s')
         | Some (Recv_fault e, s') \<Rightarrow>
             if e = errno_code EINTR
             then if restart_on_eintr
                  then receive_exact output offset len clean_eof_allowed restart_on_eintr s'
                  else Some (err EINTR, output, s')
             else Some (- e, output, s'))
      else Some (0, output, s))"
  by pat_completeness auto

lemma recv_call_fault_shorter: "recv_call n s = Some (Recv_fault e, s') \<Longrightarrow> length s' < length s"
  by (induction n s rule: recv_call.induct) (auto split: if_splits)

termination receive_exact
  by (relation "measures [\<lambda>(output, offset, len, c, r, s). len - offset, \<lambda>(output, offset, len, c, r, s). length s]")
    (auto dest: recv_call_fault_shorter simp: neq_Nil_conv)

declare receive_exact.simps [simp del]

text \<open>The header is received into an array of the function's frame, whose contents before the call are
  never read: \<open>receive_exact\<close> returns zero only when it has written all of it.\<close>

definition receive_packet ::
  "int \<Rightarrow> tgc_protocol_packet \<Rightarrow> bool \<Rightarrow> recv_event list \<Rightarrow> (int \<times> tgc_protocol_packet \<times> recv_event list) option" where
  "receive_packet socket_fd packet restart_on_eintr s =
     (if socket_fd < 0 then Some (err EINVAL, packet, s)
      else
        (case receive_exact (replicate TGC_PROTOCOL_HEADER_SIZE 0) 0 TGC_PROTOCOL_HEADER_SIZE True restart_on_eintr s of
           None \<Rightarrow> None
         | Some (result, wire_header, s) \<Rightarrow>
             if result \<noteq> 0 then Some (result, packet, s)
             else
               let (result, h) = tgc_protocol_decode_header wire_header (header packet);
                   packet = packet\<lparr>header := h\<rparr>
               in if result \<noteq> 0 then Some (result, packet, s)
                  else map_option (\<lambda>(result, body, s). (result, packet\<lparr>payload := body\<rparr>, s))
                         (receive_exact (payload packet) 0 (unat (payload_length h)) False restart_on_eintr s)))"

definition tgc_transport_receive ::
  "int \<Rightarrow> tgc_protocol_packet \<Rightarrow> recv_event list \<Rightarrow> (int \<times> tgc_protocol_packet \<times> recv_event list) option" where
  "tgc_transport_receive socket_fd packet s = receive_packet socket_fd packet True s"

definition tgc_transport_receive_interruptible ::
  "int \<Rightarrow> tgc_protocol_packet \<Rightarrow> recv_event list \<Rightarrow> (int \<times> tgc_protocol_packet \<times> recv_event list) option" where
  "tgc_transport_receive_interruptible socket_fd packet s = receive_packet socket_fd packet False s"

subsection \<open>Sending\<close>

text \<open>\<open>Accept k\<close> answers a \<open>send\<close> that takes up to \<open>k\<close> bytes. The result carries the bytes the kernel took.\<close>

datatype send_event = Accept nat | Send_fault int

fun send_exact :: "u8 list \<Rightarrow> nat \<Rightarrow> nat \<Rightarrow> u8 list \<Rightarrow> send_event list \<Rightarrow> (int \<times> u8 list \<times> send_event list) option" where
  "send_exact inp offset len sent [] = (if offset < len then None else Some (0, sent, []))"
| "send_exact inp offset len sent (Accept k # t) =
     (if offset < len then
        let n = min k (len - offset) in
        if 0 < n then send_exact inp (offset + n) len (sent @ take n (drop offset inp)) t
        else Some (err EPIPE, sent, t)
      else Some (0, sent, Accept k # t))"
| "send_exact inp offset len sent (Send_fault e # t) =
     (if offset < len then
        if e \<noteq> errno_code EINTR then Some (- e, sent, t) else send_exact inp offset len sent t
      else Some (0, sent, Send_fault e # t))"

definition tgc_transport_send ::
  "int \<Rightarrow> tgc_protocol_packet \<Rightarrow> send_event list \<Rightarrow> (int \<times> u8 list \<times> send_event list) option" where
  "tgc_transport_send socket_fd packet t =
     (if socket_fd < 0 then Some (err EINVAL, [], t)
      else
        let wire = replicate (TGC_PROTOCOL_HEADER_SIZE + TGC_PROTOCOL_MAX_PAYLOAD) 0;
            (result, wire) = tgc_protocol_encode_header wire (header packet);
            len = unat (payload_length (header packet))
        in if result \<noteq> 0 then Some (result, [], t)
           else
             let wire = (if 0 < len then store_bytes wire TGC_PROTOCOL_HEADER_SIZE (take len (payload packet)) else wire)
             in send_exact wire 0 (TGC_PROTOCOL_HEADER_SIZE + len) [] t)"

subsection \<open>Peer credentials\<close>

record ucred =
  uc_pid :: int
  uc_uid :: u32
  uc_gid :: u32

text \<open>\<open>getsockopt\<close> answers with an error number, or with the credentials and the length it stored.\<close>

definition tgc_transport_get_credentials ::
  "int + ucred \<times> nat \<Rightarrow> int \<Rightarrow> u32 \<Rightarrow> tgc_peer_credentials \<Rightarrow> int \<times> tgc_peer_credentials" where
  "tgc_transport_get_credentials peercred socket_fd expected_uid credentials =
     (if socket_fd < 0 then (err EINVAL, credentials)
      else case peercred of
             Inl e \<Rightarrow> (- e, credentials)
           | Inr (native, len) \<Rightarrow>
               if len \<noteq> 12 \<or> uc_pid native \<le> 0 \<or> uc_uid native \<noteq> expected_uid then (err EACCES, credentials)
               else (0, \<lparr>cred_pid = uc_pid native, cred_uid = uc_uid native, cred_gid = uc_gid native\<rparr>))"

definition tgc_transport_authenticate :: "int + ucred \<times> nat \<Rightarrow> int \<Rightarrow> u32 \<Rightarrow> int \<Rightarrow> int \<times> int" where
  "tgc_transport_authenticate peercred socket_fd expected_uid peer_pid =
     (if socket_fd < 0 then (err EINVAL, peer_pid)
      else
        let (result, credentials) =
              tgc_transport_get_credentials peercred socket_fd expected_uid \<lparr>cred_pid = 0, cred_uid = 0, cred_gid = 0\<rparr>
        in if result \<noteq> 0 then (result, peer_pid) else (0, cred_pid credentials))"

subsection \<open>The owner-only socket\<close>

record tgc_stat =
  st_mode :: u32
  st_uid :: u32

abbreviation (input) S_ISDIR :: "u32 \<Rightarrow> bool" where "S_ISDIR mode \<equiv> mode AND 0xF000 = 0x4000"
abbreviation (input) S_ISSOCK :: "u32 \<Rightarrow> bool" where "S_ISSOCK mode \<equiv> mode AND 0xF000 = 0xC000"

text \<open>\<open>0777\<close>, \<open>0700\<close> and \<open>0600\<close> of the source are 511, 448 and 384.\<close>

definition validate_runtime_directory :: "int + tgc_stat \<Rightarrow> u32 \<Rightarrow> int" where
  "validate_runtime_directory lstat_answer expected_uid =
     (case lstat_answer of
        Inl e \<Rightarrow> - e
      | Inr status \<Rightarrow>
          if \<not> S_ISDIR (st_mode status) then err ENOTDIR
          else if st_uid status \<noteq> expected_uid \<or> st_mode status AND 511 \<noteq> 448 then err EPERM
          else 0)"

text \<open>The position of the last occurrence of a character.\<close>

definition strrchr :: "string \<Rightarrow> char \<Rightarrow> nat option" where
  "strrchr s c = map_option (\<lambda>i. length s - 1 - i) (find_index (\<lambda>x. x = c) (rev s))"

definition runtime_directory :: "string \<Rightarrow> int \<times> string" where
  "runtime_directory socket_path =
     (if socket_path = [] \<or> hd socket_path \<noteq> CHR ''/'' then (err EINVAL, [])
      else if length socket_path = 0 \<or> PATH_MAX \<le> length socket_path \<or> SUN_PATH_SIZE \<le> length socket_path
      then (err ENAMETOOLONG, [])
      else case strrchr socket_path (CHR ''/'') of
             None \<Rightarrow> (err EINVAL, [])
           | Some separator \<Rightarrow>
               if separator = 0 \<or> separator + 1 = length socket_path then (err EINVAL, [])
               else (0, take separator socket_path))"

text \<open>The answers of the kernel to the calls of \<open>tgc_transport_listen\<close> and \<open>tgc_transport_connect\<close>: zero
  or an error number, a file's status or an error number, a descriptor or an error number.\<close>

record fs_answers =
  mkdir_answer :: int
  lstat_directory :: "int + tgc_stat"
  lstat_path :: "int + tgc_stat"
  socket_answer :: "int + nat"
  umask_answer :: u32
  bind_answer :: int
  chmod_answer :: int
  lstat_created :: "int + tgc_stat"
  listen_answer :: int
  connect_answer :: int
  peercred_answer :: "int + ucred \<times> nat"

datatype fs_effect =
    Mkdir string u32
  | Open_socket nat
  | Umask u32
  | Bind nat string
  | Chmod string u32
  | Listen nat nat
  | Connect nat string
  | Unlink string
  | Close nat

definition tgc_transport_listen :: "fs_answers \<Rightarrow> string \<Rightarrow> u32 \<Rightarrow> int \<times> fs_effect list" where
  "tgc_transport_listen ans socket_path expected_uid =
     (let (result, directory) = runtime_directory socket_path in
      if result \<noteq> 0 then (result, [])
      else
        let made = [Mkdir directory 448] in
        if mkdir_answer ans \<noteq> 0 \<and> mkdir_answer ans \<noteq> errno_code EEXIST then (- mkdir_answer ans, made)
        else
          let result = validate_runtime_directory (lstat_directory ans) expected_uid in
          if result \<noteq> 0 then (result, made)
          else case lstat_path ans of
            Inr existing \<Rightarrow> (err EADDRINUSE, made)
          | Inl e \<Rightarrow>
            if e \<noteq> errno_code ENOENT then (- e, made)
            else case socket_answer ans of
              Inl e \<Rightarrow> (- e, made)
            | Inr fd \<Rightarrow>
              let bound = made @ [Open_socket fd, Umask 63, Bind fd socket_path, Umask (umask_answer ans)];
                  undo = [Close fd, Unlink socket_path] in
              if bind_answer ans \<noteq> 0 then (- bind_answer ans, bound @ [Close fd])
              else
                let owned = bound @ [Chmod socket_path 384] in
                if chmod_answer ans \<noteq> 0 then (- chmod_answer ans, owned @ undo)
                else case lstat_created ans of
                  Inl e \<Rightarrow> (- e, owned @ undo)
                | Inr created \<Rightarrow>
                  if \<not> S_ISSOCK (st_mode created) \<or> st_uid created \<noteq> expected_uid \<or> st_mode created AND 511 \<noteq> 384
                  then (err EPERM, owned @ undo)
                  else if listen_answer ans \<noteq> 0 then (- listen_answer ans, owned @ [Listen fd 16] @ undo)
                  else (int fd, owned @ [Listen fd 16]))"

definition tgc_transport_connect :: "fs_answers \<Rightarrow> string \<Rightarrow> u32 \<Rightarrow> int \<times> fs_effect list" where
  "tgc_transport_connect ans socket_path expected_uid =
     (let (result, directory) = runtime_directory socket_path in
      if result \<noteq> 0 then (result, [])
      else
        let result = validate_runtime_directory (lstat_directory ans) expected_uid in
        if result \<noteq> 0 then (result, [])
        else case lstat_path ans of
          Inl e \<Rightarrow> (- e, [])
        | Inr socket_status \<Rightarrow>
          if \<not> S_ISSOCK (st_mode socket_status) \<or> st_uid socket_status \<noteq> expected_uid \<or> st_mode socket_status AND 511 \<noteq> 384
          then (err EPERM, [])
          else case socket_answer ans of
            Inl e \<Rightarrow> (- e, [])
          | Inr fd \<Rightarrow>
            if connect_answer ans \<noteq> 0 then (- connect_answer ans, [Open_socket fd, Connect fd socket_path, Close fd])
            else
              let (result, credentials) =
                    tgc_transport_get_credentials (peercred_answer ans) (int fd) expected_uid
                      \<lparr>cred_pid = 0, cred_uid = 0, cred_gid = 0\<rparr>
              in if result \<noteq> 0 then (result, [Open_socket fd, Connect fd socket_path, Close fd])
                 else (int fd, [Open_socket fd, Connect fd socket_path]))"

subsection \<open>The bytes of a stream\<close>

fun stream_bytes :: "recv_event list \<Rightarrow> u8 list" where
  "stream_bytes [] = []"
| "stream_bytes (Segment bs # s) = bs @ stream_bytes s"
| "stream_bytes (Recv_fault e # s) = stream_bytes s"

text \<open>A stream with nothing in it but data and interrupted calls.\<close>

fun quiet :: "recv_event list \<Rightarrow> bool" where
  "quiet [] \<longleftrightarrow> True"
| "quiet (Segment bs # s) \<longleftrightarrow> bs \<noteq> [] \<and> quiet s"
| "quiet (Recv_fault e # s) \<longleftrightarrow> e = errno_code EINTR \<and> quiet s"

lemma store_bytes_Nil [simp]: "store_bytes output offset [] = output"
  by (simp add: store_bytes_def)

lemma store_bytes_length [simp]: "offset + length bs \<le> length output \<Longrightarrow> length (store_bytes output offset bs) = length output"
  by (simp add: store_bytes_def)

lemma store_bytes_append:
  "offset + length a \<le> length output \<Longrightarrow>
   store_bytes (store_bytes output offset a) (offset + length a) b = store_bytes output offset (a @ b)"
  by (cases a) (simp_all add: store_bytes_def min_def ac_simps)

lemma store_bytes_outside:
  assumes "offset + length bs \<le> n" "n \<le> length output"
  shows "take offset (store_bytes output offset bs) = take offset output" "drop n (store_bytes output offset bs) = drop n output"
proof -
  show "take offset (store_bytes output offset bs) = take offset output"
    using assms by (cases bs) (simp_all add: store_bytes_def)
  have "length (take offset output @ bs) = offset + length bs" using assms by simp
  then have "drop n ((take offset output @ bs) @ drop (offset + length bs) output) = drop n output"
    using assms(1) by (simp only: drop_append drop_all) simp
  then show "drop n (store_bytes output offset bs) = drop n output" by (simp add: store_bytes_def)
qed

lemma store_bytes_all: "length bs = n \<Longrightarrow> take n (store_bytes output 0 bs) = bs"
  by (simp add: store_bytes_def)

text \<open>The steps of the receive loop.\<close>

lemma receive_exact_done: "len \<le> offset \<Longrightarrow> receive_exact output offset len c r s = Some (0, output, s)"
  by (simp add: receive_exact.simps)

lemma receive_exact_segment:
  "offset < len \<Longrightarrow> recv_call (len - offset) s = Some (Segment bs, s') \<Longrightarrow> bs \<noteq> [] \<Longrightarrow>
   receive_exact output offset len c r s = receive_exact (store_bytes output offset bs) (offset + length bs) len c r s'"
  by (subst receive_exact.simps) simp

lemma receive_exact_eof:
  "offset < len \<Longrightarrow> recv_call (len - offset) s = Some (Segment [], s') \<Longrightarrow>
   receive_exact output offset len c r s = Some (if c \<and> offset = 0 then 1 else err EPROTO, output, s')"
  by (subst receive_exact.simps) simp

lemma receive_exact_fault:
  "offset < len \<Longrightarrow> recv_call (len - offset) s = Some (Recv_fault e, s') \<Longrightarrow>
   receive_exact output offset len c r s =
     (if e = errno_code EINTR \<and> r then receive_exact output offset len c r s' else Some (- e, output, s'))"
  by (subst receive_exact.simps) (simp add: err_def)

lemmas receive_exact_steps = receive_exact_done receive_exact_segment receive_exact_eof receive_exact_fault

text \<open>While data comes in without filling the request, the loop just stores it.\<close>

lemma receive_exact_prefix:
  assumes "quiet q" "offset + length (stream_bytes q) < len" "len \<le> length output"
  shows "receive_exact output offset len c True (q @ s) =
    receive_exact (store_bytes output offset (stream_bytes q)) (offset + length (stream_bytes q)) len c True s"
  using assms
proof (induction q arbitrary: "output" offset rule: quiet.induct)
  case (2 bs q)
  have "receive_exact output offset len c True ((Segment bs # q) @ s) =
      receive_exact (store_bytes output offset bs) (offset + length bs) len c True (q @ s)"
    using 2 by (intro receive_exact_segment) simp_all
  also have "\<dots> = receive_exact (store_bytes (store_bytes output offset bs) (offset + length bs) (stream_bytes q))
      (offset + length bs + length (stream_bytes q)) len c True s"
    using 2 by (intro 2) simp_all
  finally show ?case using 2 by (simp add: store_bytes_append add.assoc)
next
  case (3 e q)
  then show ?case by (simp add: receive_exact_fault)
qed simp

lemma receive_exact_complete:
  assumes "quiet s" "offset \<le> len" "len \<le> offset + length (stream_bytes s)" "len \<le> length output"
  shows "\<exists>s'. receive_exact output offset len c True s =
      Some (0, store_bytes output offset (take (len - offset) (stream_bytes s)), s') \<and>
    quiet s' \<and> stream_bytes s' = drop (len - offset) (stream_bytes s)"
  using assms
proof (induction s arbitrary: "output" offset rule: quiet.induct)
  case 1
  then show ?case by (simp add: receive_exact_done)
next
  case (2 bs s)
  consider "offset + length bs \<le> len" | "offset < len" "len < offset + length bs" | "offset = len" using "2.prems" by linarith
  then show ?case
  proof cases
    case 1
    then have "receive_exact output offset len c True (Segment bs # s) =
        receive_exact (store_bytes output offset bs) (offset + length bs) len c True s"
      using "2.prems" by (intro receive_exact_segment) (auto simp: neq_Nil_conv)
    then show ?thesis
      using "2.IH" [of "offset + length bs" "store_bytes output offset bs"] "2.prems" 1
      by (simp add: store_bytes_append diff_diff_eq)
  next
    case 2
    then have "receive_exact output offset len c True (Segment bs # s) =
        receive_exact (store_bytes output offset (take (len - offset) bs)) (offset + (len - offset)) len c True
          (Segment (drop (len - offset) bs) # s)"
      using "2.prems" receive_exact_segment [of offset len "Segment bs # s" "take (len - offset) bs" "Segment (drop (len - offset) bs) # s"]
      by simp
    then show ?thesis using 2 "2.prems" by (simp add: receive_exact_done)
  next
    case 3
    then show ?thesis using "2.prems" by (simp add: receive_exact_done)
  qed
next
  case (3 e s)
  show ?case
  proof (cases "offset < len")
    case True
    then show ?thesis using 3 by (simp add: receive_exact_fault)
  next
    case False
    then show ?thesis using "3.prems" by (simp add: receive_exact_done)
  qed
qed

lemma recv_call_segment: "recv_call n s = Some (Segment bs, s') \<Longrightarrow> length bs \<le> n"
  by (induction n s rule: recv_call.induct) (auto split: if_splits)

text \<open>What arrives later changes nothing about a call that has returned.\<close>

lemma recv_call_append: "recv_call n s = Some (e, s') \<Longrightarrow> recv_call n (s @ t) = Some (e, s' @ t)"
  by (induction n s rule: recv_call.induct) (auto split: if_splits)

lemma receive_exact_append:
  assumes "receive_exact output offset len c r s = Some (res, output', s')"
  shows "receive_exact output offset len c r (s @ t) = Some (res, output', s' @ t)"
  using assms
proof (induction "output" offset len c r s rule: receive_exact.induct)
  case (1 "output" offset len c r s)
  show ?case
  proof (cases "offset < len")
    case False
    with "1.prems" show ?thesis by (simp add: receive_exact_done)
  next
    case True
    then obtain ev s1 where call: "recv_call (len - offset) s = Some (ev, s1)"
      using "1.prems" by (cases "recv_call (len - offset) s") (auto simp: receive_exact.simps [of "output"])
    note call' = recv_call_append [OF call, of t]
    show ?thesis
    proof (cases ev)
      case (Segment bs)
      show ?thesis
        using "1.IH"(1) [OF True call refl Segment] "1.prems" call call' True unfolding Segment
        by (cases "bs = []") (simp_all add: receive_exact_segment receive_exact_eof)
    next
      case (Recv_fault e)
      show ?thesis
        using "1.IH"(2) [OF True call refl Recv_fault] "1.prems" call call' True unfolding Recv_fault
        by (cases "e = errno_code EINTR \<and> r") (auto simp: receive_exact_fault)
    qed
  qed
qed

text \<open>Whatever the kernel does, only the requested bytes of the array are written.\<close>

lemma receive_exact_bounds:
  assumes "receive_exact output offset len c r s = Some (res, output', s')" "offset \<le> len" "len \<le> length output"
  shows "length output' = length output \<and> take offset output' = take offset output \<and> drop len output' = drop len output"
  using assms
proof (induction "output" offset len c r s rule: receive_exact.induct)
  case (1 "output" offset len c r s)
  show ?case
  proof (cases "offset < len")
    case False
    with "1.prems" show ?thesis by (simp add: receive_exact_done)
  next
    case True
    then obtain ev s1 where call: "recv_call (len - offset) s = Some (ev, s1)"
      using "1.prems"(1) by (cases "recv_call (len - offset) s") (auto simp: receive_exact.simps [of "output"])
    show ?thesis
    proof (cases ev)
      case (Segment bs)
      note call = call [unfolded Segment]
      show ?thesis
      proof (cases "bs = []")
        case True
        then show ?thesis using "1.prems"(1) receive_exact_eof [OF \<open>offset < len\<close>] call by simp
      next
        case False
        have le: "offset + length bs \<le> len" using recv_call_segment [OF call] True by simp
        have "receive_exact (store_bytes output offset bs) (offset + length bs) len c r s1 = Some (res, output', s')"
          using "1.prems"(1) receive_exact_segment [OF True call False] by simp
        from "1.IH"(1) [OF True call refl refl False this] le "1.prems"(3)
        have out: "length output' = length output" "take (offset + length bs) output' = take (offset + length bs) (store_bytes output offset bs)"
          "drop len output' = drop len output"
          by (simp_all add: store_bytes_outside)
        have "take offset (take (offset + length bs) output') = take offset output"
          unfolding out(2) using store_bytes_outside(1) [OF le "1.prems"(3)] by (simp add: min_def)
        then have "take offset output' = take offset output" by (simp add: min_def)
        then show ?thesis using out by simp
      qed
    next
      case (Recv_fault e)
      note call = call [unfolded Recv_fault]
      show ?thesis
      proof (cases "e = errno_code EINTR \<and> r")
        case restart: True
        then show ?thesis
          using "1.IH"(2) [OF True call refl refl] "1.prems" receive_exact_fault [OF True call, of "output" c r] by simp
      next
        case False
        then show ?thesis using "1.prems" receive_exact_fault [OF True call, of "output" c r] by auto
      qed
    qed
  qed
qed


subsection \<open>Frames\<close>

lemma put_u16_append: "off + 2 \<le> length a \<Longrightarrow> tgc_wire_put_u16 (a @ b) off v = tgc_wire_put_u16 a off v @ b"
  by (simp add: tgc_wire_put_u16_def list_update_append1)

lemma put_u32_append: "off + 4 \<le> length a \<Longrightarrow> tgc_wire_put_u32 (a @ b) off v = tgc_wire_put_u32 a off v @ b"
  by (simp add: tgc_wire_put_u32_def list_update_append1)

lemma encode_header_append:
  "length a = 24 \<Longrightarrow> header_is_valid h = 0 \<Longrightarrow>
   tgc_protocol_encode_header (a @ b) h = (0, snd (tgc_protocol_encode_header a h) @ b)"
  by (simp add: tgc_protocol_encode_header_def Let_def put_u16_append put_u32_append tgc_wire_put_i32_def)

lemma encode_header_length: "length (snd (tgc_protocol_encode_header a h)) = length a"
  by (simp add: tgc_protocol_encode_header_def Let_def)

text \<open>The bytes of a packet on the wire.\<close>

definition wire_header_of :: "tgc_protocol_header \<Rightarrow> u8 list" where
  "wire_header_of h = snd (tgc_protocol_encode_header (replicate 24 0) h)"

definition frame :: "tgc_protocol_packet \<Rightarrow> u8 list" where
  "frame p = wire_header_of (header p) @ take (unat (payload_length (header p))) (payload p)"

text \<open>A packet that can be sent: its header is valid and its fields have the types of the source.\<close>

definition sendable :: "tgc_protocol_packet \<Rightarrow> bool" where
  "sendable p \<longleftrightarrow> packet_ok p \<and> header_is_valid (header p) = 0"

lemma wire_header_of_length [simp]: "length (wire_header_of h) = 24"
  by (simp add: wire_header_of_def encode_header_length)

lemma valid_payload_length: "header_is_valid h = 0 \<Longrightarrow> unat (payload_length h) \<le> 8192"
  by (simp add: header_is_valid_def split: if_splits)

lemma sendable_payload: "sendable p \<Longrightarrow> length (payload p) = 8192 \<and> unat (payload_length (header p)) \<le> 8192"
  by (simp add: sendable_def packet_ok_def valid_payload_length)

lemma frame_length: "sendable p \<Longrightarrow> length (frame p) = 24 + unat (payload_length (header p))"
  using sendable_payload [of p] by (simp add: frame_def)

lemma decode_wire_header: "sendable p \<Longrightarrow> tgc_protocol_decode_header (wire_header_of (header p)) h' = (0, header p)"
  unfolding wire_header_of_def by (rule decode_encode_header) (simp_all add: sendable_def packet_ok_def)

lemma send_is_frame:
  assumes "sendable p" "0 \<le> fd"
  shows "\<exists>tl. tgc_transport_send fd p t = send_exact (frame p @ tl) 0 (length (frame p)) [] t"
proof -
  let ?len = "unat (payload_length (header p))"
  have "replicate 8216 (0::u8) = replicate 24 0 @ replicate 8192 0" by (simp flip: replicate_add)
  then have e: "tgc_protocol_encode_header (replicate 8216 0) (header p) = (0, wire_header_of (header p) @ replicate 8192 0)"
    using assms(1) encode_header_append [of "replicate 24 0" "header p" "replicate 8192 0"]
    by (simp only: wire_header_of_def sendable_def) simp
  have "store_bytes (wire_header_of (header p) @ replicate 8192 0) 24 (take ?len (payload p)) = frame p @ replicate (8192 - ?len) 0"
    using sendable_payload [OF assms(1)] by (simp add: store_bytes_def frame_def)
  moreover have "wire_header_of (header p) = frame p" if "?len = 0" using that by (simp add: frame_def)
  ultimately have "\<exists>tl. (if 0 < ?len then store_bytes (wire_header_of (header p) @ replicate 8192 0) 24 (take ?len (payload p))
      else wire_header_of (header p) @ replicate 8192 0) = frame p @ tl"
    by auto
  then show ?thesis
    using assms e frame_length [OF assms(1)] by (auto simp: tgc_transport_send_def Let_def)
qed

text \<open>An error number is positive.\<close>

fun send_answers_ok :: "send_event list \<Rightarrow> bool" where
  "send_answers_ok [] \<longleftrightarrow> True"
| "send_answers_ok (Accept k # t) \<longleftrightarrow> send_answers_ok t"
| "send_answers_ok (Send_fault e # t) \<longleftrightarrow> 0 < e \<and> send_answers_ok t"

text \<open>What the kernel has taken is always a prefix of the frame, and all of it when the call succeeds.\<close>

lemma send_exact_prefix:
  assumes "send_exact inp offset len sent t = Some (r, out, t')" "offset \<le> len" "len \<le> length inp"
    "sent = take offset inp" "send_answers_ok t"
  shows "\<exists>n. offset \<le> n \<and> n \<le> len \<and> out = take n inp \<and> (r = 0 \<longrightarrow> n = len)"
  using assms
proof (induction inp offset len sent t rule: send_exact.induct)
  case (1 inp offset len sent)
  then show ?case by (auto split: if_splits)
next
  case (2 inp offset len sent k t)
  consider "len \<le> offset" | "offset < len" "k = 0" | "offset < len" "0 < k" by linarith
  then show ?case
  proof cases
    case 3
    let ?n = "min k (len - offset)"
    have "sent @ take ?n (drop offset inp) = take (offset + ?n) inp" using "2.prems"(4) by (simp add: take_add)
    then have "\<exists>n. offset + ?n \<le> n \<and> n \<le> len \<and> out = take n inp \<and> (r = 0 \<longrightarrow> n = len)"
      using 3 "2.prems" by (intro "2.IH") (simp_all add: Let_def)
    then obtain n where "offset + ?n \<le> n" "n \<le> len" "out = take n inp" "r = 0 \<longrightarrow> n = len" by blast
    then show ?thesis by (intro exI [of _ n]) simp
  qed (use "2.prems" in \<open>auto\<close>)
next
  case (3 inp offset len sent e t)
  then show ?case by (cases "offset < len"; cases "e = errno_code EINTR") auto
qed

lemma send_success:
  assumes "tgc_transport_send fd p t = Some (0, sent, t')" "packet_ok p" "send_answers_ok t"
  shows "sendable p" "sent = frame p"
proof -
  have fd: "0 \<le> fd" using assms(1) by (auto simp: tgc_transport_send_def split: if_splits)
  show s: "sendable p"
    using assms fd
    by (auto simp: tgc_transport_send_def sendable_def tgc_protocol_encode_header_def Let_def split: if_splits)
  obtain tl where "send_exact (frame p @ tl) 0 (length (frame p)) [] t = Some (0, sent, t')"
    using send_is_frame [OF s fd, of t] assms(1) by auto
  from send_exact_prefix [OF this] assms(3) show "sent = frame p" by simp
qed

lemma receive_frame:
  assumes "sendable p" "0 \<le> fd" "quiet s" "stream_bytes s = frame p @ rest" "length (payload buf) = 8192"
  shows "\<exists>s'. tgc_transport_receive fd buf s =
      Some (0, \<lparr>header = header p, payload = store_bytes (payload buf) 0 (take (unat (payload_length (header p))) (payload p))\<rparr>, s') \<and>
    quiet s' \<and> stream_bytes s' = rest"
proof -
  let ?len = "unat (payload_length (header p))"
  obtain s1 where h: "receive_exact (replicate 24 0) 0 24 True True s =
      Some (0, store_bytes (replicate 24 0) 0 (take 24 (stream_bytes s)), s1)"
    "quiet s1" "stream_bytes s1 = drop 24 (stream_bytes s)"
    using receive_exact_complete [OF assms(3), of 0 24 "replicate 24 0"] assms(4) frame_length [OF assms(1)] by auto
  have head: "store_bytes (replicate 24 0) 0 (take 24 (stream_bytes s)) = wire_header_of (header p)"
    by (simp add: assms(4) frame_def store_bytes_def)
  have rest: "stream_bytes s1 = take ?len (payload p) @ rest" by (simp add: h(3) assms(4) frame_def)
  obtain s2 where b: "receive_exact (payload buf) 0 ?len False True s1 =
      Some (0, store_bytes (payload buf) 0 (take ?len (payload p)), s2)" "quiet s2" "stream_bytes s2 = rest"
    using receive_exact_complete [OF h(2), of 0 ?len "payload buf" False] assms(5) sendable_payload [OF assms(1)]
    by (auto simp: rest)
  show ?thesis
    using assms(2) b by (simp add: tgc_transport_receive_def receive_packet_def h(1) head decode_wire_header [OF assms(1)])
qed

subsection \<open>Properties of the framing\<close>

text \<open>A connection's loop over \<open>n\<close> packets, each received into the same buffer.\<close>

fun receive_many :: "nat \<Rightarrow> int \<Rightarrow> tgc_protocol_packet \<Rightarrow> recv_event list \<Rightarrow> (tgc_protocol_packet list \<times> recv_event list) option" where
  "receive_many 0 fd buf s = Some ([], s)"
| "receive_many (Suc n) fd buf s =
     (case tgc_transport_receive fd buf s of
        Some (r, buf, s) \<Rightarrow> if r = 0 then map_option (\<lambda>(ps, s). (buf # ps, s)) (receive_many n fd buf s) else None
      | None \<Rightarrow> None)"

lemma same_frame_stored:
  assumes "sendable p" "length b = 8192"
  shows "same_frame p \<lparr>header = header p, payload = store_bytes b 0 (take (unat (payload_length (header p))) (payload p))\<rparr>"
  using sendable_payload [OF assms(1)] assms(2)
  by (simp add: same_frame_def agree_def store_bytes_def nth_append)

text \<open>C13. Packets cross the wire intact and in order: when each of a list of packets was sent successfully,
  whatever the sizes in which the kernel took its bytes, then however the kernel cuts the
  resulting stream into segments and interrupts the calls, the receiver gets the same headers and the
  same payload bytes in the same order, and nothing is left over.\<close>

theorem packets_arrive_in_order:
  assumes "list_all2 (\<lambda>p b. packet_ok p \<and> (\<exists>fd t t'. send_answers_ok t \<and> tgc_transport_send fd p t = Some (0, b, t'))) ps chunks"
    and "quiet s" "stream_bytes s = concat chunks" "0 \<le> fd" "length (payload buf) = 8192"
  shows "\<exists>qs s'. receive_many (length ps) fd buf s = Some (qs, s') \<and> list_all2 same_frame ps qs \<and> stream_bytes s' = []"
  using assms
proof (induction ps chunks arbitrary: buf s rule: list_all2_induct)
  case (Cons p ps b chunks)
  then have p: "sendable p" "b = frame p" using send_success by blast+
  let ?q = "\<lparr>header = header p, payload = store_bytes (payload buf) 0 (take (unat (payload_length (header p))) (payload p))\<rparr>"
  have "stream_bytes s = frame p @ concat chunks" using Cons.prems(2) p(2) by simp
  from receive_frame [OF p(1) Cons.prems(3,1) this Cons.prems(4)] obtain s1 where
    r: "tgc_transport_receive fd buf s = Some (0, ?q, s1)" "quiet s1" "stream_bytes s1 = concat chunks" by blast
  have sf: "same_frame p ?q" using same_frame_stored [OF p(1) Cons.prems(4)] .
  then have "length (payload ?q) = 8192" using sendable_payload [OF p(1)] by (simp add: same_frame_def agree_def)
  from Cons.IH [OF r(2,3) Cons.prems(3) this] obtain qs s' where
    "receive_many (length ps) fd ?q s1 = Some (qs, s')" "list_all2 same_frame ps qs" "stream_bytes s' = []" by blast
  with r(1) sf show ?case by simp
qed simp

definition example_packet :: tgc_protocol_packet where
  "example_packet = \<lparr>header = \<lparr>version = 1, kind = 1, opcode = 3, request_id = 9, payload_length = 4, hdr_result = 0\<rparr>,
     payload = [1, 0, 1, 0] @ replicate 8188 0\<rparr>"

lemma example_packet_sendable: "sendable example_packet"
  by (simp add: sendable_def packet_ok_def header_is_valid_def example_packet_def in_i32_def)

lemma example_packet_length [simp]: "length (frame example_packet) = 28" "length (payload example_packet) = 8192"
  using frame_length [OF example_packet_sendable] by (simp_all add: example_packet_def)

lemma example_packet_sent:
  "\<exists>t'. tgc_transport_send 3 example_packet [Accept 20, Send_fault (errno_code EINTR), Accept 100] = Some (0, frame example_packet, t')"
proof -
  obtain tl where "tgc_transport_send 3 example_packet [Accept 20, Send_fault (errno_code EINTR), Accept 100] =
      send_exact (frame example_packet @ tl) 0 28 [] [Accept 20, Send_fault (errno_code EINTR), Accept 100]"
    using send_is_frame [OF example_packet_sendable, of 3 "[Accept 20, Send_fault (errno_code EINTR), Accept 100]"] by auto
  moreover have "take 20 (frame example_packet) @ take 8 (drop 20 (frame example_packet)) = frame example_packet"
    by (simp flip: take_add)
  ultimately show ?thesis by (simp add: min_def)
qed

theorem packets_arrive_in_order_witness:
  "\<exists>q s'. receive_many 1 4 example_packet [Segment (take 5 (frame example_packet)), Recv_fault (errno_code EINTR),
       Segment (drop 5 (frame example_packet))] = Some ([q], s') \<and>
     same_frame example_packet q \<and> stream_bytes s' = []"
proof -
  let ?s = "[Segment (take 5 (frame example_packet)), Recv_fault (errno_code EINTR), Segment (drop 5 (frame example_packet))]"
  have "quiet ?s" by (simp flip: length_greater_0_conv)
  moreover have "list_all2 (\<lambda>p b. packet_ok p \<and> (\<exists>fd t t'. send_answers_ok t \<and> tgc_transport_send fd p t = Some (0, b, t'))) [example_packet] [frame example_packet]"
    using example_packet_sent example_packet_sendable
    unfolding list_all2_Cons sendable_def by (metis list.rel_inject(1) send_answers_ok.simps zero_less_numeral errno_code.simps(3))
  ultimately have "\<exists>qs s'. receive_many (length [example_packet]) 4 example_packet ?s = Some (qs, s') \<and>
      list_all2 same_frame [example_packet] qs \<and> stream_bytes s' = []"
    by (intro packets_arrive_in_order [where chunks = "[frame example_packet]"]) simp_all
  then show ?thesis by (auto simp: list_all2_Cons1)
qed

text \<open>How a receive ends when the stream stops inside a packet.\<close>

lemma receive_body:
  assumes p: "sendable p" and fd: "0 \<le> fd" and q: "quiet q" "stream_bytes q = take n (frame p)"
    and n: "24 \<le> n" "n < length (frame p)" and buf: "length (payload buf) = 8192"
  shows "tgc_transport_receive fd buf (q @ s) = map_option (\<lambda>(result, body, s). (result, \<lparr>header = header p, payload = body\<rparr>, s))
      (receive_exact (store_bytes (payload buf) 0 (drop 24 (stream_bytes q))) (n - 24) (unat (payload_length (header p))) False True s)"
proof -
  have len: "length (stream_bytes q) = n" using q(2) n(2) by simp
  obtain q1 where h: "receive_exact (replicate 24 0) 0 24 True True q =
      Some (0, store_bytes (replicate 24 0) 0 (take 24 (stream_bytes q)), q1)"
    "quiet q1" "stream_bytes q1 = drop 24 (stream_bytes q)"
    using receive_exact_complete [OF q(1), of 0 24 "replicate 24 0"] n(1) len by auto
  have head: "store_bytes (replicate 24 0) 0 (take 24 (stream_bytes q)) = wire_header_of (header p)"
    using n(1) by (simp add: q(2) frame_def store_bytes_def)
  have "receive_exact (payload buf) 0 (unat (payload_length (header p))) False True (q1 @ s) =
      receive_exact (store_bytes (payload buf) 0 (stream_bytes q1)) (0 + length (stream_bytes q1)) (unat (payload_length (header p))) False True s"
    using h(2,3) len n frame_length [OF p] buf sendable_payload [OF p] by (intro receive_exact_prefix) simp_all
  then show ?thesis
    using fd h(3) len
    by (cases buf)
      (simp add: tgc_transport_receive_def receive_packet_def receive_exact_append [OF h(1)] head decode_wire_header [OF p])
qed

lemma receive_head:
  assumes fd: "0 \<le> fd" and q: "quiet q" "length (stream_bytes q) < 24"
    and end_run: "receive_exact (store_bytes (replicate 24 0) 0 (stream_bytes q)) (length (stream_bytes q)) 24 True True s = out"
    and ends: "\<And>b s'. out \<noteq> Some (0, b, s')"
  shows "tgc_transport_receive fd buf (q @ s) = map_option (\<lambda>(r, b, s'). (r, buf, s')) out"
proof -
  have "receive_exact (replicate 24 0) 0 24 True True (q @ s) = out"
    using receive_exact_prefix [OF q(1), of 0 24 "replicate 24 0" True s] q(2) end_run by simp
  then show ?thesis
    using fd ends by (auto simp: tgc_transport_receive_def receive_packet_def split: option.splits)
qed

text \<open>A packet cut short is never delivered. When only the first \<open>n\<close> bytes of a packet arrive, the
  receiver keeps waiting; if the connection then ends, the result is a clean end of stream when no byte
  had arrived and \<open>-EPROTO\<close> otherwise; if the call fails, its error is the result.\<close>

lemma truncated_packet:
  assumes p: "sendable p" and fd: "0 \<le> fd" and q: "quiet q" "stream_bytes q = take n (frame p)" and n: "n < length (frame p)"
    and buf: "length (payload buf) = 8192" and e: "0 < e" "e \<noteq> errno_code EINTR"
  shows "tgc_transport_receive fd buf q = None \<and>
    (\<exists>b. tgc_transport_receive fd buf (q @ Segment [] # s) = Some (if n = 0 then TGC_TRANSPORT_EOF else err EPROTO, b, s)) \<and>
    (\<exists>b. tgc_transport_receive fd buf (q @ Recv_fault e # s) = Some (- e, b, s))"
proof (cases "n < 24")
  case True
  have len: "length (stream_bytes q) = n" using q(2) n by simp
  note step = receive_head [OF fd q(1), unfolded len, OF True refl]
  have blocked: "receive_exact b n 24 True True [] = None" for b using True by (simp add: receive_exact.simps)
  show ?thesis
    using True e step [of "[]" buf] step [of "Segment [] # s" buf] step [of "Recv_fault e # s" buf]
    by (simp add: blocked receive_exact_eof receive_exact_fault)
next
  case False
  let ?len = "unat (payload_length (header p))"
  have less: "n - 24 < ?len" using False n frame_length [OF p] by simp
  then have blocked: "receive_exact b (n - 24) ?len False True [] = None" for b by (simp add: receive_exact.simps)
  note step = receive_body [OF p fd q _ n buf]
  show ?thesis
    using False less e step [of "[]"] step [of "Segment [] # s"] step [of "Recv_fault e # s"]
    by (simp add: blocked receive_exact_eof receive_exact_fault)
qed

text \<open>C33. Whatever the kernel does, a receive stays inside the packet: the payload array keeps its
  size, either nothing was stored or a valid header was, and no byte beyond the length that header
  announces is touched. On success the header is valid.\<close>

theorem receive_stays_in_bounds:
  assumes "receive_packet fd buf restart s = Some (r, buf', s')" "length (payload buf) = 8192"
  shows "length (payload buf') = 8192 \<and>
    (buf' = buf \<and> r \<noteq> 0 \<or>
     header_is_valid (header buf') = 0 \<and>
     drop (unat (payload_length (header buf'))) (payload buf') = drop (unat (payload_length (header buf'))) (payload buf))"
proof (cases "fd < 0")
  case True
  with assms show ?thesis by (auto simp: receive_packet_def)
next
  case False
  then obtain r1 w s1 where h: "receive_exact (replicate 24 0) 0 24 True restart s = Some (r1, w, s1)"
    using assms(1) by (auto simp: receive_packet_def split: option.splits)
  obtain r2 h2 where d: "tgc_protocol_decode_header w (header buf) = (r2, h2)" by (cases "tgc_protocol_decode_header w (header buf)")
  show ?thesis
  proof (cases "r1 = 0 \<and> r2 = 0")
    case ok: True
    then have valid: "header_is_valid h2 = 0" using d by (auto simp: tgc_protocol_decode_header_def Let_def split: if_splits)
    obtain b where "receive_exact (payload buf) 0 (unat (payload_length h2)) False restart s1 = Some (r, b, s')"
      "buf' = buf\<lparr>header := h2, payload := b\<rparr>"
      using assms(1) False h d ok by (auto simp: receive_packet_def)
    with receive_exact_bounds [OF this(1)] valid_payload_length [OF valid] assms(2) valid show ?thesis by simp
  next
    case bad: False
    have "r2 \<noteq> 0 \<Longrightarrow> h2 = header buf" using d by (auto simp: tgc_protocol_decode_header_def Let_def split: if_splits)
    with bad assms False h d show ?thesis by (auto simp: receive_packet_def split: if_splits)
  qed
qed

text \<open>A header that announces four bytes, interrupted on its way, then two of the four, then the end of the stream: the receive fails, two bytes
  are stored, and the rest of the array is as it was.\<close>

definition blank_packet :: tgc_protocol_packet where
  "blank_packet = \<lparr>header = \<lparr>version = 0, kind = 0, opcode = 0, request_id = 0, payload_length = 0, hdr_result = 0\<rparr>, payload = replicate 8192 7\<rparr>"

theorem receive_stays_in_bounds_witness:
  "\<exists>buf'. receive_packet 4 blank_packet True [Segment (take 5 (frame example_packet)), Recv_fault (errno_code EINTR),
       Segment (drop 5 (take 26 (frame example_packet))), Segment []] = Some (err EPROTO, buf', []) \<and>
     header buf' = header example_packet \<and> length (payload buf') = 8192 \<and>
     take 2 (payload buf') = [1, 0] \<and> drop 4 (payload buf') = replicate 8188 7"
proof -
  let ?f = "frame example_packet"
  let ?q = "[Segment (take 5 ?f), Recv_fault (errno_code EINTR), Segment (drop 5 (take 26 ?f))]"
  have "quiet ?q" by (simp flip: length_greater_0_conv)
  moreover have bytes: "stream_bytes ?q = take 26 ?f" using append_take_drop_id [of 5 "take 26 ?f"] by (simp add: min_def)
  moreover have two: "drop 24 (take 26 ?f) = [1, 0]" by (simp add: frame_def example_packet_def)
  ultimately have run: "receive_packet 4 blank_packet True (?q @ [Segment []]) =
      Some (err EPROTO, \<lparr>header = header example_packet, payload = store_bytes (payload blank_packet) 0 [1, 0]\<rparr>, [])"
    using receive_body [OF example_packet_sendable, of 4 ?q 26 blank_packet "[Segment []]"]
    by (simp add: tgc_transport_receive_def blank_packet_def receive_exact_eof) (simp add: example_packet_def receive_exact_eof)
  have "length (payload blank_packet) = 8192" by (simp add: blank_packet_def)
  from receive_stays_in_bounds [OF run this] run show ?thesis
    by (auto simp: example_packet_def blank_packet_def store_bytes_def)
qed

text \<open>How many of the answers take at least one byte.\<close>

fun send_progress :: "send_event list \<Rightarrow> nat" where
  "send_progress [] = 0"
| "send_progress (Accept k # t) = (if 0 < k then Suc (send_progress t) else 0)"
| "send_progress (Send_fault e # t) = (if e = errno_code EINTR then send_progress t else 0)"

lemma send_exact_completes:
  "len - offset \<le> send_progress t \<Longrightarrow> \<exists>out t'. send_exact inp offset len sent t = Some (0, out, t')"
proof (induction inp offset len sent t rule: send_exact.induct)
  case (2 inp offset len sent k t)
  show ?case
  proof (cases "offset < len")
    case True
    then have "0 < k" using "2.prems" by (simp split: if_splits)
    with True 2 show ?thesis by (simp add: Let_def min_def)
  qed simp
qed (auto split: if_splits)

lemma send_completes_frame:
  assumes "sendable p" "0 \<le> fd" "send_answers_ok t" "24 + unat (payload_length (header p)) \<le> send_progress t"
  shows "\<exists>t'. tgc_transport_send fd p t = Some (0, frame p, t')"
proof -
  obtain tl where tl: "tgc_transport_send fd p t = send_exact (frame p @ tl) 0 (length (frame p)) [] t"
    using send_is_frame [OF assms(1,2)] by blast
  obtain out t' where "tgc_transport_send fd p t = Some (0, out, t')"
    using send_exact_completes [of "length (frame p)" 0 t "frame p @ tl" "[]"] assms(4) frame_length [OF assms(1)] tl by auto
  with send_success [OF this _ assms(3)] assms(1) show ?thesis by (auto simp: sendable_def)
qed

text \<open>C34. Sending ends: once the kernel has taken at least one byte in as many calls as the frame has bytes,
  interrupted calls apart, the send has returned success and the whole frame is on the wire.\<close>

theorem send_completes:
  assumes "sendable p" "0 \<le> fd" "send_answers_ok t" "24 + unat (payload_length (header p)) \<le> send_progress t"
  shows "\<exists>t'. tgc_transport_send fd p t = Some (0, frame p, t')"
  using assms by (rule send_completes_frame)

lemma send_progress_replicate: "send_answers_ok (replicate n (Accept 1)) \<and> send_progress (replicate n (Accept 1)) = n"
  by (induction n) simp_all

theorem send_completes_witness:
  "\<exists>t'. tgc_transport_send 3 example_packet (replicate 28 (Accept 1)) = Some (0, frame example_packet, t')"
  by (rule send_completes [OF example_packet_sendable]) (simp_all only: send_progress_replicate, simp_all add: example_packet_def)


subsection \<open>Properties of the owner-only socket\<close>

lemma find_index_split:
  "find_index P xs = Some i \<longleftrightarrow> (\<exists>a x b. xs = a @ x # b \<and> length a = i \<and> P x \<and> (\<forall>y\<in>set a. \<not> P y))"
proof
  assume "find_index P xs = Some i"
  then have "i < length xs" "P (xs ! i)" "\<forall>j<i. \<not> P (xs ! j)" by (auto simp: find_index_eq_Some)
  then show "\<exists>a x b. xs = a @ x # b \<and> length a = i \<and> P x \<and> (\<forall>y\<in>set a. \<not> P y)"
    using id_take_nth_drop [of i xs] by (intro exI [of _ "take i xs"] exI [of _ "xs ! i"] exI [of _ "drop (Suc i) xs"]) (auto simp: in_set_conv_nth)
next
  assume "\<exists>a x b. xs = a @ x # b \<and> length a = i \<and> P x \<and> (\<forall>y\<in>set a. \<not> P y)"
  then show "find_index P xs = Some i" by (auto simp: find_index_eq_Some nth_append)
qed

lemma strrchr_split: "strrchr s c = Some i \<longleftrightarrow> (\<exists>a b. s = a @ c # b \<and> length a = i \<and> c \<notin> set b)"
proof
  assume "strrchr s c = Some i"
  then obtain a b where s: "rev s = a @ c # b" "i = length s - 1 - length a" "\<forall>y\<in>set a. y \<noteq> c"
    by (auto simp: strrchr_def find_index_split)
  then have "s = rev b @ c # rev a" by (metis rev_rev_ident rev_append rev.simps(2) append_assoc append_Cons append_Nil)
  with s show "\<exists>a b. s = a @ c # b \<and> length a = i \<and> c \<notin> set b" by (intro exI [of _ "rev b"] exI [of _ "rev a"]) auto
next
  assume "\<exists>a b. s = a @ c # b \<and> length a = i \<and> c \<notin> set b"
  then obtain a b where s: "s = a @ c # b" "length a = i" "c \<notin> set b" by blast
  then have "find_index (\<lambda>x. x = c) (rev s) = Some (length b)"
    unfolding find_index_split by (intro exI [of _ "rev b"] exI [of _ c] exI [of _ "rev a"]) auto
  with s show "strrchr s c = Some i" by (simp add: strrchr_def)
qed

text \<open>The runtime directory of a socket path is what stands before its last slash: the function
  succeeds exactly on absolute paths short enough for a socket address that name an entry of a
  directory other than the root.\<close>

lemma runtime_directory_spec:
  "runtime_directory path = (0, dir) \<longleftrightarrow>
     (\<exists>name. path = dir @ CHR ''/'' # name \<and> name \<noteq> [] \<and> CHR ''/'' \<notin> set name \<and>
        dir \<noteq> [] \<and> hd dir = CHR ''/'' \<and> length path < 108)"
proof
  assume "runtime_directory path = (0, dir)"
  then obtain i where "strrchr path (CHR ''/'') = Some i" and i: "i \<noteq> 0" "i + 1 \<noteq> length path" "dir = take i path"
    "path \<noteq> []" "hd path = CHR ''/''" "length path < 108"
    by (auto simp: runtime_directory_def split: if_splits option.splits)
  then obtain a b where "path = a @ CHR ''/'' # b" "length a = i" "CHR ''/'' \<notin> set b" by (auto simp: strrchr_split)
  with i show "\<exists>name. path = dir @ CHR ''/'' # name \<and> name \<noteq> [] \<and> CHR ''/'' \<notin> set name \<and>
        dir \<noteq> [] \<and> hd dir = CHR ''/'' \<and> length path < 108"
    by (intro exI [of _ b]) (auto simp: hd_append)
next
  assume "\<exists>name. path = dir @ CHR ''/'' # name \<and> name \<noteq> [] \<and> CHR ''/'' \<notin> set name \<and>
        dir \<noteq> [] \<and> hd dir = CHR ''/'' \<and> length path < 108"
  then obtain name where n: "path = dir @ CHR ''/'' # name" "name \<noteq> []" "CHR ''/'' \<notin> set name"
    "dir \<noteq> []" "hd dir = CHR ''/''" "length path < 108" by blast
  then have "strrchr path (CHR ''/'') = Some (length dir)" by (auto simp: strrchr_split)
  with n show "runtime_directory path = (0, dir)" by (auto simp: runtime_directory_def)
qed

text \<open>Error numbers are positive; descriptors are naturals by their type.\<close>

definition errno_ok :: "int + 'a \<Rightarrow> bool" where
  "errno_ok a \<longleftrightarrow> (case a of Inl e \<Rightarrow> 0 < e | Inr x \<Rightarrow> True)"

definition fs_answers_ok :: "fs_answers \<Rightarrow> bool" where
  "fs_answers_ok ans \<longleftrightarrow>
     0 \<le> mkdir_answer ans \<and> errno_ok (lstat_directory ans) \<and> errno_ok (lstat_path ans) \<and> errno_ok (socket_answer ans) \<and>
     0 \<le> bind_answer ans \<and> 0 \<le> chmod_answer ans \<and> errno_ok (lstat_created ans) \<and> 0 \<le> listen_answer ans \<and>
     0 \<le> connect_answer ans \<and> errno_ok (peercred_answer ans)"

definition owned_directory :: "int + tgc_stat \<Rightarrow> u32 \<Rightarrow> bool" where
  "owned_directory a uid \<longleftrightarrow>
     (case a of Inl e \<Rightarrow> False | Inr st \<Rightarrow> S_ISDIR (st_mode st) \<and> st_uid st = uid \<and> st_mode st AND 511 = 448)"

definition owned_socket :: "int + tgc_stat \<Rightarrow> u32 \<Rightarrow> bool" where
  "owned_socket a uid \<longleftrightarrow>
     (case a of Inl e \<Rightarrow> False | Inr st \<Rightarrow> S_ISSOCK (st_mode st) \<and> st_uid st = uid \<and> st_mode st AND 511 = 384)"

lemma validate_directory_iff: "errno_ok a \<Longrightarrow> validate_runtime_directory a uid = 0 \<longleftrightarrow> owned_directory a uid"
  by (auto simp: validate_runtime_directory_def owned_directory_def errno_ok_def split: sum.splits)

lemma validate_directory_neg: "errno_ok a \<Longrightarrow> validate_runtime_directory a uid \<noteq> 0 \<Longrightarrow> validate_runtime_directory a uid < 0"
  by (auto simp: validate_runtime_directory_def errno_ok_def split: sum.splits if_splits)

lemma runtime_directory_neg: "fst (runtime_directory path) \<noteq> 0 \<Longrightarrow> fst (runtime_directory path) < 0"
  by (auto simp: runtime_directory_def split: option.splits)

text \<open>The listener's run before and after the checks on the paths.\<close>

definition path_checks :: "fs_answers \<Rightarrow> string \<Rightarrow> u32 \<Rightarrow> bool" where
  "path_checks ans path uid \<longleftrightarrow>
     fst (runtime_directory path) = 0 \<and> (mkdir_answer ans = 0 \<or> mkdir_answer ans = errno_code EEXIST) \<and>
     validate_runtime_directory (lstat_directory ans) uid = 0 \<and> lstat_path ans = Inl (errno_code ENOENT)"

lemma listen_refused:
  assumes ok: "fs_answers_ok ans" and no: "\<not> path_checks ans path uid"
  shows "fst (tgc_transport_listen ans path uid) < 0 \<and>
    snd (tgc_transport_listen ans path uid) \<in> {[], [Mkdir (snd (runtime_directory path)) 448]}"
proof -
  obtain rd dir where rd: "runtime_directory path = (rd, dir)" by (cases "runtime_directory path")
  let ?v = "validate_runtime_directory (lstat_directory ans) uid"
  have lstat: "errno_ok (lstat_directory ans)" "0 \<le> mkdir_answer ans" "errno_ok (lstat_path ans)" using ok by (simp_all add: fs_answers_ok_def)
  consider "rd \<noteq> 0" | "rd = 0" "\<not> (mkdir_answer ans = 0 \<or> mkdir_answer ans = errno_code EEXIST)"
    | "rd = 0" "mkdir_answer ans = 0 \<or> mkdir_answer ans = errno_code EEXIST" "?v \<noteq> 0"
    | st where "rd = 0" "mkdir_answer ans = 0 \<or> mkdir_answer ans = errno_code EEXIST" "?v = 0" "lstat_path ans = Inr st"
    | e where "rd = 0" "mkdir_answer ans = 0 \<or> mkdir_answer ans = errno_code EEXIST" "?v = 0" "lstat_path ans = Inl e" "e \<noteq> errno_code ENOENT"
    using no rd by (cases "lstat_path ans") (auto simp: path_checks_def)
  then show ?thesis
  proof cases
    case 1
    then show ?thesis using runtime_directory_neg [of path] by (simp add: tgc_transport_listen_def rd)
  next
    case 2
    then show ?thesis using lstat(2) by (simp add: tgc_transport_listen_def rd)
  next
    case 3
    then show ?thesis using validate_directory_neg [OF lstat(1) 3(3)] by (elim disjE) (simp_all add: tgc_transport_listen_def rd)
  next
    case 4
    then show ?thesis by (elim disjE) (simp_all add: tgc_transport_listen_def rd)
  next
    case 5
    then show ?thesis using lstat(3) by (elim disjE) (simp_all add: tgc_transport_listen_def rd errno_ok_def)
  qed
qed

lemma listen_opened:
  assumes "path_checks ans path uid" "socket_answer ans = Inr fd"
  shows "tgc_transport_listen ans path uid =
    (let bound = [Mkdir (snd (runtime_directory path)) 448, Open_socket fd, Umask 63, Bind fd path, Umask (umask_answer ans)];
         owned = bound @ [Chmod path 384]; undo = [Close fd, Unlink path] in
     if bind_answer ans \<noteq> 0 then (- bind_answer ans, bound @ [Close fd])
     else if chmod_answer ans \<noteq> 0 then (- chmod_answer ans, owned @ undo)
     else if \<not> owned_socket (lstat_created ans) uid
          then (case lstat_created ans of Inl e \<Rightarrow> - e | Inr st \<Rightarrow> err EPERM, owned @ undo)
     else if listen_answer ans \<noteq> 0 then (- listen_answer ans, owned @ [Listen fd 16] @ undo)
     else (int fd, owned @ [Listen fd 16]))"
proof -
  obtain dir where rd: "runtime_directory path = (0, dir)" using assms(1) by (cases "runtime_directory path") (simp add: path_checks_def)
  have m: "(mkdir_answer ans \<noteq> 0 \<and> mkdir_answer ans \<noteq> errno_code EEXIST) = False" using assms(1) by (auto simp: path_checks_def)
  have v: "validate_runtime_directory (lstat_directory ans) uid = 0" "lstat_path ans = Inl (errno_code ENOENT)" using assms(1) by (simp_all add: path_checks_def)
  note t = tgc_transport_listen_def [of ans path uid, unfolded rd Let_def prod.case m v if_False if_True sum.case assms(2) simp_thms]
  show ?thesis
  proof (cases "bind_answer ans = 0 \<and> chmod_answer ans = 0")
    case True
    then show ?thesis by (cases "lstat_created ans") (simp_all only: t, simp_all add: owned_socket_def rd)
  next
    case False
    then show ?thesis by (auto simp: t rd)
  qed
qed

text \<open>C26. A listener is owner-only and cleans up after itself. Success means: the directory is a directory
  of the expected user with mode 0700, the path did not exist before, and what exists there now is a socket
  of that user with mode 0600, still open and not unlinked. On failure a socket that was opened is
  closed, and if this call had bound it to the path, the path is unlinked after that; the path is unlinked only on failure and only when
  this call created it, and the process's file mode mask is put back in every case.\<close>

theorem listen_is_owner_only:
  assumes ok: "fs_answers_ok ans" and run: "tgc_transport_listen ans path uid = (r, effects)"
  shows "(0 \<le> r \<longrightarrow> owned_directory (lstat_directory ans) uid \<and> lstat_path ans = Inl (errno_code ENOENT) \<and>
            owned_socket (lstat_created ans) uid \<and> socket_answer ans = Inr (nat r) \<and> bind_answer ans = 0 \<and>
            listen_answer ans = 0 \<and> Listen (nat r) 16 \<in> set effects \<and> Close (nat r) \<notin> set effects) \<and>
    (r < 0 \<longrightarrow> (\<forall>fd. Open_socket fd \<in> set effects \<longrightarrow>
       (\<exists>before. effects = before @ (if bind_answer ans = 0 then [Close fd, Unlink path] else [Close fd])))) \<and>
    (\<forall>f. Unlink f \<in> set effects \<longrightarrow> r < 0 \<and> f = path \<and> lstat_path ans = Inl (errno_code ENOENT) \<and> bind_answer ans = 0) \<and>
    [m. Umask m \<leftarrow> effects] \<in> {[], [63, umask_answer ans]}"
proof (cases "path_checks ans path uid")
  case False
  from listen_refused [OF ok this] run show ?thesis by auto
next
  case True
  then have own: "owned_directory (lstat_directory ans) uid" "lstat_path ans = Inl (errno_code ENOENT)"
    using ok validate_directory_iff [of "lstat_directory ans" uid] by (simp_all add: fs_answers_ok_def path_checks_def)
  note ans = ok [unfolded fs_answers_ok_def errno_ok_def]
  let ?dir = "snd (runtime_directory path)"
  show ?thesis
  proof (cases "socket_answer ans")
    case (Inl e)
    then have "r < 0" "effects = [Mkdir ?dir 448]"
      using run True ans by (auto simp: tgc_transport_listen_def path_checks_def case_prod_beta)
    then show ?thesis by simp
  next
    case (Inr fd)
    let ?bound = "[Mkdir ?dir 448, Open_socket fd, Umask 63, Bind fd path, Umask (umask_answer ans)]"
    let ?owned = "?bound @ [Chmod path 384]" and ?undo = "[Close fd, Unlink path]"
    note run' = run [unfolded listen_opened [OF True Inr] Let_def]
    consider "bind_answer ans \<noteq> 0" | "bind_answer ans = 0" "chmod_answer ans \<noteq> 0 \<or> \<not> owned_socket (lstat_created ans) uid"
      | "bind_answer ans = 0" "chmod_answer ans = 0" "owned_socket (lstat_created ans) uid" "listen_answer ans \<noteq> 0"
      | "bind_answer ans = 0" "chmod_answer ans = 0" "owned_socket (lstat_created ans) uid" "listen_answer ans = 0" by blast
    then show ?thesis
    proof cases
      case 1
      then show ?thesis using run' ans own by auto
    next
      case 2
      then have "r < 0" "effects = ?owned @ ?undo" using run' ans by (auto split: if_splits sum.splits)
      then show ?thesis using own 2(1) by simp
    next
      case 3
      then have "r < 0" "effects = ?owned @ [Listen fd 16] @ ?undo" using run' ans by auto
      then show ?thesis using own 3(1) by simp
    next
      case 4
      then have "r = int fd" "effects = ?owned @ [Listen fd 16]" using run' by auto
      then show ?thesis using own Inr 4 by simp
    qed
  qed
qed

definition example_fs :: fs_answers where
  "example_fs = \<lparr>mkdir_answer = 17, lstat_directory = Inr \<lparr>st_mode = 0x41C0, st_uid = 1000\<rparr>, lstat_path = Inl 2,
     socket_answer = Inr 5, umask_answer = 18, bind_answer = 0, chmod_answer = 0,
     lstat_created = Inr \<lparr>st_mode = 0xC180, st_uid = 1000\<rparr>, listen_answer = 0, connect_answer = 0,
     peercred_answer = Inr (\<lparr>uc_pid = 42, uc_uid = 1000, uc_gid = 1000\<rparr>, 12)\<rparr>"

lemma example_path: "runtime_directory ''/run/tgc/sock'' = (0, ''/run/tgc'')"
  by code_simp

lemma example_fs_ok: "fs_answers_ok example_fs" "fs_answers_ok (example_fs\<lparr>lstat_path := lstat_created example_fs\<rparr>)"
  by (simp_all add: fs_answers_ok_def example_fs_def errno_ok_def)

theorem listen_is_owner_only_witness:
  "owned_directory (lstat_directory example_fs) 1000 \<and> owned_socket (lstat_created example_fs) 1000 \<and>
   fst (tgc_transport_listen example_fs ''/run/tgc/sock'' 1000) = 5 \<and>
   (\<exists>before. tgc_transport_listen (example_fs\<lparr>listen_answer := 98\<rparr>) ''/run/tgc/sock'' 1000 = (-98, before @ [Close 5, Unlink ''/run/tgc/sock'']))"
proof -
  have "tgc_transport_listen example_fs ''/run/tgc/sock'' 1000 =
      (5, [Mkdir ''/run/tgc'' 448, Open_socket 5, Umask 63, Bind 5 ''/run/tgc/sock'', Umask 18, Chmod ''/run/tgc/sock'' 384, Listen 5 16])"
    by (simp add: tgc_transport_listen_def example_path example_fs_def validate_runtime_directory_def)
  with listen_is_owner_only [OF example_fs_ok(1) this]
  have "owned_directory (lstat_directory example_fs) 1000 \<and> owned_socket (lstat_created example_fs) 1000 \<and>
      fst (tgc_transport_listen example_fs ''/run/tgc/sock'' 1000) = 5" by simp
  moreover obtain effects where fails: "tgc_transport_listen (example_fs\<lparr>listen_answer := 98\<rparr>) ''/run/tgc/sock'' 1000 = (-98, effects)"
    "Open_socket 5 \<in> set effects"
    by (simp add: tgc_transport_listen_def example_path example_fs_def validate_runtime_directory_def)
  have "fs_answers_ok (example_fs\<lparr>listen_answer := 98\<rparr>)" by (simp add: fs_answers_ok_def example_fs_def errno_ok_def)
  from listen_is_owner_only [OF this fails(1)] fails(2)
  have "\<exists>before. effects = before @ (if bind_answer (example_fs\<lparr>listen_answer := 98\<rparr>) = 0 then [Close 5, Unlink ''/run/tgc/sock''] else [Close 5])"
    by force
  then have "\<exists>before. effects = before @ [Close 5, Unlink ''/run/tgc/sock'']" by (simp add: example_fs_def)
  ultimately show ?thesis using fails(1) by blast
qed

text \<open>C27. A connection is only ever used when it leads to the owner's broker: success means that the directory
  and the socket are the user's, with modes 0700 and 0600, and that the kernel vouches for a peer process of the same
  user; on every failure a socket that was opened is closed again.\<close>

theorem connect_is_authenticated:
  assumes ok: "fs_answers_ok ans" and run: "tgc_transport_connect ans path uid = (r, effects)"
  shows "(0 \<le> r \<longrightarrow> owned_directory (lstat_directory ans) uid \<and> owned_socket (lstat_path ans) uid \<and>
            socket_answer ans = Inr (nat r) \<and> connect_answer ans = 0 \<and> Close (nat r) \<notin> set effects \<and>
            (\<exists>peer. peercred_answer ans = Inr (peer, 12) \<and> 0 < uc_pid peer \<and> uc_uid peer = uid)) \<and>
    (r < 0 \<longrightarrow> (\<forall>fd. Open_socket fd \<in> set effects \<longrightarrow> Close fd \<in> set effects))"
proof -
  obtain rd dir where rd: "runtime_directory path = (rd, dir)" by (cases "runtime_directory path")
  let ?v = "validate_runtime_directory (lstat_directory ans) uid"
  have lstat: "errno_ok (lstat_directory ans)" using ok by (simp add: fs_answers_ok_def)
  show ?thesis
  proof (cases "rd = 0 \<and> ?v = 0")
    case False
    then show ?thesis
      using run runtime_directory_neg [of path] validate_directory_neg [OF lstat, of uid]
      by (auto simp: tgc_transport_connect_def rd split: if_splits)
  next
    case True
    then have "owned_directory (lstat_directory ans) uid" using validate_directory_iff [OF lstat] by simp
    with True run ok show ?thesis
      by (auto simp: tgc_transport_connect_def rd Let_def fs_answers_ok_def errno_ok_def owned_socket_def
          tgc_transport_get_credentials_def split: if_splits sum.splits)
  qed
qed

theorem connect_is_authenticated_witness:
  "fst (tgc_transport_connect (example_fs\<lparr>lstat_path := lstat_created example_fs\<rparr>) ''/run/tgc/sock'' 1000) = 5 \<and>
   owned_socket (lstat_created example_fs) 1000"
proof -
  have "tgc_transport_connect (example_fs\<lparr>lstat_path := lstat_created example_fs\<rparr>) ''/run/tgc/sock'' 1000 =
      (5, [Open_socket 5, Connect 5 ''/run/tgc/sock''])"
    by (simp add: tgc_transport_connect_def example_path example_fs_def validate_runtime_directory_def
        tgc_transport_get_credentials_def)
  with connect_is_authenticated [OF example_fs_ok(2) this] show ?thesis by simp
qed

subsection \<open>Interruptible receives\<close>

fun faultless :: "recv_event list \<Rightarrow> bool" where
  "faultless [] \<longleftrightarrow> True"
| "faultless (Segment bs # s) \<longleftrightarrow> faultless s"
| "faultless (Recv_fault e # s) \<longleftrightarrow> False"

lemma recv_call_faultless: "recv_call n s = Some (e, s') \<Longrightarrow> faultless s \<Longrightarrow> faultless s' \<and> (\<exists>bs. e = Segment bs)"
  by (induction n s rule: recv_call.induct) (auto split: if_splits)

text \<open>The two receive functions differ only in what they do when a call is interrupted.\<close>

lemma receive_exact_faultless:
  "faultless s \<Longrightarrow> receive_exact output offset len c False s = receive_exact output offset len c True s \<and>
    (\<forall>r b s'. receive_exact output offset len c True s = Some (r, b, s') \<longrightarrow> faultless s')"
proof (induction "output" offset len c True s rule: receive_exact.induct)
  case (1 "output" offset len c s)
  show ?case
  proof (cases "offset < len")
    case True
    show ?thesis
    proof (cases "recv_call (len - offset) s")
      case None
      with True show ?thesis by (simp add: receive_exact.simps)
    next
      case (Some a)
      then obtain bs s' where a: "a = (Segment bs, s')" and f: "faultless s'"
        using recv_call_faultless "1.prems" by (cases a) blast
      show ?thesis
      proof (cases "bs = []")
        case True
        with \<open>offset < len\<close> Some a f show ?thesis by (simp add: receive_exact_eof)
      next
        case False
        from "1.hyps"(1) [OF True Some [unfolded a] refl refl False] f show ?thesis
          using True Some a False by (simp add: receive_exact_segment)
      qed
    qed
  qed (use "1.prems" in \<open>simp add: receive_exact_done\<close>)
qed

lemma receive_interruptible_faultless:
  "faultless s \<Longrightarrow> tgc_transport_receive_interruptible fd buf s = tgc_transport_receive fd buf s"
  unfolding tgc_transport_receive_interruptible_def tgc_transport_receive_def receive_packet_def
  by (cases "receive_exact (replicate 24 0) 0 24 True True s")
    (auto simp: receive_exact_faultless Let_def case_prod_beta)

end
