(* ===== verification/Client.thy ===== *)
theory Client
  imports Dispatch Transport
begin

text \<open>
  The client library of \<open>src/client.c\<close>: a lazily connected socket, one request and one response per
  call, and the functions that encode a System V semaphore call as a request and decode its
  response. Everything the kernel contributes to a call, and the indeterminate contents of the two
  packets on the caller's stack, is in \<open>client_env\<close>. A run gives its value, the client, the effects on
  descriptors and the bytes sent; \<open>None\<close> is a call that has not returned. The local request
  packet is not used after the exchange, so its final contents are not part of a run.
\<close>

unbundle bit_operations_syntax

record tgc_client =
  socket_fd :: int
  connection_pid :: int
  next_request_id :: u32
  client_path :: string

record client_env =
  env_pid :: int
  env_euid :: u32
  env_fs :: fs_answers
  env_send :: "send_event list"
  env_recv :: "recv_event list"
  env_request :: tgc_protocol_packet
  env_response :: tgc_protocol_packet

type_synonym 'a client_run = "('a \<times> tgc_client \<times> fs_effect list \<times> u8 list) option"

definition request_init :: "tgc_protocol_packet \<Rightarrow> u16 \<Rightarrow> u32 \<Rightarrow> tgc_protocol_packet" where
  "request_init request opc len =
     request\<lparr>header := \<lparr>version = TGC_PROTOCOL_VERSION, kind = TGC_PROTOCOL_REQUEST, opcode = opc,
       request_id = 0, payload_length = len, hdr_result = 0\<rparr>\<rparr>"

definition tgc_client_init :: "tgc_client \<Rightarrow> string \<Rightarrow> int \<times> tgc_client" where
  "tgc_client_init client path =
     (let len = length path in
      if path = [] \<or> hd path \<noteq> CHR ''/'' \<or> len = 0 \<or> SUN_PATH_SIZE \<le> len
      then (if SUN_PATH_SIZE \<le> len then err ENAMETOOLONG else err EINVAL, client)
      else (0, \<lparr>socket_fd = -1, connection_pid = 0, next_request_id = 0, client_path = path\<rparr>))"

definition tgc_client_close :: "tgc_client \<Rightarrow> tgc_client \<times> fs_effect list" where
  "tgc_client_close client =
     (client\<lparr>socket_fd := -1, connection_pid := 0\<rparr>,
      if 0 \<le> socket_fd client then [Close (nat (socket_fd client))] else [])"

definition ensure_connection :: "client_env \<Rightarrow> tgc_client \<Rightarrow> int \<times> tgc_client \<times> fs_effect list" where
  "ensure_connection env client =
     (let current_pid = env_pid env in
      if 0 \<le> socket_fd client \<and> connection_pid client = current_pid then (0, client, [])
      else
        let (client, closed) = tgc_client_close client;
            (fd, opened) = tgc_transport_connect (env_fs env) (client_path client) (env_euid env)
        in if fd < 0 then (fd, client, closed @ opened)
           else (0, client\<lparr>socket_fd := fd, connection_pid := current_pid\<rparr>, closed @ opened))"

text \<open>The identifiers of requests count from one and skip zero when they wrap around.\<close>

definition next_id :: "u32 \<Rightarrow> u32" where
  "next_id i = (if i + 1 = 0 then 1 else i + 1)"

definition exchange_with_interrupt ::
  "client_env \<Rightarrow> tgc_client \<Rightarrow> tgc_protocol_packet \<Rightarrow> tgc_protocol_packet \<Rightarrow> bool \<Rightarrow> (int \<times> tgc_protocol_packet) client_run" where
  "exchange_with_interrupt env client request response interruptible =
     (let (result, client, effects) = ensure_connection env client in
      if result \<noteq> 0 then Some ((result, response), client, effects, [])
      else
        let client = client\<lparr>next_request_id := next_id (next_request_id client)\<rparr>;
            request = request\<lparr>header := (header request)\<lparr>request_id := next_request_id client\<rparr>\<rparr>;
            (closed, closing) = tgc_client_close client
        in case tgc_transport_send (socket_fd client) request (env_send env) of
             None \<Rightarrow> None
           | Some (result, sent, _) \<Rightarrow>
               (case if result = 0
                     then if interruptible
                          then tgc_transport_receive_interruptible (socket_fd client) response (env_recv env)
                          else tgc_transport_receive (socket_fd client) response (env_recv env)
                     else Some (result, response, env_recv env) of
                  None \<Rightarrow> None
                | Some (result, response, _) \<Rightarrow>
                    if result \<noteq> 0
                    then Some ((if result = TGC_TRANSPORT_EOF then err ECONNRESET else result, response),
                               closed, effects @ closing, sent)
                    else if version (header response) \<noteq> TGC_PROTOCOL_VERSION \<or>
                            kind (header response) \<noteq> TGC_PROTOCOL_RESPONSE \<or>
                            opcode (header response) \<noteq> opcode (header request) \<or>
                            request_id (header response) \<noteq> request_id (header request) \<or>
                            hdr_result (header response) < 0 \<and> payload_length (header response) \<noteq> 0
                    then Some ((err EPROTO, response), closed, effects @ closing, sent)
                    else Some ((0, response), client, effects, sent)))"

definition exchange ::
  "client_env \<Rightarrow> tgc_client \<Rightarrow> tgc_protocol_packet \<Rightarrow> tgc_protocol_packet \<Rightarrow> (int \<times> tgc_protocol_packet) client_run" where
  "exchange env client request response = exchange_with_interrupt env client request response False"

text \<open>What the callers do with an exchange: stop at its error, or go on with the response. Each of them
  may still close the connection.\<close>

definition after_exchange ::
  "(int \<times> tgc_protocol_packet) client_run \<Rightarrow> (int \<Rightarrow> 'a) \<Rightarrow> (tgc_protocol_packet \<Rightarrow> 'a \<times> bool) \<Rightarrow> 'a client_run" where
  "after_exchange run failed use =
     (case run of
        None \<Rightarrow> None
      | Some ((result, response), client, effects, sent) \<Rightarrow>
          if result \<noteq> 0 then Some (failed result, client, effects, sent)
          else
            let (v, close) = use response; (closed, closing) = tgc_client_close client
            in if close then Some (v, closed, effects @ closing, sent) else Some (v, client, effects, sent))"

definition scalar_result :: "tgc_protocol_packet \<Rightarrow> int \<times> bool" where
  "scalar_result response =
     (if payload_length (header response) \<noteq> 0 then (err EPROTO, True) else (hdr_result (header response), False))"

definition scalar_call :: "client_env \<Rightarrow> tgc_client \<Rightarrow> tgc_protocol_packet \<Rightarrow> int client_run" where
  "scalar_call env client request =
     after_exchange (exchange env client request (env_response env)) (\<lambda>result. result) scalar_result"

definition scalar_call_interruptible :: "client_env \<Rightarrow> tgc_client \<Rightarrow> tgc_protocol_packet \<Rightarrow> int client_run" where
  "scalar_call_interruptible env client request =
     after_exchange (exchange_with_interrupt env client request (env_response env) True) (\<lambda>result. result) scalar_result"

definition tgc_client_ping :: "client_env \<Rightarrow> tgc_client \<Rightarrow> int client_run" where
  "tgc_client_ping env client = scalar_call env client (request_init (env_request env) TGC_OPCODE_PING 0)"

text \<open>Every call fills the request on its stack before the exchange. These are the requests, from the
  contents \<open>stack\<close> the packet had before.\<close>

definition semget_request :: "tgc_protocol_packet \<Rightarrow> int \<Rightarrow> int \<Rightarrow> int \<Rightarrow> tgc_protocol_packet" where
  "semget_request stack key n flags =
     (let request = request_init stack TGC_OPCODE_SEMGET 12;
          b = tgc_wire_put_i32 (payload request) 0 key;
          b = tgc_wire_put_i32 b 4 n;
          b = tgc_wire_put_u32 b 8 (word_of_int flags)
      in request\<lparr>payload := b\<rparr>)"

definition remove_request :: "tgc_protocol_packet \<Rightarrow> int \<Rightarrow> tgc_protocol_packet" where
  "remove_request stack semid =
     (let request = request_init stack TGC_OPCODE_REMOVE 4
      in request\<lparr>payload := tgc_wire_put_i32 (payload request) 0 semid\<rparr>)"

definition semnum_request :: "tgc_protocol_packet \<Rightarrow> u16 \<Rightarrow> int \<Rightarrow> nat \<Rightarrow> tgc_protocol_packet" where
  "semnum_request stack opc semid semnum =
     (let request = request_init stack opc 8;
          b = tgc_wire_put_i32 (payload request) 0 semid;
          b = tgc_wire_put_u32 b 4 (of_nat semnum)
      in request\<lparr>payload := b\<rparr>)"

definition setval_request :: "tgc_protocol_packet \<Rightarrow> int \<Rightarrow> nat \<Rightarrow> u32 \<Rightarrow> tgc_protocol_packet" where
  "setval_request stack semid semnum v =
     (let request = request_init stack TGC_OPCODE_SETVAL 12;
          b = tgc_wire_put_i32 (payload request) 0 semid;
          b = tgc_wire_put_u32 b 4 (of_nat semnum);
          b = tgc_wire_put_u32 b 8 v
      in request\<lparr>payload := b\<rparr>)"

definition setall_request :: "tgc_protocol_packet \<Rightarrow> int \<Rightarrow> u16 list \<Rightarrow> tgc_protocol_packet" where
  "setall_request stack semid vals =
     (let count = length vals;
          request = request_init stack TGC_OPCODE_SETALL (of_nat (8 + count * 2));
          b = tgc_wire_put_i32 (payload request) 0 semid;
          b = tgc_wire_put_u32 b 4 (of_nat count);
          b = wire_put_array tgc_wire_put_u16 2 b 8 vals
      in request\<lparr>payload := b\<rparr>)"

definition wire_put_op :: "u8 list \<Rightarrow> nat \<Rightarrow> tgc_sem_op \<Rightarrow> u8 list" where
  "wire_put_op b wire operation =
     (let b = tgc_wire_put_u16 b wire (sem_num operation);
          b = tgc_wire_put_i16 b (wire + 2) (sem_op operation);
          b = tgc_wire_put_u16 b (wire + 4) (sem_flg operation)
      in tgc_wire_put_u16 b (wire + 6) 0)"

definition semop_request :: "tgc_protocol_packet \<Rightarrow> int \<Rightarrow> tgc_sem_op list \<Rightarrow> bool \<Rightarrow> int \<Rightarrow> tgc_protocol_packet" where
  "semop_request stack semid operations timed timeout_nanoseconds =
     (let count = length operations;
          prefix_size = (if timed then 16 else 8);
          request = request_init stack (if timed then TGC_OPCODE_SEMTIMEDOP else TGC_OPCODE_SEMOP)
                      (of_nat (prefix_size + count * 8));
          b = tgc_wire_put_i32 (payload request) 0 semid;
          b = tgc_wire_put_u32 b 4 (of_nat count);
          b = (if timed then tgc_wire_put_i64 b 8 timeout_nanoseconds else b);
          b = wire_put_array wire_put_op 8 b prefix_size operations
      in request\<lparr>payload := b\<rparr>)"

definition stat_request :: "tgc_protocol_packet \<Rightarrow> int \<Rightarrow> tgc_protocol_packet" where
  "stat_request stack semid =
     (let request = request_init stack TGC_OPCODE_STAT 4
      in request\<lparr>payload := tgc_wire_put_i32 (payload request) 0 semid\<rparr>)"

definition stat_index_request :: "tgc_protocol_packet \<Rightarrow> nat \<Rightarrow> tgc_protocol_packet" where
  "stat_index_request stack index =
     (let request = request_init stack TGC_OPCODE_STAT_INDEX 4
      in request\<lparr>payload := tgc_wire_put_u32 (payload request) 0 (of_nat index)\<rparr>)"

definition setmeta_request :: "tgc_protocol_packet \<Rightarrow> int \<Rightarrow> u32 \<Rightarrow> u32 \<Rightarrow> u32 \<Rightarrow> tgc_protocol_packet" where
  "setmeta_request stack semid uid gid mode =
     (let request = request_init stack TGC_OPCODE_SETMETA 16;
          b = tgc_wire_put_i32 (payload request) 0 semid;
          b = tgc_wire_put_u32 b 4 uid;
          b = tgc_wire_put_u32 b 8 gid;
          b = tgc_wire_put_u32 b 12 mode
      in request\<lparr>payload := b\<rparr>)"

definition info_request :: "tgc_protocol_packet \<Rightarrow> int \<Rightarrow> tgc_protocol_packet" where
  "info_request stack dynamic =
     (let request = request_init stack TGC_OPCODE_INFO 4
      in request\<lparr>payload := tgc_wire_put_u32 (payload request) 0 (word_of_int dynamic)\<rparr>)"

definition tgc_client_semget :: "client_env \<Rightarrow> tgc_client \<Rightarrow> int \<Rightarrow> int \<Rightarrow> int \<Rightarrow> int client_run" where
  "tgc_client_semget env client key n flags = scalar_call env client (semget_request (env_request env) key n flags)"

definition tgc_client_remove :: "client_env \<Rightarrow> tgc_client \<Rightarrow> int \<Rightarrow> int client_run" where
  "tgc_client_remove env client semid =
     scalar_call env client (remove_request (env_request env) semid)"

definition semnum_call :: "client_env \<Rightarrow> tgc_client \<Rightarrow> u16 \<Rightarrow> int \<Rightarrow> nat \<Rightarrow> int client_run" where
  "semnum_call env client opc semid semnum =
     (if 4294967295 < semnum then Some (err EINVAL, client, [], [])
      else scalar_call env client (semnum_request (env_request env) opc semid semnum))"

definition tgc_client_getval :: "client_env \<Rightarrow> tgc_client \<Rightarrow> int \<Rightarrow> nat \<Rightarrow> int client_run" where
  "tgc_client_getval env client semid semnum = semnum_call env client TGC_OPCODE_GETVAL semid semnum"

definition tgc_client_setval :: "client_env \<Rightarrow> tgc_client \<Rightarrow> int \<Rightarrow> nat \<Rightarrow> u32 \<Rightarrow> int client_run" where
  "tgc_client_setval env client semid semnum v =
     (if 4294967295 < semnum then Some (err EINVAL, client, [], [])
      else scalar_call env client (setval_request (env_request env) semid semnum v))"

definition tgc_client_getpid :: "client_env \<Rightarrow> tgc_client \<Rightarrow> int \<Rightarrow> nat \<Rightarrow> int client_run" where
  "tgc_client_getpid env client semid semnum = semnum_call env client TGC_OPCODE_GETPID semid semnum"

definition tgc_client_getncnt :: "client_env \<Rightarrow> tgc_client \<Rightarrow> int \<Rightarrow> nat \<Rightarrow> int client_run" where
  "tgc_client_getncnt env client semid semnum = semnum_call env client TGC_OPCODE_GETNCNT semid semnum"

definition tgc_client_getzcnt :: "client_env \<Rightarrow> tgc_client \<Rightarrow> int \<Rightarrow> nat \<Rightarrow> int client_run" where
  "tgc_client_getzcnt env client semid semnum = semnum_call env client TGC_OPCODE_GETZCNT semid semnum"

text \<open>The array the caller passes comes in as \<open>vals\<close> and is returned beside the result.\<close>

definition tgc_client_getall :: "client_env \<Rightarrow> tgc_client \<Rightarrow> int \<Rightarrow> u16 list \<Rightarrow> nat \<Rightarrow> (int \<times> u16 list) client_run" where
  "tgc_client_getall env client semid vals count =
     (if count = 0 \<or> TGC_SEM_MAX_PER_SET < count then Some ((err EINVAL, vals), client, [], [])
      else
        let request = semnum_request (env_request env) TGC_OPCODE_GETALL semid count
        in after_exchange (exchange env client request (env_response env)) (\<lambda>result. (result, vals))
             (\<lambda>response.
                if hdr_result (header response) \<noteq> 0 then ((hdr_result (header response), vals), False)
                else if unat (payload_length (header response)) \<noteq> 4 + count * 2 \<or>
                        unat (tgc_wire_get_u32 (payload response) 0) \<noteq> count
                then ((err EPROTO, vals), True)
                else ((0, wire_get_array tgc_wire_get_u16 2 (payload response) 4 count @ drop count vals), False)))"

definition tgc_client_setall :: "client_env \<Rightarrow> tgc_client \<Rightarrow> int \<Rightarrow> u16 list \<Rightarrow> int client_run" where
  "tgc_client_setall env client semid vals =
     (let count = length vals in
      if count = 0 \<or> TGC_SEM_MAX_PER_SET < count then Some (err EINVAL, client, [], [])
      else scalar_call env client (setall_request (env_request env) semid vals))"

definition semop_call ::
  "client_env \<Rightarrow> tgc_client \<Rightarrow> int \<Rightarrow> tgc_sem_op list \<Rightarrow> bool \<Rightarrow> int \<Rightarrow> int client_run" where
  "semop_call env client semid operations timed timeout_nanoseconds =
     (let count = length operations in
      if count = 0 \<or> TGC_SEM_MAX_PER_SET < count \<or> timed \<and> timeout_nanoseconds < 0
      then Some (err EINVAL, client, [], [])
      else map_option (\<lambda>(result, rest). (if result = TGC_SEM_OP_BLOCKED then err EPROTO else result, rest))
             (scalar_call_interruptible env client
                (semop_request (env_request env) semid operations timed timeout_nanoseconds)))"

definition tgc_client_semop :: "client_env \<Rightarrow> tgc_client \<Rightarrow> int \<Rightarrow> tgc_sem_op list \<Rightarrow> int client_run" where
  "tgc_client_semop env client semid operations = semop_call env client semid operations False 0"

definition tgc_client_semtimedop :: "client_env \<Rightarrow> tgc_client \<Rightarrow> int \<Rightarrow> tgc_sem_op list \<Rightarrow> int \<Rightarrow> int client_run" where
  "tgc_client_semtimedop env client semid operations timeout_nanoseconds =
     semop_call env client semid operations True timeout_nanoseconds"

definition decode_metadata_response ::
  "tgc_sem_metadata \<Rightarrow> tgc_protocol_packet \<Rightarrow> (int \<times> tgc_sem_metadata) \<times> bool" where
  "decode_metadata_response metadata response =
     (let b = payload response in
      if hdr_result (header response) < 0 then ((hdr_result (header response), metadata), False)
      else if payload_length (header response) \<noteq> 56 \<or> tgc_wire_get_u32 b 28 \<noteq> 0 \<or> tgc_wire_get_u32 b 52 \<noteq> 0
      then ((err EPROTO, metadata), True)
      else ((hdr_result (header response),
             \<lparr>md_key = tgc_wire_get_i32 b 0, md_uid = tgc_wire_get_u32 b 4, md_gid = tgc_wire_get_u32 b 8,
              md_cuid = tgc_wire_get_u32 b 12, md_cgid = tgc_wire_get_u32 b 16, md_mode = tgc_wire_get_u32 b 20,
              md_nsems = tgc_wire_get_u32 b 24, md_otime = tgc_wire_get_i64 b 32, md_ctime = tgc_wire_get_i64 b 40,
              md_sequence = tgc_wire_get_u32 b 48\<rparr>), False))"

definition tgc_client_stat ::
  "client_env \<Rightarrow> tgc_client \<Rightarrow> int \<Rightarrow> tgc_sem_metadata \<Rightarrow> (int \<times> tgc_sem_metadata) client_run" where
  "tgc_client_stat env client semid metadata =
     after_exchange (exchange env client (stat_request (env_request env) semid) (env_response env)) (\<lambda>result. (result, metadata))
           (\<lambda>response.
              let ((result, metadata), close) = decode_metadata_response metadata response
              in ((if result < 0 then result else 0, metadata), close))"

definition tgc_client_stat_index ::
  "client_env \<Rightarrow> tgc_client \<Rightarrow> nat \<Rightarrow> tgc_sem_metadata \<Rightarrow> (int \<times> tgc_sem_metadata) client_run" where
  "tgc_client_stat_index env client index metadata =
     (if 4294967295 < index then Some ((err EINVAL, metadata), client, [], [])
      else after_exchange (exchange env client (stat_index_request (env_request env) index) (env_response env)) (\<lambda>result. (result, metadata))
             (decode_metadata_response metadata))"

definition tgc_client_set_metadata :: "client_env \<Rightarrow> tgc_client \<Rightarrow> int \<Rightarrow> u32 \<Rightarrow> u32 \<Rightarrow> u32 \<Rightarrow> int client_run" where
  "tgc_client_set_metadata env client semid uid gid mode =
     scalar_call env client (setmeta_request (env_request env) semid uid gid mode)"

text \<open>The loop over the pointers to the fields of the structure assigns them in the order of \<open>info_fields\<close>.\<close>

definition info_of_fields :: "int list \<Rightarrow> tgc_sem_info" where
  "info_of_fields fs =
     \<lparr>semmap = fs ! 0, semmni = fs ! 1, semmns = fs ! 2, semmnu = fs ! 3, semmsl = fs ! 4,
      semopm = fs ! 5, semume = fs ! 6, semusz = fs ! 7, semvmx = fs ! 8, semaem = fs ! 9\<rparr>"

definition tgc_client_info ::
  "client_env \<Rightarrow> tgc_client \<Rightarrow> int \<Rightarrow> tgc_sem_info \<Rightarrow> (int \<times> tgc_sem_info) client_run" where
  "tgc_client_info env client dynamic info =
     (if dynamic \<noteq> 0 \<and> dynamic \<noteq> 1 then Some ((err EINVAL, info), client, [], [])
      else after_exchange (exchange env client (info_request (env_request env) dynamic) (env_response env)) (\<lambda>result. (result, info))
             (\<lambda>response.
                if hdr_result (header response) < 0 then ((hdr_result (header response), info), False)
                else if payload_length (header response) \<noteq> 40 then ((err EPROTO, info), True)
                else ((hdr_result (header response),
                       info_of_fields (wire_get_array tgc_wire_get_i32 4 (payload response) 0 10)), False)))"

subsection \<open>The operations of a \<open>semop\<close> request on the wire\<close>

text \<open>An operation with its reserved field is an eight-byte field like the others.\<close>

definition put_op_raw :: "u8 list \<Rightarrow> nat \<Rightarrow> tgc_sem_op \<times> u16 \<Rightarrow> u8 list" where
  "put_op_raw b wire v =
     tgc_wire_put_u16 (tgc_wire_put_u16 (tgc_wire_put_i16 (tgc_wire_put_u16 b wire (sem_num (fst v))) (wire + 2) (sem_op (fst v)))
       (wire + 4) (sem_flg (fst v))) (wire + 6) (snd v)"

definition get_op_raw :: "u8 list \<Rightarrow> nat \<Rightarrow> tgc_sem_op \<times> u16" where
  "get_op_raw b wire = (wire_get_op b wire, tgc_wire_get_u16 b (wire + 6))"

interpretation sem_ops: wire_codec 8 "\<lambda>_. True" put_op_raw get_op_raw
proof
  fix off j v and b c :: "u8 list"
  show "length (put_op_raw b off v) = length b" by (simp add: put_op_raw_def)
  show "get_op_raw (put_op_raw b off v) off = v" if "off + 8 \<le> length b"
    using that by (cases v) (simp add: put_op_raw_def get_op_raw_def wire_get_op_def wire_simps)
  show "put_op_raw b off v ! j = b ! j" if "j < off \<or> off + 8 \<le> j"
    using that by (auto simp: put_op_raw_def tgc_wire_put_i16_def nth_put_u16_other)
  show "put_op_raw b off v ! j = put_op_raw c off v ! j"
    if "off + 8 \<le> length b" "off + 8 \<le> length c" "off \<le> j" "j < off + 8"
    using that by (auto simp: put_op_raw_def tgc_wire_put_i16_def nth_put_u16)
next
  fix off and b c :: "u8 list"
  assume *: "\<And>j. off \<le> j \<Longrightarrow> j < off + 8 \<Longrightarrow> b ! j = c ! j"
  have "tgc_wire_get_u16 b (off + k) = tgc_wire_get_u16 c (off + k)" if "k \<le> 6" for k
    using that by (intro u16.get_cong *) simp_all
  from this [of 0] this [of 2] this [of 4] this [of 6] show "get_op_raw b off = get_op_raw c off"
    by (simp add: get_op_raw_def wire_get_op_def tgc_wire_get_i16_def)
qed

lemma put_ops_raw: "wire_put_array wire_put_op 8 b base ops = wire_put_array put_op_raw 8 b base (map (\<lambda>x. (x, 0)) ops)"
proof -
  have "wire_put_op b off x = put_op_raw b off (x, 0)" for b off x by (simp add: wire_put_op_def put_op_raw_def)
  then show ?thesis unfolding wire_put_array_def length_map by (intro foldl_cong) simp_all
qed

lemma decode_operations_raw:
  "map (\<lambda>i. get_op_raw b (p + i * 8)) ks = map (\<lambda>x. (x, 0)) ops \<Longrightarrow> decode_operations b p ks = Some ops"
proof (induction ks arbitrary: ops)
  case (Cons i ks)
  then obtain x xs where x: "ops = x # xs" by (cases ops) auto
  then have "decode_operations b p ks = Some xs" "wire_get_op b (p + i * 8) = x" "tgc_wire_get_u16 b (p + i * 8 + 6) = 0"
    using Cons by (auto simp: get_op_raw_def)
  with x show ?case by simp
qed simp

lemma decode_put_ops:
  assumes "base + length ops * 8 \<le> length b"
  shows "decode_operations (wire_put_array wire_put_op 8 b base ops) base [0..<length ops] = Some ops"
  using sem_ops.get_put_array [of base "map (\<lambda>x. (x, 0)) ops" b] assms
  by (intro decode_operations_raw) (simp add: put_ops_raw wire_get_array_def)

lemma put_array_field:
  "off + 4 \<le> base \<Longrightarrow> tgc_wire_get_u32 (wire_put_array tgc_wire_put_u16 2 b base vs) off = tgc_wire_get_u32 b off"
  by (rule u32.get_cong) (simp add: u16.put_array_other)

lemma put_ops_field:
  "off + 4 \<le> base \<Longrightarrow> tgc_wire_get_u32 (wire_put_array wire_put_op 8 b base ops) off = tgc_wire_get_u32 b off"
  "off + 8 \<le> base \<Longrightarrow> tgc_wire_get_i64 (wire_put_array wire_put_op 8 b base ops) off = tgc_wire_get_i64 b off"
  unfolding put_ops_raw by (rule u32.get_cong i64.get_cong, simp add: sem_ops.put_array_other)+

lemma put_array_lengths [simp]:
  "length (wire_put_array tgc_wire_put_u16 2 b base vs) = length b"
  "length (wire_put_array wire_put_op 8 b base ops) = length b"
  by (simp_all add: u16.put_array_length put_ops_raw sem_ops.put_array_length)

subsection \<open>The mutating calls of the interface\<close>

datatype client_op =
    Semget int int int
  | Semremove int
  | Semsetval int nat u32
  | Semsetall int "u16 list"
  | Semsetmeta int u32 u32 u32
  | Semop int "tgc_sem_op list"
  | Semtimedop int "tgc_sem_op list" int

text \<open>The function of the library each of them is, the request it builds, the arguments of the C types that
  it does not refuse by itself, and the call of the store it stands for.\<close>

fun client_call :: "client_env \<Rightarrow> tgc_client \<Rightarrow> client_op \<Rightarrow> int client_run" where
  "client_call env client (Semget key n flags) = tgc_client_semget env client key n flags"
| "client_call env client (Semremove semid) = tgc_client_remove env client semid"
| "client_call env client (Semsetval semid semnum v) = tgc_client_setval env client semid semnum v"
| "client_call env client (Semsetall semid vals) = tgc_client_setall env client semid vals"
| "client_call env client (Semsetmeta semid uid gid mode) = tgc_client_set_metadata env client semid uid gid mode"
| "client_call env client (Semop semid ops) = tgc_client_semop env client semid ops"
| "client_call env client (Semtimedop semid ops timeout) = tgc_client_semtimedop env client semid ops timeout"

fun client_request :: "tgc_protocol_packet \<Rightarrow> client_op \<Rightarrow> tgc_protocol_packet" where
  "client_request stack (Semget key n flags) = semget_request stack key n flags"
| "client_request stack (Semremove semid) = remove_request stack semid"
| "client_request stack (Semsetval semid semnum v) = setval_request stack semid semnum v"
| "client_request stack (Semsetall semid vals) = setall_request stack semid vals"
| "client_request stack (Semsetmeta semid uid gid mode) = setmeta_request stack semid uid gid mode"
| "client_request stack (Semop semid ops) = semop_request stack semid ops False 0"
| "client_request stack (Semtimedop semid ops timeout) = semop_request stack semid ops True timeout"

fun client_op_ok :: "client_op \<Rightarrow> bool" where
  "client_op_ok (Semget key n flags) \<longleftrightarrow> in_i32 key \<and> in_i32 n \<and> in_i32 flags \<and>
     (word_of_int flags :: u32) AND NOT (512 OR 1024 OR 511) = 0"
| "client_op_ok (Semremove semid) \<longleftrightarrow> in_i32 semid"
| "client_op_ok (Semsetval semid semnum v) \<longleftrightarrow> in_i32 semid \<and> semnum \<le> 4294967295"
| "client_op_ok (Semsetall semid vals) \<longleftrightarrow> in_i32 semid \<and> 0 < length vals \<and> length vals \<le> 512"
| "client_op_ok (Semsetmeta semid uid gid mode) \<longleftrightarrow> in_i32 semid"
| "client_op_ok (Semop semid ops) \<longleftrightarrow> in_i32 semid \<and> 0 < length ops \<and> length ops \<le> 512"
| "client_op_ok (Semtimedop semid ops timeout) \<longleftrightarrow>
     in_i32 semid \<and> 0 < length ops \<and> length ops \<le> 512 \<and> 0 \<le> timeout \<and> in_i64 timeout"

fun broker_call :: "sys_answers \<Rightarrow> tgc_broker_actor \<Rightarrow> client_op \<Rightarrow> store_call" where
  "broker_call sys actor (Semget key n flags) = Get sys key n flags (actor_identity actor)"
| "broker_call sys actor (Semremove semid) = Remove semid"
| "broker_call sys actor (Semsetval semid semnum v) = Setval (clock_realtime sys) semid semnum v (actor_pid actor)"
| "broker_call sys actor (Semsetall semid vals) = Setall (clock_realtime sys) semid vals (actor_pid actor)"
| "broker_call sys actor (Semsetmeta semid uid gid mode) = SetMetadata (clock_realtime sys) semid uid gid mode (actor_identity actor)"
| "broker_call sys actor (Semop semid ops) = Tryop (clock_realtime sys) semid ops (actor_pid actor)"
| "broker_call sys actor (Semtimedop semid ops timeout) = Tryop (clock_realtime sys) semid ops (actor_pid actor)"

definition with_id :: "u32 \<Rightarrow> tgc_protocol_packet \<Rightarrow> tgc_protocol_packet" where
  "with_id i p = p\<lparr>header := (header p)\<lparr>request_id := i\<rparr>\<rparr>"

lemmas request_defs = semget_request_def remove_request_def semnum_request_def setval_request_def setall_request_def
  semop_request_def stat_request_def stat_index_request_def setmeta_request_def info_request_def request_init_def with_id_def

lemma unat_u32: "n \<le> 4294967295 \<Longrightarrow> unat (of_nat n :: u32) = n"
  by (simp add: unat_of_nat take_bit_nat_eq_self)

lemma length_u32: "count \<le> 512 \<Longrightarrow> p \<le> 16 \<Longrightarrow> k \<le> 8 \<Longrightarrow> unat (of_nat (p + count * k) :: u32) = p + count * k"
proof (rule unat_u32)
  assume "count \<le> 512" "p \<le> 16" "k \<le> 8"
  then have "p + count * k \<le> 16 + 512 * 8" by (intro add_mono mult_mono) simp_all
  then show "p + count * k \<le> 4294967295" by simp
qed

lemma requested_call_of_request:
  assumes "client_op_ok op" "length (payload stack) = 8192"
  shows "requested_call sys (with_id i (client_request stack op)) actor = Some (broker_call sys actor op)"
proof (cases op)
  case (Semsetall semid vals)
  let ?n = "length vals"
  have "unat (of_nat (8 + ?n * 2) :: u32) = 8 + ?n * 2" "unat (of_nat ?n :: u32) = ?n"
    using assms length_u32 [of ?n 8 2] unat_u32 [of ?n] Semsetall by auto
  then show ?thesis
    using assms Semsetall u16.get_put_array [of 8 vals]
    by (simp add: request_defs requested_call_def Let_def wire_simps put_array_field del: of_nat_add of_nat_mult)
next
  case (Semop semid ops)
  let ?n = "length ops"
  have "unat (of_nat (8 + ?n * 8) :: u32) = 8 + ?n * 8" "unat (of_nat ?n :: u32) = ?n"
    using assms length_u32 [of ?n 8 8] unat_u32 [of ?n] Semop by auto
  then show ?thesis
    using assms Semop decode_put_ops [of 8 ops]
    by (simp add: request_defs requested_call_def Let_def wire_simps put_ops_field del: of_nat_add of_nat_mult)
next
  case (Semtimedop semid ops timeout)
  let ?n = "length ops"
  have "unat (of_nat (16 + ?n * 8) :: u32) = 16 + ?n * 8" "unat (of_nat ?n :: u32) = ?n"
    using assms length_u32 [of ?n 16 8] unat_u32 [of ?n] Semtimedop by auto
  then show ?thesis
    using assms Semtimedop decode_put_ops [of 16 ops] i64.get_put [of 8]
    by (simp add: request_defs requested_call_def Let_def put_ops_field wire_simps del: of_nat_add of_nat_mult)
qed (use assms in \<open>auto simp: request_defs requested_call_def Let_def wire_simps unat_u32\<close>)

text \<open>The client and the dispatcher agree on the encoding of every mutating call: the request the client
  builds, whatever its stack held and whatever its number, is decoded by the dispatcher to exactly the call
  of the store the client asked for, with the arguments it gave.\<close>

lemma request_roundtrip:
  assumes "client_op_ok op" "length (payload stack) = 8192"
  shows "requested_call sys (with_id i (client_request stack op)) actor = Some (broker_call sys actor op)"
  using assms by (rule requested_call_of_request)

subsection \<open>An exchange that is answered\<close>

text \<open>A client with a usable connection, and a kernel that takes the bytes of a request.\<close>

definition connected :: "client_env \<Rightarrow> tgc_client \<Rightarrow> tgc_client \<Rightarrow> bool" where
  "connected env client client1 \<longleftrightarrow>
     (\<exists>effects. ensure_connection env client = (0, client1, effects)) \<and> 0 \<le> socket_fd client1 \<and>
     send_answers_ok (env_send env) \<and> 8216 \<le> send_progress (env_send env) \<and>
     length (payload (env_request env)) = 8192 \<and> length (payload (env_response env)) = 8192"

text \<open>A response the client accepts for a request.\<close>

definition matches :: "tgc_protocol_packet \<Rightarrow> tgc_protocol_packet \<Rightarrow> bool" where
  "matches request response \<longleftrightarrow> sendable response \<and> kind (header response) = 2 \<and>
     opcode (header response) = opcode (header request) \<and> request_id (header response) = request_id (header request) \<and>
     (hdr_result (header response) < 0 \<longrightarrow> payload_length (header response) = 0)"

lemma valid_version: "header_is_valid h = 0 \<Longrightarrow> version h = 1"
  by (simp add: header_is_valid_def split: if_splits)

lemma same_frame_header: "same_frame p q \<Longrightarrow> header q = header p"
  by (simp add: same_frame_def)

lemma exchange_answered:
  assumes conn: "connected env client client1"
    and req: "sendable (with_id (next_id (next_request_id client1)) request)"
    and reply: "quiet (env_recv env)" "stream_bytes (env_recv env) = frame response @ rest" "intr \<longrightarrow> faultless (env_recv env)"
    and ok: "matches (with_id (next_id (next_request_id client1)) request) response"
    and buf: "length (payload buf) = 8192"
  shows "\<exists>response' effects. exchange_with_interrupt env client request buf intr =
      Some ((0, response'), client1\<lparr>next_request_id := next_id (next_request_id client1)\<rparr>, effects,
        frame (with_id (next_id (next_request_id client1)) request)) \<and> same_frame response response'"
proof -
  let ?request = "with_id (next_id (next_request_id client1)) request"
  obtain effects where e: "ensure_connection env client = (0, client1, effects)" and fd: "0 \<le> socket_fd client1"
    and t: "send_answers_ok (env_send env)" "8216 \<le> send_progress (env_send env)"
    using conn by (auto simp: connected_def)
  obtain t' where s: "tgc_transport_send (socket_fd client1) ?request (env_send env) = Some (0, frame ?request, t')"
    using send_completes_frame [OF req fd t(1)] t(2) sendable_payload [OF req] by auto
  let ?r = "\<lparr>header = header response, payload = store_bytes (payload buf) 0 (take (unat (payload_length (header response))) (payload response))\<rparr>"
  have resp: "sendable response" using ok by (simp add: matches_def)
  obtain s' where "tgc_transport_receive (socket_fd client1) buf (env_recv env) = Some (0, ?r, s')"
    using receive_frame [OF resp fd reply(1,2) buf] by blast
  then have r: "(if intr then tgc_transport_receive_interruptible (socket_fd client1) buf (env_recv env)
      else tgc_transport_receive (socket_fd client1) buf (env_recv env)) = Some (0, ?r, s')"
    using reply(3) receive_interruptible_faultless by simp
  have "same_frame response ?r" using same_frame_stored [OF resp buf] .
  moreover have "version (header response) = 1" using resp valid_version by (simp add: sendable_def)
  ultimately show ?thesis
    using ok s r by (auto simp: exchange_with_interrupt_def e matches_def with_id_def Let_def tgc_client_close_def)
qed

lemma scalar_answered:
  assumes conn: "connected env client client1"
    and req: "sendable (with_id (next_id (next_request_id client1)) request)"
    and reply: "quiet (env_recv env)" "stream_bytes (env_recv env) = frame response @ rest"
    and ok: "matches (with_id (next_id (next_request_id client1)) request) response" "payload_length (header response) = 0"
  shows "\<exists>effects. scalar_call env client request =
      Some (hdr_result (header response), client1\<lparr>next_request_id := next_id (next_request_id client1)\<rparr>, effects,
        frame (with_id (next_id (next_request_id client1)) request))"
    and "faultless (env_recv env) \<Longrightarrow> \<exists>effects. scalar_call_interruptible env client request =
      Some (hdr_result (header response), client1\<lparr>next_request_id := next_id (next_request_id client1)\<rparr>, effects,
        frame (with_id (next_id (next_request_id client1)) request))"
proof -
  have buf: "length (payload (env_response env)) = 8192" using conn by (simp add: connected_def)
  have eq: "scalar_result r = (hdr_result (header response), False)" if "same_frame response r" for r
    using same_frame_header [OF that] ok(2) by (simp add: scalar_result_def)
  show "\<exists>effects. scalar_call env client request =
      Some (hdr_result (header response), client1\<lparr>next_request_id := next_id (next_request_id client1)\<rparr>, effects,
        frame (with_id (next_id (next_request_id client1)) request))"
    using exchange_answered [OF conn req reply _ ok(1) buf, of False] eq
    by (auto simp: scalar_call_def exchange_def after_exchange_def)
  show "\<exists>effects. scalar_call_interruptible env client request =
      Some (hdr_result (header response), client1\<lparr>next_request_id := next_id (next_request_id client1)\<rparr>, effects,
        frame (with_id (next_id (next_request_id client1)) request))" if "faultless (env_recv env)"
    using exchange_answered [OF conn req reply _ ok(1) buf, of True] eq that
    by (auto simp: scalar_call_interruptible_def after_exchange_def)
qed

subsection \<open>Remote calls\<close>

lemma client_request_header:
  assumes "client_op_ok op"
  shows "version (header (client_request stack op)) = 1" "kind (header (client_request stack op)) = 1"
    "hdr_result (header (client_request stack op)) = 0"
    "opcode (header (client_request stack op)) \<in> {2, 3, 5, 8, 9, 13, 14}"
    "unat (payload_length (header (client_request stack op))) \<le> 8192"
    "length (payload (client_request stack op)) = length (payload stack)"
proof -
  show "unat (payload_length (header (client_request stack op))) \<le> 8192"
    using assms length_u32 [where p = 8 and k = 2] length_u32 [where p = 8 and k = 8] length_u32 [where p = 16 and k = 8]
    by (cases op) (auto simp: request_defs Let_def simp del: of_nat_add of_nat_mult)
qed (cases op; simp add: request_defs Let_def)+

lemma client_request_sendable:
  assumes "client_op_ok op" "length (payload stack) = 8192"
  shows "sendable (with_id i (client_request stack op))"
  using client_request_header [OF assms(1), of stack] assms(2)
  by (auto simp: sendable_def packet_ok_def header_is_valid_def with_id_def in_i32_def)

text \<open>A request for a mutating call leaves the prepared response as it is, unless it blocks.\<close>

lemma dispatch_opcode_scalar:
  assumes "dispatch_opcode sys store request actor response = (r, store', response')"
    "opcode (header request) \<in> {2, 3, 5, 8, 9, 13, 14}" "r \<noteq> 1 \<or> opcode (header request) \<notin> {9, 14}"
  shows "response' = response"
proof (cases "opcode (header request) \<in> {9, 14}")
  case True
  then have "dispatch_semop (clock_realtime sys) store request (actor_pid actor) response = (r, store', response')"
    using assms(1) by (auto simp: dispatch_opcode_def)
  with assms(3) True show ?thesis
    by (auto simp: dispatch_semop_def Let_def split: if_splits option.splits prod.splits)
next
  case False
  with assms(1,2) show ?thesis by (auto simp: dispatch_opcode_def split: prod.splits if_splits)
qed


text \<open>A remote call is a local call. When the client has a connection, the kernel takes the request, the
  broker dispatches it and the response arrives, then the library function returns, and it returns exactly what
  the call on the broker's store returns; the store is what that call makes of it. (A \<open>semop\<close> that has to wait is
  not answered before it succeeds or fails.)\<close>

lemma remote_call_is_local:
  assumes conn: "connected env client client1" and op: "client_op_ok op"
    and inv: "store_inv store" and actor: "in_i32 (actor_pid actor)" "clock_ok (clock_realtime sys)"
    and buf: "length (payload rbuf) = 8192"
    and run: "tgc_broker_dispatch sys store (with_id (next_id (next_request_id client1)) (client_request (env_request env) op)) actor rbuf
      = (0, store', response)"
    and reply: "quiet (env_recv env)" "faultless (env_recv env)" "stream_bytes (env_recv env) = frame response @ rest"
    and now: "fst (store_exec (broker_call sys actor op) store) \<noteq> TGC_SEM_OP_BLOCKED"
  shows "store' = snd (store_exec (broker_call sys actor op) store) \<and>
    (\<exists>effects. client_call env client op =
       Some (fst (store_exec (broker_call sys actor op) store),
         client1\<lparr>next_request_id := next_id (next_request_id client1)\<rparr>, effects,
         frame (with_id (next_id (next_request_id client1)) (client_request (env_request env) op))))"
proof -
  let ?request = "client_request (env_request env) op"
  let ?sent = "with_id (next_id (next_request_id client1)) ?request"
  let ?call = "broker_call sys actor op"
  have stack: "length (payload (env_request env)) = 8192" using conn by (simp add: connected_def)
  note h = client_request_header [OF op, of "env_request env"]
  have call: "requested_call sys ?sent actor = Some ?call" by (rule requested_call_of_request [OF op stack])
  have opc: "opcode (header ?sent) \<in> {2, 3, 5, 8, 9, 13, 14}" using h(4) by (simp add: with_id_def)
  obtain r1 st1 resp1 where d: "dispatch_opcode sys store ?sent actor (prepare_response ?sent rbuf) = (r1, st1, resp1)"
    "store' = st1" "response = resp1\<lparr>header := (header resp1)\<lparr>hdr_result := r1,
       payload_length := (if r1 < 0 then 0 else payload_length (header resp1))\<rparr>\<rparr>"
    using run by (cases rule: dispatch_cases [of sys store ?sent actor rbuf]) auto
  have exec: "r1 = fst (store_exec ?call store)" "store' = snd (store_exec ?call store)"
    using dispatch_opcode_store [OF d(1)] call d(2) by simp_all
  have "resp1 = prepare_response ?sent rbuf" using dispatch_opcode_scalar [OF d(1) opc] now exec(1) by simp
  then have result: "hdr_result (header response) = r1" "payload_length (header response) = 0" "kind (header response) = 2"
    by (simp_all add: d(3) prepare_response_def)
  have "matches ?sent response"
    using dispatch_frame [OF inv actor buf run] opc result(3) by (auto simp: matches_def sendable_def)
  note answered = scalar_answered [OF conn client_request_sendable [OF op stack] reply(1,3) this result(2)]
  have "\<exists>effects. client_call env client op =
      Some (r1, client1\<lparr>next_request_id := next_id (next_request_id client1)\<rparr>, effects, frame ?sent)"
    using answered(1) answered(2) [OF reply(2)] op now exec(1) result(1)
    by (cases op) (auto simp: tgc_client_semget_def tgc_client_remove_def tgc_client_setval_def tgc_client_setall_def
        tgc_client_set_metadata_def tgc_client_semop_def tgc_client_semtimedop_def semop_call_def Let_def)
  with exec show ?thesis by simp
qed

text \<open>A connected client, and the environment in which one response reaches it.\<close>

definition example_client :: tgc_client where
  "example_client = \<lparr>socket_fd = 5, connection_pid = 77, next_request_id = 4, client_path = ''/run/tgc/sock''\<rparr>"

definition example_env :: "tgc_protocol_packet \<Rightarrow> client_env" where
  "example_env response = \<lparr>env_pid = 77, env_euid = 1000, env_fs = example_fs, env_send = replicate 8216 (Accept 1),
     env_recv = [Segment (frame response)], env_request = ping_request, env_response = ping_request\<rparr>"

lemma example_connected: "connected (example_env response) example_client example_client"
  using send_progress_replicate [of 8216]
  by (simp add: connected_def example_env_def example_client_def ensure_connection_def ping_request_def)

lemma frame_not_Nil: "frame p \<noteq> []"
  by (simp add: frame_def flip: length_0_conv)

lemma example_remove_ok: "fst (tgc_sem_store_remove example_store 65537) = 0"
  using example_find by (simp add: tgc_sem_store_remove_def)

subsection \<open>Calls that return data\<close>

text \<open>Metadata as the C types hold it.\<close>

definition metadata_ok :: "tgc_sem_metadata \<Rightarrow> bool" where
  "metadata_ok md \<longleftrightarrow> in_i32 (md_key md) \<and> in_i64 (md_otime md) \<and> in_i64 (md_ctime md)"

text \<open>The broker's encoding and the client's decoding of a set's metadata are inverse: the client gets the
  metadata the broker encoded, in any response buffer of the right size, and a frame that is the same on the wire
  decodes to the same value.\<close>

lemma metadata_roundtrip:
  assumes "metadata_ok md" "length (payload response) = 8192" "0 \<le> r"
    and "same_frame (encode_metadata response md) received"
    and "hdr_result (header response) = r"
  shows "decode_metadata_response old received = ((r, md), False)"
proof -
  let ?b = "payload (encode_metadata response md)"
  have h: "header received = header (encode_metadata response md)" and ag: "agree 56 ?b (payload received)"
    using assms(4) by (auto simp: same_frame_def encode_metadata_def set_payload_length_def Let_def)
  have g: "tgc_wire_get_u32 (payload received) k = tgc_wire_get_u32 ?b k" "tgc_wire_get_i32 (payload received) k = tgc_wire_get_i32 ?b k"
    if "k + 4 \<le> 56" for k
    using u32.get_agree [OF ag] i32.get_agree [OF ag] that by simp_all
  have g64: "tgc_wire_get_i64 (payload received) k = tgc_wire_get_i64 ?b k" if "k + 8 \<le> 56" for k
    using i64.get_agree [OF ag] that by simp
  have "\<not> hdr_result (header received) < 0" "payload_length (header received) = 56" "hdr_result (header received) = r"
    using assms(3,5) h by (simp_all add: encode_metadata_def set_payload_length_def Let_def)
  then show ?thesis
    using assms(1,2)
    by (simp add: decode_metadata_response_def Let_def g g64)
      (simp add: encode_metadata_def set_payload_length_def Let_def wire_simps metadata_ok_def)
qed

text \<open>The dispatcher's answer to a \<open>GETALL\<close> request, and what the client reads from it.\<close>

lemma getall_dispatched:
  assumes stack: "length (payload stack) = 8192" and args: "in_i32 semid" "0 < count" "count \<le> 512"
    and get: "tgc_sem_store_getall store semid [] count = (r, got)"
    and run: "tgc_broker_dispatch sys store (with_id i (semnum_request stack 7 semid count)) actor rbuf = (0, store', response)"
  shows "store' = store" "hdr_result (header response) = r" "kind (header response) = 2"
    "r = 0 \<Longrightarrow> payload_length (header response) = of_nat (4 + count * 2)"
    "r = 0 \<Longrightarrow> payload response = wire_put_array tgc_wire_put_u16 2 (tgc_wire_put_u32 (payload rbuf) 0 (of_nat count)) 4 got"
proof -
  let ?sent = "with_id i (semnum_request stack 7 semid count)"
  have h: "payload_length (header ?sent) = 8" "opcode (header ?sent) = 7" by (simp_all add: request_defs Let_def)
  have b: "tgc_wire_get_i32 (payload ?sent) 0 = semid" "tgc_wire_get_u32 (payload ?sent) 4 = of_nat count"
    using stack args(1) by (simp_all add: request_defs Let_def wire_simps)
  have n: "unat (of_nat count :: u32) = count" using args(3) by (intro unat_u32) simp
  have cnt: "(of_nat count :: u32) \<noteq> 0" "\<not> (512::u32) < of_nat count"
    using args n by (auto simp: word_less_nat_alt dest: arg_cong [where f = unat])
  have "dispatch_opcode sys store ?sent actor p = (r, store, if r = 0 then set_payload_length (4 + of_nat count * 2)
      (p\<lparr>payload := wire_put_array tgc_wire_put_u16 2 (tgc_wire_put_u32 (payload p) 0 (of_nat count)) 4 got\<rparr>) else p)" for p
    using cnt get n by (simp add: dispatch_opcode_def dispatch_getall_def h b Let_def)
  then show "store' = store" "hdr_result (header response) = r" "kind (header response) = 2"
    "r = 0 \<Longrightarrow> payload_length (header response) = of_nat (4 + count * 2)"
    "r = 0 \<Longrightarrow> payload response = wire_put_array tgc_wire_put_u16 2 (tgc_wire_put_u32 (payload rbuf) 0 (of_nat count)) 4 got"
    using run by (cases rule: dispatch_cases [of sys store ?sent actor rbuf];
        auto simp: prepare_response_def set_payload_length_def split: if_splits)+
qed

lemma getall_decoded:
  assumes "same_frame response response'" "length b = 8192" "length got = count" "count \<le> 512"
    "payload_length (header response) = of_nat (4 + count * 2)"
    "payload response = wire_put_array tgc_wire_put_u16 2 (tgc_wire_put_u32 b 0 (of_nat count)) 4 got"
  shows "tgc_wire_get_u32 (payload response') 0 = of_nat count"
    "wire_get_array tgc_wire_get_u16 2 (payload response') 4 count = got"
proof -
  have ag: "agree (4 + count * 2) (payload response) (payload response')"
    using assms(1,4,5) length_u32 [of count 4 2] by (simp add: same_frame_def del: of_nat_add of_nat_mult)
  show "tgc_wire_get_u32 (payload response') 0 = of_nat count"
    using u32.get_agree [OF ag, of 0] assms(2) by (simp add: assms(6) put_array_field get_put_u32)
  show "wire_get_array tgc_wire_get_u16 2 (payload response') 4 count = got"
    using u16.get_array_agree [OF ag, of 4 count] u16.get_put_array [of 4 got "tgc_wire_put_u32 b 0 (of_nat count)"]
      assms(2,3,4) by (simp add: assms(6))
qed

text \<open>C37. A remote \<open>GETALL\<close> returns the values of the broker's set: the result of the store's call and,
  when it succeeds, its values in the caller's array, with the store unchanged.\<close>

theorem remote_getall_is_local:
  assumes conn: "connected env client client1" and args: "in_i32 semid" "0 < count" "count \<le> 512"
    and inv: "store_inv store" and actor: "in_i32 (actor_pid actor)" "clock_ok (clock_realtime sys)"
    and buf: "length (payload rbuf) = 8192"
    and run: "tgc_broker_dispatch sys store
        (with_id (next_id (next_request_id client1)) (semnum_request (env_request env) TGC_OPCODE_GETALL semid count)) actor rbuf
      = (0, store', response)"
    and reply: "quiet (env_recv env)" "stream_bytes (env_recv env) = frame response @ rest"
  shows "store' = store \<and>
    (\<exists>client' effects sent. tgc_client_getall env client semid vals count =
       Some ((let (result, got) = tgc_sem_store_getall store semid [] count
              in (result, if result = 0 then got @ drop count vals else vals)), client', effects, sent))"
proof -
  let ?request = "semnum_request (env_request env) 7 semid count"
  let ?sent = "with_id (next_id (next_request_id client1)) ?request"
  have stack: "length (payload (env_request env)) = 8192" "length (payload (env_response env)) = 8192"
    using conn by (simp_all add: connected_def)
  obtain r got where g: "tgc_sem_store_getall store semid [] count = (r, got)" by (cases "tgc_sem_store_getall store semid [] count")
  note d = getall_dispatched [OF stack(1) args g run]
  have "sendable ?sent"
    using stack by (simp add: sendable_def packet_ok_def header_is_valid_def in_i32_def request_defs Let_def)
  moreover have "matches ?sent response"
    using dispatch_frame [OF inv actor buf run] d(3) by (simp add: matches_def sendable_def) (simp add: request_defs Let_def)
  ultimately obtain response' effects where ex: "exchange_with_interrupt env client ?request (env_response env) False =
      Some ((0, response'), client1\<lparr>next_request_id := next_id (next_request_id client1)\<rparr>, effects, frame ?sent)"
    and sf: "same_frame response response'"
    using exchange_answered [OF conn _ reply _ _ stack(2), of ?request False] by auto
  have hd: "header response' = header response" using same_frame_header [OF sf] .
  have n: "unat (of_nat count :: u32) = count" "unat (of_nat (4 + count * 2) :: u32) = 4 + count * 2"
    using length_u32 [of count 4 2] unat_u32 [of count] args(3) by simp_all
  show ?thesis
  proof (cases "r = 0")
    case True
    have "length got = count" using getall_values_length [OF inv] g True by simp
    note dec = getall_decoded [OF sf buf this args(3) d(4,5), OF True True]
    show ?thesis
      using d(1,2) d(4) [OF True] args ex dec n hd True
      by (simp add: tgc_client_getall_def exchange_def after_exchange_def Let_def g del: of_nat_add of_nat_mult)
  next
    case False
    then show ?thesis
      using d(1,2) args ex hd by (simp add: tgc_client_getall_def exchange_def after_exchange_def Let_def g)
  qed
qed

lemma example_getall: "tgc_sem_store_getall example_store 65537 [] 2 = (0, [0, 0])"
  using example_find by (simp add: tgc_sem_store_getall_def example_store_def example_result example_set_def)

theorem remote_getall_is_local_witness:
  "\<exists>response client' effects sent.
     tgc_broker_dispatch example_sys example_store (with_id 5 (semnum_request ping_request 7 65537 2)) example_actor ping_request
       = (0, example_store, response) \<and>
     tgc_client_getall (example_env response) example_client 65537 [9, 9, 9] 2 = Some ((0, [0, 0, 9]), client', effects, sent)"
proof -
  let ?sent = "with_id 5 (semnum_request ping_request 7 65537 2)"
  obtain s store' response where d: "tgc_broker_dispatch example_sys example_store ?sent example_actor ping_request = (s, store', response)"
    by (cases "tgc_broker_dispatch example_sys example_store ?sent example_actor ping_request")
  have "fst (tgc_broker_dispatch example_sys example_store ?sent example_actor ping_request) = 0"
    by (simp add: tgc_broker_dispatch_def request_defs example_actor_def case_prod_beta Let_def)
  with d have s: "s = 0" by simp
  have id: "next_id (next_request_id example_client) = 5" by (simp add: next_id_def example_client_def)
  have "store' = example_store \<and> (\<exists>client' effects sent. tgc_client_getall (example_env response) example_client 65537 [9, 9, 9] 2 =
      Some ((let (result, got) = tgc_sem_store_getall example_store 65537 [] 2
             in (result, if result = 0 then got @ drop 2 [9, 9, 9] else [9, 9, 9])), client', effects, sent))"
    by (rule remote_getall_is_local [OF example_connected _ _ _ example_store_inv example_sys_ok(2,1),
          where rbuf = ping_request and response = response and rest = "[]"])
      (use d s id in \<open>simp_all add: ping_request_def example_env_def frame_not_Nil in_i32_def\<close>)
  then show ?thesis using d s by (auto simp: example_getall)
qed

text \<open>How an exchange ends once there is a connection.\<close>

lemma exchange_cases:
  assumes "exchange_with_interrupt env client request buf intr = Some ((r, response), client', effects, sent)"
    and "ensure_connection env client = (0, client1, opened)" "0 \<le> socket_fd client1"
  obtains (failed) "r \<noteq> 0" "client' = client1\<lparr>next_request_id := next_id (next_request_id client1), socket_fd := -1, connection_pid := 0\<rparr>"
  | (answered) "r = 0" "client' = client1\<lparr>next_request_id := next_id (next_request_id client1)\<rparr>" "kind (header response) = 2"
      "opcode (header response) = opcode (header request)" "request_id (header response) = next_id (next_request_id client1)"
proof -
  let ?request = "request\<lparr>header := (header request)\<lparr>request_id := next_id (next_request_id client1)\<rparr>\<rparr>"
  have sel: "socket_fd (client1\<lparr>next_request_id := i\<rparr>) = socket_fd client1" "next_request_id (client1\<lparr>next_request_id := i\<rparr>) = i" for i
    by simp_all
  note run = assms(1) [unfolded exchange_with_interrupt_def assms(2) Let_def tgc_client_close_def prod.case sel, simplified]
  obtain s1 b1 t1 where s: "tgc_transport_send (socket_fd client1) ?request (env_send env) = Some (s1, b1, t1)"
    using run by (cases "tgc_transport_send (socket_fd client1) ?request (env_send env)") auto
  let ?recv = "if s1 = 0 then if intr then tgc_transport_receive_interruptible (socket_fd client1) buf (env_recv env)
      else tgc_transport_receive (socket_fd client1) buf (env_recv env) else Some (s1, buf, env_recv env)"
  note run = run [unfolded s option.case prod.case]
  obtain r1 p1 t2 where rc: "?recv = Some (r1, p1, t2)" using run by (cases ?recv) auto
  note run = run [unfolded rc option.case prod.case]
  show ?thesis
  proof (cases "r = 0")
    case True
    then show ?thesis using run by (intro answered) (auto split: if_splits)
  next
    case False
    then show ?thesis using run by (intro failed) (auto split: if_splits)
  qed
qed

text \<open>C14. An exchange leaves no connection behind that could be out of step: whenever it fails, for whatever
  reason, the client is disconnected, and when it succeeds the response is the one to this request and the
  connection belongs to the calling process. Bytes only ever leave on such a connection, never on one inherited
  through a \<open>fork\<close>.\<close>

theorem exchange_stays_in_step:
  assumes "exchange_with_interrupt env client request buf intr = Some ((r, response), client', effects, sent)"
  shows "(r \<noteq> 0 \<longrightarrow> socket_fd client' = -1 \<and> connection_pid client' = 0) \<and>
    (r = 0 \<longrightarrow> 0 \<le> socket_fd client' \<and> connection_pid client' = env_pid env \<and> kind (header response) = TGC_PROTOCOL_RESPONSE \<and>
       opcode (header response) = opcode (header request) \<and> request_id (header response) = next_request_id client' \<and>
       next_request_id client' \<noteq> 0) \<and>
    (sent \<noteq> [] \<longrightarrow> 0 \<le> socket_fd client \<and> connection_pid client = env_pid env \<or>
       (\<exists>fd. 0 \<le> fd \<and> fst (tgc_transport_connect (env_fs env) (client_path client) (env_euid env)) = fd))"
proof -
  obtain result client1 opened where e: "ensure_connection env client = (result, client1, opened)" by (cases "ensure_connection env client")
  have c: "result \<noteq> 0 \<Longrightarrow> socket_fd client1 = -1 \<and> connection_pid client1 = 0"
    "result = 0 \<Longrightarrow> 0 \<le> socket_fd client1 \<and> connection_pid client1 = env_pid env"
    "result = 0 \<Longrightarrow> 0 \<le> socket_fd client \<and> connection_pid client = env_pid env \<or>
       0 \<le> fst (tgc_transport_connect (env_fs env) (client_path client) (env_euid env))"
    using e by (auto simp: ensure_connection_def tgc_client_close_def Let_def case_prod_beta split: if_splits)
  have id: "next_id i \<noteq> 0" for i by (simp add: next_id_def)
  show ?thesis
  proof (cases "result = 0")
    case False
    with assms(1) e c(1) show ?thesis by (auto simp: exchange_with_interrupt_def)
  next
    case True
    note c = c(2,3) [OF True]
    from assms(1) e [unfolded True] conjunct1 [OF c(1)] show ?thesis
      by (cases rule: exchange_cases) (use c id in auto)
  qed
qed


theorem exchange_stays_in_step_witness:
  "exchange_with_interrupt (example_env ping_response) (example_client\<lparr>connection_pid := 76, client_path := []\<rparr>) ping_request ping_request False =
     Some ((err EINVAL, ping_request), example_client\<lparr>socket_fd := -1, connection_pid := 0, client_path := []\<rparr>, [Close 5], []) \<and>
   socket_fd (example_client\<lparr>socket_fd := -1, connection_pid := 0, client_path := []\<rparr>) = -1"
proof -
  have run: "exchange_with_interrupt (example_env ping_response) (example_client\<lparr>connection_pid := 76, client_path := []\<rparr>) ping_request ping_request False =
     Some ((err EINVAL, ping_request), example_client\<lparr>socket_fd := -1, connection_pid := 0, client_path := []\<rparr>, [Close 5], [])"
    by (simp add: exchange_with_interrupt_def ensure_connection_def example_env_def example_client_def tgc_client_close_def
        tgc_transport_connect_def runtime_directory_def)
  from exchange_stays_in_step [OF this] run show ?thesis by simp
qed

end
