(* ===== verification/Broker.thy ===== *)
theory Broker
  imports Dispatch Transport "HOL-Library.Monad_Syntax"
begin

text \<open>
  The broker of \<open>src/broker_server.c\<close>: the store behind one mutex, the linked list of blocked
  requests, the table of processes with pending undo adjustments and its monitor, and the loop of one
  connection. A waiter is a local variable of the thread that blocks, so the list runs through
  an explicit store of cells, addressed by thread. Walking the list may not end on a cyclic one:
  such functions are partial, with \<open>None\<close> for a walk that never returns.

  The mutex makes everything between taking it and waiting on the condition variable one step, so
  \<open>dispatch_request\<close> is cut at the wait: \<open>dispatch_begin\<close> runs up to the first wait, \<open>dispatch_resume\<close>
  from a wakeup to the next wait, and both end with \<open>Returned\<close> and the function's result, or with
  \<open>Waits\<close>. The answers of the kernel to the calls of a step are arguments.
\<close>

unbundle bit_operations_syntax

abbreviation (input) TGC_MAX_UNDO_PROCESSES :: nat where "TGC_MAX_UNDO_PROCESSES \<equiv> 1024"
abbreviation (input) PROCESS_CHECK_INTERVAL_NS :: int where "PROCESS_CHECK_INTERVAL_NS \<equiv> 250000000"
abbreviation (input) INT_MAX :: int where "INT_MAX \<equiv> 2147483647"

record timespec =
  tv_sec :: int
  tv_nsec :: int

record tgc_waiter =
  w_semid :: int
  w_semnum :: u16
  w_wait_for_zero :: u16
  w_counted :: bool
  w_has_deadline :: bool
  w_deadline :: timespec
  w_next :: "nat option"

record tgc_process_watcher =
  watch_pid :: int
  watch_pidfd :: int
  watch_inode :: u64
  watch_active :: bool

record tgc_broker =
  broker_store :: tgc_sem_store
  cells :: "nat \<Rightarrow> tgc_waiter option"
  waiters_head :: "nat option"
  waiters_tail :: "nat option"
  process_watchers :: "tgc_process_watcher list"
  state_changed :: nat
  process_monitor_started :: bool
  stop_process_monitor :: bool

text \<open>Of the condition variable the model keeps how often it was broadcast. A wait may also end without one, so
  nothing else about it matters.\<close>

definition broadcast :: "tgc_broker \<Rightarrow> tgc_broker" where
  "broadcast broker = broker\<lparr>state_changed := state_changed broker + 1\<rparr>"

subsection \<open>Processes\<close>

fun decimal :: "nat \<Rightarrow> string" where
  "decimal n = (if n < 10 then [char_of (48 + n)] else decimal (n div 10) @ [char_of (48 + n mod 10)])"

text \<open>The path and whether \<open>snprintf\<close> had room for it in 64 bytes.\<close>

definition proc_path :: "int \<Rightarrow> string \<Rightarrow> int \<times> string" where
  "proc_path pid suffix =
     (let text = ''/proc/'' @ (if pid < 0 then ''-'' else []) @ decimal (nat \<bar>pid\<bar>) @ suffix
      in (if 0 < length text \<and> length text < 64 then 0 else err EOVERFLOW, take 63 text))"

text \<open>The answers of the kernel about files below \<open>/proc\<close>, by path: an inode, and the text that
  opening and reading the file gives, each or an error number.\<close>

record proc_answers =
  stat_inode :: "string \<Rightarrow> int + u64"
  open_file :: "string \<Rightarrow> int option"
  read_file :: "string \<Rightarrow> int + string"
  poll_answer :: "int \<Rightarrow> int \<times> u16"
  pidfd_open :: "int \<Rightarrow> int + nat"

definition open_pidfd :: "proc_answers \<Rightarrow> int \<Rightarrow> int" where
  "open_pidfd ans pid = (case pidfd_open ans pid of Inl e \<Rightarrow> - e | Inr fd \<Rightarrow> int fd)"

definition read_proc_identity :: "proc_answers \<Rightarrow> int \<Rightarrow> u64 \<Rightarrow> int \<times> u64" where
  "read_proc_identity ans pid inode =
     (let (result, path) = proc_path pid [] in
      if result \<noteq> 0 then (result, inode)
      else case stat_inode ans path of Inl e \<Rightarrow> (- e, inode) | Inr ino \<Rightarrow> (0, ino))"

definition proc_state_is_exited :: "proc_answers \<Rightarrow> int \<Rightarrow> u64 \<Rightarrow> bool" where
  "proc_state_is_exited ans pid expected_inode =
     (let (result, current_inode) = read_proc_identity ans pid 0 in
      if result = err ENOENT \<or> result = 0 \<and> current_inode \<noteq> expected_inode then True
      else if result \<noteq> 0 then False
      else
        let (result, path) = proc_path pid ''/stat'' in
        if result \<noteq> 0 then False
        else case open_file ans path of
               Some e \<Rightarrow> e = errno_code ENOENT
             | None \<Rightarrow>
                 (case read_file ans path of
                    Inl e \<Rightarrow> False
                  | Inr text \<Rightarrow>
                      let buffer = take 255 text in
                      if buffer = [] then False
                      else
                        let s = takeWhile (\<lambda>c. c \<noteq> CHR 0x00) buffer @ [CHR 0x00, CHR 0x00]
                        in case strrchr (takeWhile (\<lambda>c. c \<noteq> CHR 0x00) buffer) (CHR '')'') of
                             None \<Rightarrow> False
                           | Some p \<Rightarrow> s ! (p + 1) = CHR '' '' \<and>
                               (s ! (p + 2) = CHR ''Z'' \<or> s ! (p + 2) = CHR ''X'')))"

text \<open>\<open>POLLIN | POLLHUP | POLLERR\<close> is 25.\<close>

definition process_has_exited :: "proc_answers \<Rightarrow> tgc_process_watcher \<Rightarrow> bool" where
  "process_has_exited ans watcher =
     (if 0 \<le> watch_pidfd watcher then
        let (result, revents) = poll_answer ans (watch_pidfd watcher)
        in 0 < result \<and> revents AND 25 \<noteq> 0
      else proc_state_is_exited ans (watch_pid watcher) (watch_inode watcher))"

definition has_process_watchers :: "tgc_broker \<Rightarrow> bool" where
  "has_process_watchers broker = list_ex watch_active (process_watchers broker)"

definition idle_watcher :: tgc_process_watcher where
  "idle_watcher = \<lparr>watch_pid = 0, watch_pidfd = -1, watch_inode = 0, watch_active = False\<rparr>"

text \<open>One slot of the monitor's scan, with the clock answers \<open>now\<close> for the store, and the whole scan: the
  broker and the descriptors closed.\<close>

definition monitor_slot ::
  "proc_answers \<Rightarrow> (nat \<Rightarrow> nat \<Rightarrow> int option) \<Rightarrow> nat \<Rightarrow> tgc_broker \<times> int list \<Rightarrow> tgc_broker \<times> int list" where
  "monitor_slot ans now i state =
     (let (broker, closed) = state; watcher = process_watchers broker ! i in
      if \<not> watch_active watcher \<or> \<not> process_has_exited ans watcher then state
      else
        let (changed, store) = tgc_sem_store_process_exit (now i) (broker_store broker) (watch_pid watcher);
            closed = (if 0 \<le> watch_pidfd watcher then closed @ [watch_pidfd watcher] else closed);
            broker = broker\<lparr>broker_store := store, process_watchers := (process_watchers broker)[i := idle_watcher]\<rparr>
        in (if 0 < changed then broadcast broker else broker, closed))"

definition monitor_scan ::
  "proc_answers \<Rightarrow> (nat \<Rightarrow> nat \<Rightarrow> int option) \<Rightarrow> tgc_broker \<Rightarrow> tgc_broker \<times> int list" where
  "monitor_scan ans now broker = fold (monitor_slot ans now) [0..<TGC_MAX_UNDO_PROCESSES] (broker, [])"

text \<open>What the monitor does between two scans: stop, sleep until it is woken, or sleep at most until
  a time on the monotonic clock.\<close>

datatype monitor_next = Stop | Sleep | Sleep_until timespec

definition add_interval :: "timespec \<Rightarrow> timespec" where
  "add_interval t =
     (let t = t\<lparr>tv_nsec := tv_nsec t + PROCESS_CHECK_INTERVAL_NS\<rparr>
      in if 1000000000 \<le> tv_nsec t then t\<lparr>tv_sec := tv_sec t + 1, tv_nsec := tv_nsec t - 1000000000\<rparr> else t)"

text \<open>One turn of the loop of \<open>monitor_process_exits\<close>, which holds the mutex except while it sleeps.\<close>

definition monitor_round ::
  "proc_answers \<Rightarrow> (nat \<Rightarrow> nat \<Rightarrow> int option) \<Rightarrow> int + timespec \<Rightarrow> tgc_broker \<Rightarrow> (tgc_broker \<times> int list) \<times> monitor_next" where
  "monitor_round ans now clock broker =
     (if stop_process_monitor broker then ((broker, []), Stop)
      else
        let (broker, closed) = monitor_scan ans now broker
        in ((broker, closed),
            if stop_process_monitor broker then Stop
            else if \<not> has_process_watchers broker then Sleep
            else case clock of Inl e \<Rightarrow> Stop | Inr t \<Rightarrow> Sleep_until (add_interval t)))"

subsection \<open>Creation and destruction\<close>

text \<open>The return values of the calls of \<open>tgc_broker_create\<close>, and the resources it makes and releases.\<close>

record create_answers =
  calloc_broker :: bool
  create_store :: bool
  mutex_init_answer :: int
  condattr_init_answer :: int
  condattr_setclock_answer :: int
  cond_init_answer :: int
  attr_init_answer :: int
  attr_setstacksize_answer :: int
  pthread_create_answer :: int

datatype resource = Broker_memory | Broker_store | Broker_mutex | Cond_attributes | Broker_condition | Thread_attributes | Monitor_thread

datatype resource_event = Acquire resource | Release resource

definition tgc_broker_create :: "create_answers \<Rightarrow> tgc_broker option \<times> resource_event list" where
  "tgc_broker_create ans =
     (if \<not> calloc_broker ans then (None, [])
      else if \<not> create_store ans then (None, [Acquire Broker_memory, Release Broker_memory])
      else
        let log = [Acquire Broker_memory, Acquire Broker_store];
            result = mutex_init_answer ans
        in if result \<noteq> 0 then (None, log @ [Release Broker_store, Release Broker_memory])
        else
          let log = log @ [Acquire Broker_mutex];
              result = condattr_init_answer ans;
              attributes_initialized = (result = 0);
              log = log @ (if result = 0 then [Acquire Cond_attributes] else []);
              result = (if result = 0 then condattr_setclock_answer ans else result);
              made = (result = 0 \<and> cond_init_answer ans = 0);
              result = (if result = 0 then cond_init_answer ans else result);
              log = log @ (if made then [Acquire Broker_condition] else []) @
                    (if attributes_initialized then [Release Cond_attributes] else [])
          in if result \<noteq> 0 then (None, log @ [Release Broker_mutex, Release Broker_store, Release Broker_memory])
          else
            let result = attr_init_answer ans;
                monitor_attributes_initialized = (result = 0);
                log = log @ (if result = 0 then [Acquire Thread_attributes] else []);
                result = (if result = 0 then attr_setstacksize_answer ans else result);
                started = (result = 0 \<and> pthread_create_answer ans = 0);
                result = (if result = 0 then pthread_create_answer ans else result);
                log = log @ (if started then [Acquire Monitor_thread] else []) @
                      (if monitor_attributes_initialized then [Release Thread_attributes] else [])
            in if result \<noteq> 0
               then (None, log @ [Release Broker_condition, Release Broker_mutex, Release Broker_store, Release Broker_memory])
               else (Some \<lparr>broker_store = tgc_sem_store_create, cells = (\<lambda>a. None), waiters_head = None, waiters_tail = None,
                       process_watchers = replicate TGC_MAX_UNDO_PROCESSES idle_watcher, state_changed = 0,
                       process_monitor_started = True, stop_process_monitor = False\<rparr>, log))"

text \<open>The descriptors closed, and the resources released; \<open>lock_answer\<close> is the answer of
  \<open>pthread_mutex_lock\<close>, and joining the monitor releases its thread.\<close>

definition tgc_broker_destroy :: "int \<Rightarrow> tgc_broker \<Rightarrow> tgc_broker \<times> int list \<times> resource_event list" where
  "tgc_broker_destroy lock_answer broker =
     (let broker = (if process_monitor_started broker \<and> lock_answer = 0
                    then broadcast (broker\<lparr>stop_process_monitor := True\<rparr>) else broker);
          joined = (if process_monitor_started broker then [Release Monitor_thread] else []);
          closed = map watch_pidfd (filter (\<lambda>w. watch_active w \<and> 0 \<le> watch_pidfd w) (process_watchers broker))
      in (broker, closed, joined @ [Release Broker_condition, Release Broker_mutex, Release Broker_store, Release Broker_memory]))"

subsection \<open>The queue of waiters\<close>

definition operation_changed_state :: "tgc_protocol_packet \<Rightarrow> tgc_protocol_packet \<Rightarrow> bool" where
  "operation_changed_state request response =
     (if hdr_result (header response) \<noteq> 0 then False
      else opcode (header request) = TGC_OPCODE_REMOVE \<or> opcode (header request) = TGC_OPCODE_SETVAL \<or>
           opcode (header request) = TGC_OPCODE_SETALL \<or> opcode (header request) = TGC_OPCODE_SEMOP \<or>
           opcode (header request) = TGC_OPCODE_SEMTIMEDOP)"

text \<open>Storing to the \<open>next\<close> field of a cell.\<close>

definition set_next :: "nat \<Rightarrow> nat option \<Rightarrow> tgc_broker \<Rightarrow> tgc_broker" where
  "set_next a p broker = broker\<lparr>cells := (cells broker)(a := map_option (\<lambda>w. w\<lparr>w_next := p\<rparr>) (cells broker a))\<rparr>"

definition next_of :: "tgc_broker \<Rightarrow> nat \<Rightarrow> nat option" where
  "next_of broker a = Option.bind (cells broker a) w_next"

definition enqueue_waiter :: "tgc_broker \<Rightarrow> nat \<Rightarrow> tgc_broker" where
  "enqueue_waiter broker waiter =
     (let broker = set_next waiter None broker;
          broker = (case waiters_tail broker of
                      None \<Rightarrow> broker\<lparr>waiters_head := Some waiter\<rparr>
                    | Some tail \<Rightarrow> set_next tail (Some waiter) broker)
      in broker\<lparr>waiters_tail := Some waiter\<rparr>)"

text \<open>The search loop of \<open>remove_waiter\<close>: the values of \<open>previous\<close> and \<open>current\<close> when it ends.\<close>

partial_function (option) find_waiter ::
  "tgc_broker \<Rightarrow> nat \<Rightarrow> nat option \<Rightarrow> nat option \<Rightarrow> (nat option \<times> nat option) option" where
  "find_waiter broker waiter previous current =
     (if current = None \<or> current = Some waiter then Some (previous, current)
      else find_waiter broker waiter current (next_of broker (the current)))"

definition remove_waiter :: "tgc_broker \<Rightarrow> nat \<Rightarrow> tgc_broker option" where
  "remove_waiter broker waiter =
     do {
       (previous, current) \<leftarrow> find_waiter broker waiter None (waiters_head broker);
       case current of
         None \<Rightarrow> Some broker
       | Some c \<Rightarrow>
           (let next = next_of broker c;
                broker = (case previous of
                            None \<Rightarrow> broker\<lparr>waiters_head := next\<rparr>
                          | Some p \<Rightarrow> set_next p next broker);
                broker = (if waiters_tail broker = Some c then broker\<lparr>waiters_tail := previous\<rparr> else broker)
            in Some broker)
     }"

partial_function (option) first_for_set :: "tgc_broker \<Rightarrow> nat \<Rightarrow> nat option \<Rightarrow> bool option" where
  "first_for_set broker waiter current =
     (if current = None then Some False
      else if current = Some waiter then Some True
      else if map_option w_semid (cells broker (the current)) = map_option w_semid (cells broker waiter) then Some False
      else first_for_set broker waiter (next_of broker (the current)))"

definition waiter_is_first_for_set :: "tgc_broker \<Rightarrow> nat \<Rightarrow> bool option" where
  "waiter_is_first_for_set broker waiter = first_for_set broker waiter (waiters_head broker)"

text \<open>\<open>finish_waiter\<close>; the local variable of the waiter dies when its function returns.\<close>

definition finish_waiter :: "tgc_broker \<Rightarrow> nat \<Rightarrow> tgc_broker option" where
  "finish_waiter broker waiter =
     do {
       broker \<leftarrow> remove_waiter broker waiter;
       case cells broker waiter of
         None \<Rightarrow> Some broker
       | Some w \<Rightarrow>
           (let broker = (if w_counted w
                          then broker\<lparr>broker_store := snd (tgc_sem_store_adjust_wait_count (broker_store broker) (w_semid w)
                                 (unat (w_semnum w)) (w_wait_for_zero w \<noteq> 0) (-1))\<rparr>
                          else broker)
            in Some (broker\<lparr>cells := (cells broker)(waiter := None)\<rparr>))
     }"

subsection \<open>Time\<close>

definition compare_timespec :: "timespec \<Rightarrow> timespec \<Rightarrow> int" where
  "compare_timespec left right =
     (if tv_sec left \<noteq> tv_sec right then (if tv_sec left < tv_sec right then -1 else 1)
      else if tv_nsec left = tv_nsec right then 0 else if tv_nsec left < tv_nsec right then -1 else 1)"

text \<open>C division of a non-negative dividend truncates as \<open>div\<close> does.\<close>

definition initialize_deadline :: "int + timespec \<Rightarrow> tgc_protocol_packet \<Rightarrow> tgc_waiter \<Rightarrow> int \<times> tgc_waiter" where
  "initialize_deadline clock request waiter =
     (if opcode (header request) \<noteq> TGC_OPCODE_SEMTIMEDOP then (0, waiter)
      else
        let timeout_ns = tgc_wire_get_i64 (payload request) 8 in
        if timeout_ns < 0 then (err EINVAL, waiter)
        else case clock of
          Inl e \<Rightarrow> (- e, waiter)
        | Inr now \<Rightarrow>
            let seconds = timeout_ns div 1000000000;
                nanoseconds = timeout_ns mod 1000000000;
                deadline =
                  (if INT_MAX < seconds \<or> INT_MAX - seconds < tv_sec now
                   then \<lparr>tv_sec = INT_MAX, tv_nsec = 999999999\<rparr>
                   else
                     let d = \<lparr>tv_sec = tv_sec now + seconds, tv_nsec = tv_nsec now + nanoseconds\<rparr>
                     in if 1000000000 \<le> tv_nsec d
                        then d\<lparr>tv_sec := tv_sec d + 1, tv_nsec := tv_nsec d - 1000000000\<rparr> else d)
            in (0, waiter\<lparr>w_deadline := deadline, w_has_deadline := True\<rparr>))"

text \<open>The part of \<open>wait_for_state_change\<close> before the wait: an error, or the time of the next check.\<close>

definition wait_prepare :: "int + timespec \<Rightarrow> tgc_waiter \<Rightarrow> int + timespec" where
  "wait_prepare clock waiter =
     (case clock of
        Inl e \<Rightarrow> Inl (- e)
      | Inr now \<Rightarrow>
          (let deadline = add_interval now in
           Inr (if w_has_deadline waiter \<and> compare_timespec (w_deadline waiter) deadline < 0
                then w_deadline waiter else deadline)))"

text \<open>The part after \<open>pthread_cond_timedwait\<close> returned \<open>cond_result\<close>: the result and whether the
  operation has timed out.\<close>

definition wait_wakeup :: "int \<Rightarrow> int + timespec \<Rightarrow> tgc_waiter \<Rightarrow> int \<times> bool" where
  "wait_wakeup cond_result clock waiter =
     (if cond_result \<noteq> 0 \<and> cond_result \<noteq> errno_code ETIMEDOUT then (- cond_result, False)
      else if w_has_deadline waiter then
        (case clock of
           Inl e \<Rightarrow> (- e, False)
         | Inr now \<Rightarrow> (0, 0 \<le> compare_timespec now (w_deadline waiter)))
      else (0, False))"

text \<open>The result of \<open>recv\<close> with \<open>MSG_PEEK | MSG_DONTWAIT\<close>: a number of bytes or an error number.
  \<open>EWOULDBLOCK\<close> is \<open>EAGAIN\<close>.\<close>

definition peer_has_closed :: "int + nat \<Rightarrow> bool" where
  "peer_has_closed answer =
     (case answer of
        Inr n \<Rightarrow> n = 0
      | Inl e \<Rightarrow> e \<noteq> errno_code EAGAIN \<and> e \<noteq> errno_code EINTR)"

subsection \<open>Watching processes\<close>

definition request_uses_undo :: "tgc_protocol_packet \<Rightarrow> bool" where
  "request_uses_undo request =
     (let h = header request in
      if opcode h \<noteq> TGC_OPCODE_SEMOP \<and> opcode h \<noteq> TGC_OPCODE_SEMTIMEDOP then False
      else
        let prefix_size = (if opcode h = TGC_OPCODE_SEMTIMEDOP then 16 else 8 :: u32) in
        if payload_length h < prefix_size then False
        else
          let count = tgc_wire_get_u32 (payload request) 4 in
          if count = 0 \<or> TGC_SEM_MAX_PER_SET < count \<or> payload_length h \<noteq> prefix_size + count * 8 then False
          else list_ex (\<lambda>i. tgc_wire_get_u16 (payload request) (unat prefix_size + i * 8 + 4) AND TGC_SEM_UNDO \<noteq> 0)
                 [0..<unat count])"

definition watch_process :: "proc_answers \<Rightarrow> tgc_broker \<Rightarrow> int \<Rightarrow> int \<times> tgc_broker" where
  "watch_process ans broker pid =
     (if list_ex (\<lambda>w. watch_active w \<and> watch_pid w = pid) (process_watchers broker) then (0, broker)
      else case find_index (\<lambda>w. \<not> watch_active w) (process_watchers broker) of
        None \<Rightarrow> (err ENOSPC, broker)
      | Some available \<Rightarrow>
          let pidfd = open_pidfd ans pid;
              (result, proc_inode) = (if pidfd < 0 then read_proc_identity ans pid 0 else (0, 0))
          in if result \<noteq> 0 then (result, broker)
             else (0, broadcast (broker\<lparr>process_watchers := (process_watchers broker)[available :=
                     \<lparr>watch_pid = pid, watch_pidfd = (if 0 \<le> pidfd then pidfd else -1), watch_inode = proc_inode,
                      watch_active = True\<rparr>]\<rparr>)))"

definition prepare_error_response :: "tgc_protocol_packet \<Rightarrow> tgc_protocol_packet \<Rightarrow> int \<Rightarrow> tgc_protocol_packet" where
  "prepare_error_response request response result =
     response\<lparr>header := \<lparr>version = TGC_PROTOCOL_VERSION, kind = TGC_PROTOCOL_RESPONSE, opcode = opcode (header request),
       request_id = request_id (header request), payload_length = 0, hdr_result = result\<rparr>\<rparr>"

subsection \<open>Requests\<close>

datatype outcome = Returned int | Waits

text \<open>The answers of the kernel in one round of the wait loop: the peek at the socket, the system calls of the
  store, and the clock before the wait.\<close>

record round_answers =
  peek_answer :: "int + nat"
  round_sys :: sys_answers
  round_clock :: "int + timespec"

text \<open>The end of a wait: the waiter leaves the queue, the others are woken, the function returns.\<close>

definition leave_queue ::
  "int \<Rightarrow> tgc_broker \<Rightarrow> nat \<Rightarrow> tgc_protocol_packet \<Rightarrow> (outcome \<times> tgc_broker \<times> tgc_protocol_packet) option" where
  "leave_queue result broker waiter response =
     map_option (\<lambda>broker. (Returned result, broadcast broker, response)) (finish_waiter broker waiter)"

definition enter_wait ::
  "int + timespec \<Rightarrow> tgc_broker \<Rightarrow> nat \<Rightarrow> tgc_protocol_packet \<Rightarrow> (outcome \<times> tgc_broker \<times> tgc_protocol_packet) option" where
  "enter_wait clock broker waiter response =
     do {
       w \<leftarrow> cells broker waiter;
       case wait_prepare clock w of
         Inl e \<Rightarrow> leave_queue e broker waiter response
       | Inr deadline \<Rightarrow> Some (Waits, broker, response)
     }"

text \<open>The body of the loop from its top to the wait.\<close>

definition wait_round ::
  "round_answers \<Rightarrow> tgc_broker \<Rightarrow> nat \<Rightarrow> tgc_protocol_packet \<Rightarrow> tgc_broker_actor \<Rightarrow> tgc_protocol_packet \<Rightarrow>
   (outcome \<times> tgc_broker \<times> tgc_protocol_packet) option" where
  "wait_round ans broker waiter request actor response =
     (if peer_has_closed (peek_answer ans) then leave_queue 0 broker waiter response
      else do {
        first \<leftarrow> waiter_is_first_for_set broker waiter;
        if first then
          (let (result, store, response) = tgc_broker_dispatch (round_sys ans) (broker_store broker) request actor response;
               broker = broker\<lparr>broker_store := store\<rparr>
           in if result \<noteq> 0 \<or> hdr_result (header response) \<noteq> TGC_SEM_OP_BLOCKED
              then leave_queue result broker waiter response
              else enter_wait (round_clock ans) broker waiter response)
        else enter_wait (round_clock ans) broker waiter response
      })"

record begin_answers =
  lock_answer :: int
  begin_proc :: proc_answers
  begin_sys :: sys_answers
  begin_clock :: "int + timespec"
  begin_round :: round_answers

text \<open>The waiter's fields come from the response of the blocked dispatch.\<close>

definition make_waiter :: "tgc_protocol_packet \<Rightarrow> tgc_protocol_packet \<Rightarrow> tgc_waiter" where
  "make_waiter request response =
     \<lparr>w_semid = tgc_wire_get_i32 (payload request) 0,
      w_semnum = (if payload_length (header response) = 8 then tgc_wire_get_u16 (payload response) 0 else 0xffff),
      w_wait_for_zero = (if payload_length (header response) = 8 then tgc_wire_get_u16 (payload response) 2 else 0xffff),
      w_counted = False, w_has_deadline = False, w_deadline = \<lparr>tv_sec = 0, tv_nsec = 0\<rparr>, w_next = None\<rparr>"

text \<open>A request that cannot proceed is enqueued. \<open>waiter\<close> is the address of the thread's local variable.\<close>

definition block_request ::
  "begin_answers \<Rightarrow> tgc_broker \<Rightarrow> nat \<Rightarrow> tgc_protocol_packet \<Rightarrow> tgc_broker_actor \<Rightarrow> tgc_protocol_packet \<Rightarrow>
   (outcome \<times> tgc_broker \<times> tgc_protocol_packet) option" where
  "block_request ans broker waiter request actor response =
     (let w = make_waiter request response in
      if payload_length (header response) \<noteq> 8 \<or> 1 < w_wait_for_zero w \<or> tgc_wire_get_u32 (payload response) 4 \<noteq> 0
      then Some (Returned (err EPROTO), broker, response)
      else
        let (result, w) = initialize_deadline (begin_clock ans) request w in
        if result \<noteq> 0 then Some (Returned result, broker, response)
        else
          let (result, store) = tgc_sem_store_adjust_wait_count (broker_store broker) (w_semid w) (unat (w_semnum w))
                (w_wait_for_zero w \<noteq> 0) 1;
              broker = broker\<lparr>broker_store := store\<rparr>
          in if result \<noteq> 0 then Some (Returned result, broker, response)
             else
               let broker = broker\<lparr>cells := (cells broker)(waiter := Some (w\<lparr>w_counted := True\<rparr>))\<rparr>
               in wait_round (begin_round ans) (enqueue_waiter broker waiter) waiter request actor response)"

definition dispatch_begin ::
  "begin_answers \<Rightarrow> tgc_broker \<Rightarrow> nat \<Rightarrow> tgc_protocol_packet \<Rightarrow> tgc_broker_actor \<Rightarrow> tgc_protocol_packet \<Rightarrow>
   (outcome \<times> tgc_broker \<times> tgc_protocol_packet) option" where
  "dispatch_begin ans broker waiter request actor response =
     (if lock_answer ans \<noteq> 0 then Some (Returned (- lock_answer ans), broker, response)
      else
        let (result, broker) = (if request_uses_undo request then watch_process (begin_proc ans) broker (actor_pid actor)
                                else (0, broker)) in
        if result \<noteq> 0 then Some (Returned 0, broker, prepare_error_response request response result)
        else
          let (result, store, response) = tgc_broker_dispatch (begin_sys ans) (broker_store broker) request actor response;
              broker = broker\<lparr>broker_store := store\<rparr>
          in if result \<noteq> 0 then Some (Returned result, broker, response)
             else if opcode (header request) \<noteq> TGC_OPCODE_SEMOP \<and> opcode (header request) \<noteq> TGC_OPCODE_SEMTIMEDOP \<or>
                     hdr_result (header response) \<noteq> TGC_SEM_OP_BLOCKED
             then Some (Returned 0, if operation_changed_state request response then broadcast broker else broker, response)
             else block_request ans broker waiter request actor response)"

record resume_answers =
  cond_answer :: int
  wake_clock :: "int + timespec"
  wake_round :: round_answers

definition dispatch_resume ::
  "resume_answers \<Rightarrow> tgc_broker \<Rightarrow> nat \<Rightarrow> tgc_protocol_packet \<Rightarrow> tgc_broker_actor \<Rightarrow> tgc_protocol_packet \<Rightarrow>
   (outcome \<times> tgc_broker \<times> tgc_protocol_packet) option" where
  "dispatch_resume ans broker waiter request actor response =
     do {
       w \<leftarrow> cells broker waiter;
       let (result, operation_timed_out) = wait_wakeup (cond_answer ans) (wake_clock ans) w;
       if result \<noteq> 0 then leave_queue result broker waiter response
       else if operation_timed_out
       then leave_queue 0 broker waiter
              (response\<lparr>header := (header response)\<lparr>hdr_result := err EAGAIN, payload_length := 0\<rparr>\<rparr>)
       else wait_round (wake_round ans) broker waiter request actor response
     }"

subsection \<open>Connections\<close>

text \<open>The authentication of \<open>tgc_broker_serve_connection\<close>: its result, or the actor of the connection.
  The comparisons of the user and group with \<open>UINT32_MAX\<close> cannot hold for 32-bit values.\<close>

definition serve_begin :: "int + ucred \<times> nat \<Rightarrow> int \<Rightarrow> u32 \<Rightarrow> int + tgc_broker_actor" where
  "serve_begin peercred fd expected_uid =
     (if fd < 0 then Inl (err EINVAL)
      else
        let (result, credentials) =
              tgc_transport_get_credentials peercred fd expected_uid \<lparr>cred_pid = 0, cred_uid = 0, cred_gid = 0\<rparr>
        in if result \<noteq> 0 then Inl result
           else if 2147483647 < cred_pid credentials then Inl (err EOVERFLOW)
           else Inr \<lparr>actor_pid = cred_pid credentials,
                     actor_identity = \<lparr>id_uid = cred_uid credentials, id_gid = cred_gid credentials\<rparr>\<rparr>)"

text \<open>A connection is ready for a request, waits in the broker, or is over with the result of the function.\<close>

datatype conn_state = Ready | Blocked tgc_protocol_packet tgc_protocol_packet | Closed int

text \<open>After \<open>dispatch_request\<close>: the response is sent, with the answers \<open>t\<close> of \<open>send\<close>; the bytes sent are
  part of the result.\<close>

definition serve_respond ::
  "int \<Rightarrow> tgc_protocol_packet \<Rightarrow> outcome \<Rightarrow> tgc_protocol_packet \<Rightarrow> send_event list \<Rightarrow> (conn_state \<times> u8 list) option" where
  "serve_respond fd request out response t =
     (case out of
        Waits \<Rightarrow> Some (Blocked request response, [])
      | Returned result \<Rightarrow>
          if result \<noteq> 0 then Some (Closed result, [])
          else map_option (\<lambda>(result, sent, _). (if result \<noteq> 0 then Closed result else Ready, sent))
                 (tgc_transport_send fd response t))"

text \<open>One turn of the loop up to its end or to the wait: what it receives into and sends from are the packets of
  the function's frame.\<close>

definition serve_request ::
  "begin_answers \<Rightarrow> tgc_broker \<Rightarrow> nat \<Rightarrow> int \<Rightarrow> tgc_broker_actor \<Rightarrow> tgc_protocol_packet \<Rightarrow> tgc_protocol_packet \<Rightarrow>
   recv_event list \<Rightarrow> send_event list \<Rightarrow> (conn_state \<times> tgc_broker \<times> u8 list \<times> recv_event list) option" where
  "serve_request ans broker waiter fd actor request response s t =
     do {
       (result, request, s) \<leftarrow> tgc_transport_receive fd request s;
       if result = TGC_TRANSPORT_EOF then Some (Closed 0, broker, [], s)
       else if result \<noteq> 0 then Some (Closed result, broker, [], s)
       else if kind (header request) \<noteq> TGC_PROTOCOL_REQUEST then Some (Closed (err EPROTO), broker, [], s)
       else do {
         (out, broker, response) \<leftarrow> dispatch_begin ans broker waiter request actor response;
         (state, sent) \<leftarrow> serve_respond fd request out response t;
         Some (state, broker, sent, s)
       }
     }"

definition serve_resume ::
  "resume_answers \<Rightarrow> tgc_broker \<Rightarrow> nat \<Rightarrow> int \<Rightarrow> tgc_broker_actor \<Rightarrow> tgc_protocol_packet \<Rightarrow> tgc_protocol_packet \<Rightarrow>
   send_event list \<Rightarrow> (conn_state \<times> tgc_broker \<times> u8 list) option" where
  "serve_resume ans broker waiter fd actor request response t =
     do {
       (out, broker, response) \<leftarrow> dispatch_resume ans broker waiter request actor response;
       (state, sent) \<leftarrow> serve_respond fd request out response t;
       Some (state, broker, sent)
     }"

subsection \<open>The linked list and the list it stands for\<close>

text \<open>\<open>chain broker p ws q\<close>: from \<open>p\<close> the cells \<open>ws\<close> are linked one after the other, and the last link is \<open>q\<close>.\<close>

fun chain :: "tgc_broker \<Rightarrow> nat option \<Rightarrow> nat list \<Rightarrow> nat option \<Rightarrow> bool" where
  "chain broker p [] q \<longleftrightarrow> p = q"
| "chain broker p (a # ws) q \<longleftrightarrow> p = Some a \<and> cells broker a \<noteq> None \<and> chain broker (next_of broker a) ws q"

definition queue_of :: "tgc_broker \<Rightarrow> nat list \<Rightarrow> bool" where
  "queue_of broker ws \<longleftrightarrow> chain broker (waiters_head broker) ws None \<and> distinct ws \<and>
     waiters_tail broker = (if ws = [] then None else Some (last ws))"

lemma chain_append: "chain broker p (xs @ ys) q \<longleftrightarrow> (\<exists>r. chain broker p xs r \<and> chain broker r ys q)"
  by (induction xs arbitrary: p) auto

lemma chain_cong:
  "(\<And>a. a \<in> set ws \<Longrightarrow> next_of b' a = next_of b a \<and> (cells b' a = None \<longleftrightarrow> cells b a = None)) \<Longrightarrow>
   chain b' p ws q \<longleftrightarrow> chain b p ws q"
  by (induction ws arbitrary: p) auto

lemma chain_cells: "chain broker p ws q \<Longrightarrow> a \<in> set ws \<Longrightarrow> cells broker a \<noteq> None"
  by (induction ws arbitrary: p) auto

lemma next_of_set_next [simp]:
  "next_of (set_next a p broker) x = (if x = a \<and> cells broker a \<noteq> None then p else next_of broker x)"
  by (auto simp: next_of_def set_next_def)

lemma cells_set_next_None [simp]: "cells (set_next a p broker) x = None \<longleftrightarrow> cells broker x = None"
  by (auto simp: set_next_def)

lemma set_next_sel [simp]:
  "waiters_head (set_next a p broker) = waiters_head broker" "waiters_tail (set_next a p broker) = waiters_tail broker"
  "broker_store (set_next a p broker) = broker_store broker" "process_watchers (set_next a p broker) = process_watchers broker"
  "state_changed (set_next a p broker) = state_changed broker" "stop_process_monitor (set_next a p broker) = stop_process_monitor broker"
  by (simp_all add: set_next_def)

lemma next_of_upd [simp]:
  "next_of (broker\<lparr>waiters_head := h\<rparr>) x = next_of broker x" "next_of (broker\<lparr>waiters_tail := h\<rparr>) x = next_of broker x"
  "next_of (broker\<lparr>broker_store := st\<rparr>) x = next_of broker x"
  by (simp_all add: next_of_def)

lemma chain_upd [simp]:
  "chain (broker\<lparr>waiters_head := h\<rparr>) p ws q \<longleftrightarrow> chain broker p ws q"
  "chain (broker\<lparr>waiters_tail := h\<rparr>) p ws q \<longleftrightarrow> chain broker p ws q"
  "chain (broker\<lparr>broker_store := st\<rparr>) p ws q \<longleftrightarrow> chain broker p ws q"
  by (rule chain_cong, simp)+

lemma enqueue_queue:
  assumes q: "queue_of broker ws" and a: "a \<notin> set ws" "cells broker a \<noteq> None"
  shows "queue_of (enqueue_waiter broker a) (ws @ [a])"
proof (cases ws rule: rev_cases)
  case Nil
  with q a show ?thesis by (simp add: queue_of_def enqueue_waiter_def Let_def)
next
  case (snoc xs t)
  let ?b = "enqueue_waiter broker a"
  have tail: "waiters_tail broker = Some t" "t \<noteq> a" "t \<notin> set xs" "a \<notin> set xs" "cells broker t \<noteq> None"
    using q a snoc by (auto simp: queue_of_def dest: chain_cells [where a = t])
  have next_b: "next_of ?b x = (if x = t then Some a else if x = a then None else next_of broker x)"
    "cells ?b x = None \<longleftrightarrow> cells broker x = None" for x
    using tail a by (simp_all add: enqueue_waiter_def Let_def)
  obtain r where r: "chain broker (waiters_head broker) xs r" "r = Some t"
    using q snoc by (auto simp: queue_of_def chain_append)
  have "chain ?b (waiters_head broker) xs r"
    using r(1) tail by (subst chain_cong [where b = broker]) (auto simp: next_b)
  moreover have "waiters_head ?b = waiters_head broker" "waiters_tail ?b = Some a"
    using tail by (simp_all add: enqueue_waiter_def Let_def)
  ultimately show ?thesis
    using q a snoc r(2) tail by (auto simp: queue_of_def chain_append next_b)
qed

text \<open>The search ends on every such list, at the cell it looks for and with its predecessor.\<close>

lemma find_waiter_absent:
  "chain broker p ws None \<Longrightarrow> a \<notin> set ws \<Longrightarrow> \<exists>prev'. find_waiter broker a prev p = Some (prev', None)"
proof (induction ws arbitrary: p prev)
  case Nil
  then show ?case by (simp add: find_waiter.simps)
next
  case (Cons x ws)
  then have "find_waiter broker a prev p = find_waiter broker a (Some x) (next_of broker x)"
    by (subst find_waiter.simps) simp
  with Cons show ?case by simp
qed

lemma find_waiter_found:
  "chain broker p (xs @ a # ys) None \<Longrightarrow> a \<notin> set xs \<Longrightarrow>
   find_waiter broker a prev p = Some (if xs = [] then prev else Some (last xs), Some a)"
proof (induction xs arbitrary: p prev)
  case Nil
  then show ?case by (subst find_waiter.simps) simp
next
  case (Cons x xs)
  then have "find_waiter broker a prev p = find_waiter broker a (Some x) (next_of broker x)"
    by (subst find_waiter.simps) simp
  with Cons show ?case by simp
qed

lemma remove_queue:
  assumes q: "queue_of broker ws"
  shows "\<exists>broker'. remove_waiter broker a = Some broker' \<and> queue_of broker' (removeAll a ws)"
proof (cases "a \<in> set ws")
  case False
  then obtain prev where "find_waiter broker a None (waiters_head broker) = Some (prev, None)"
    using q find_waiter_absent by (fastforce simp: queue_of_def)
  with False q show ?thesis by (simp add: remove_waiter_def)
next
  case True
  then obtain xs ys where ws: "ws = xs @ a # ys" "a \<notin> set xs" by (meson split_list_first)
  have d: "a \<notin> set ys" "distinct (xs @ ys)" using q ws by (auto simp: queue_of_def)
  then have rem: "removeAll a ws = xs @ ys" using ws by simp
  have ch: "chain broker (waiters_head broker) xs (Some a)" "chain broker (next_of broker a) ys None"
    using q ws by (auto simp: queue_of_def chain_append)
  have tail: "waiters_tail broker = Some (last (a # ys))" using q ws by (simp add: queue_of_def)
  have f: "find_waiter broker a None (waiters_head broker) = Some (if xs = [] then None else Some (last xs), Some a)"
    using q ws by (intro find_waiter_found [where ys = ys]) (simp_all add: queue_of_def)
  have t: "last (a # ys) = a \<longleftrightarrow> ys = []" using d(1) last_in_set [of ys] by auto
  let ?prev = "if xs = [] then None else Some (last xs)"
  let ?b = "if xs = [] then broker\<lparr>waiters_head := next_of broker a\<rparr> else set_next (last xs) (next_of broker a) broker"
  let ?b' = "if ys = [] then ?b\<lparr>waiters_tail := ?prev\<rparr> else ?b"
  have "remove_waiter broker a = Some ?b'"
  proof (cases "ys = []")
    case True
    then show ?thesis using f tail by (simp add: remove_waiter_def)
  next
    case False
    then have "last ys \<noteq> a" using t by simp
    then show ?thesis using False f tail by (simp add: remove_waiter_def)
  qed
  moreover have "chain ?b (waiters_head ?b) (xs @ ys) None"
  proof (cases xs rule: rev_cases)
    case Nil
    then show ?thesis using ch(2) by simp
  next
    case (snoc zs p)
    have p: "cells broker p \<noteq> None" "p \<notin> set zs" "p \<notin> set ys" "chain broker (waiters_head broker) zs (Some p)"
      using ch(1) d(2) snoc chain_cells [OF ch(1), of p] by (auto simp: chain_append)
    let ?c = "set_next p (next_of broker a) broker"
    have "chain ?c (waiters_head broker) zs (Some p)" using p by (subst chain_cong [where b = broker]) auto
    moreover have "chain ?c (next_of broker a) ys None" using p(3) ch(2) by (subst chain_cong [where b = broker]) auto
    ultimately show ?thesis using snoc p(1) by (auto simp: chain_append)
  qed
  then have "chain ?b' (waiters_head ?b') (xs @ ys) None"
    by (cases "ys = []") (simp_all split del: if_split)
  moreover have "waiters_tail ?b' = (if xs @ ys = [] then None else Some (last (xs @ ys)))"
    using tail by simp
  ultimately show ?thesis using d(2) by (simp add: queue_of_def rem)
qed

text \<open>Nothing but the links and the ends of the list changes.\<close>

definition unlinked :: "tgc_waiter option \<Rightarrow> tgc_waiter option" where
  "unlinked c = map_option (\<lambda>w. w\<lparr>w_next := None\<rparr>) c"

lemma unlinked_set_next [simp]: "unlinked (cells (set_next a p broker) x) = unlinked (cells broker x)"
  by (auto simp: unlinked_def set_next_def option.map_comp comp_def)

lemma unlinked_None [simp]: "unlinked c = None \<longleftrightarrow> c = None"
  by (simp add: unlinked_def)

lemma unlinked_SomeD:
  "unlinked c = unlinked (Some w) \<Longrightarrow> \<exists>w'. c = Some w' \<and> w_semid w' = w_semid w \<and> w_semnum w' = w_semnum w \<and>
     w_wait_for_zero w' = w_wait_for_zero w \<and> w_counted w' = w_counted w \<and> w_has_deadline w' = w_has_deadline w \<and>
     w_deadline w' = w_deadline w"
proof -
  assume "unlinked c = unlinked (Some w)"
  then obtain w' where c: "c = Some w'" and eq: "w'\<lparr>w_next := None\<rparr> = w\<lparr>w_next := None\<rparr>"
    by (auto simp: unlinked_def)
  show ?thesis
    using c arg_cong [OF eq, of w_semid] arg_cong [OF eq, of w_semnum] arg_cong [OF eq, of w_wait_for_zero]
      arg_cong [OF eq, of w_counted] arg_cong [OF eq, of w_has_deadline] arg_cong [OF eq, of w_deadline]
    by simp
qed

lemma remove_waiter_sel:
  assumes "remove_waiter broker a = Some broker'"
  shows "broker_store broker' = broker_store broker" "process_watchers broker' = process_watchers broker"
    "state_changed broker' = state_changed broker" "stop_process_monitor broker' = stop_process_monitor broker"
    "unlinked (cells broker' x) = unlinked (cells broker x)"
proof -
  obtain prev cur where f: "find_waiter broker a None (waiters_head broker) = Some (prev, cur)"
    using assms by (auto simp: remove_waiter_def bind_eq_Some_conv)
  show "broker_store broker' = broker_store broker" "process_watchers broker' = process_watchers broker"
    "state_changed broker' = state_changed broker" "stop_process_monitor broker' = stop_process_monitor broker"
    "unlinked (cells broker' x) = unlinked (cells broker x)"
    using assms f by (cases prev; cases cur; auto simp: remove_waiter_def Let_def split: if_splits)+
qed

lemma enqueue_waiter_sel:
  "broker_store (enqueue_waiter broker a) = broker_store broker" "process_watchers (enqueue_waiter broker a) = process_watchers broker"
  "state_changed (enqueue_waiter broker a) = state_changed broker" "stop_process_monitor (enqueue_waiter broker a) = stop_process_monitor broker"
  "unlinked (cells (enqueue_waiter broker a) x) = unlinked (cells broker x)"
  by (simp_all add: enqueue_waiter_def Let_def split: option.splits)

text \<open>Who may retry: the waiter is in the queue and no earlier one waits for the same set.\<close>

definition first_in :: "(nat \<Rightarrow> tgc_waiter option) \<Rightarrow> nat \<Rightarrow> nat list \<Rightarrow> bool" where
  "first_in c a ws \<longleftrightarrow> a \<in> set ws \<and>
     (\<forall>x\<in>set (takeWhile (\<lambda>x. x \<noteq> a) ws). map_option w_semid (c x) \<noteq> map_option w_semid (c a))"

lemma first_for_set_chain:
  "chain broker p ws None \<Longrightarrow> first_for_set broker a p = Some (first_in (cells broker) a ws)"
proof (induction ws arbitrary: p)
  case Nil
  then show ?case by (simp add: first_for_set.simps first_in_def)
next
  case (Cons x ws)
  then have p: "p = Some x" by simp
  show ?case
  proof (cases "x = a")
    case True
    then show ?thesis unfolding p by (subst first_for_set.simps) (simp add: first_in_def)
  next
    case False
    with Cons show ?thesis unfolding p by (subst first_for_set.simps) (auto simp: first_in_def)
  qed
qed

lemma waiter_is_first_queue: "queue_of broker ws \<Longrightarrow> waiter_is_first_for_set broker a = Some (first_in (cells broker) a ws)"
  by (simp add: waiter_is_first_for_set_def queue_of_def first_for_set_chain)


interpretation waiters: fifo_queue queue_of "\<lambda>broker a. cells broker a \<noteq> None" enqueue_waiter remove_waiter
proof
  fix broker :: tgc_broker and ws :: "nat list" and a x :: nat
  show "queue_of (enqueue_waiter broker a) (ws @ [a])" if "queue_of broker ws" "a \<notin> set ws" "cells broker a \<noteq> None"
    using that by (rule enqueue_queue)
  show "\<exists>q'. remove_waiter broker a = Some q' \<and> queue_of q' (removeAll a ws)" if "queue_of broker ws"
    using that by (rule remove_queue)
  show "(cells (enqueue_waiter broker a) x \<noteq> None) = (cells broker x \<noteq> None)"
    using enqueue_waiter_sel(5) [of broker a x] by (metis unlinked_None)
  show "(cells broker' x \<noteq> None) = (cells broker x \<noteq> None)" if "remove_waiter broker a = Some broker'" for broker'
    using remove_waiter_sel(5) [OF that, of x] by (metis unlinked_None)
qed

text \<open>C15. The linked list of waiters is a first-in-first-out queue: after any sequence of enqueuing and removing
  waiters, with every thread in it at most once, each walk along the list has ended, the list stands for the
  threads in the order in which they entered, and a thread may retry exactly when it is in the queue and no
  thread before it waits for the same set.\<close>

theorem waiter_queue_is_fifo:
  assumes "queue_of broker []" "enters_once ops []" "\<forall>a. Enqueue a \<in> set ops \<longrightarrow> cells broker a \<noteq> None"
  shows "\<exists>broker'. queue_run enqueue_waiter remove_waiter ops broker = Some broker' \<and> queue_of broker' (queue_spec ops []) \<and>
    (\<forall>a. waiter_is_first_for_set broker' a = Some (first_in (cells broker') a (queue_spec ops [])))"
  using waiters.run_rep [OF assms] waiter_is_first_queue by blast

definition example_waiter :: "int \<Rightarrow> tgc_waiter" where
  "example_waiter semid = \<lparr>w_semid = semid, w_semnum = 0, w_wait_for_zero = 0, w_counted = True, w_has_deadline = False,
     w_deadline = \<lparr>tv_sec = 0, tv_nsec = 0\<rparr>, w_next = None\<rparr>"

definition example_broker :: tgc_broker where
  "example_broker = \<lparr>broker_store = example_store, cells = (\<lambda>a. if a < 3 then Some (example_waiter 65537) else None),
     waiters_head = None, waiters_tail = None, process_watchers = replicate 1024 idle_watcher, state_changed = 0,
     process_monitor_started = True, stop_process_monitor = False\<rparr>"

theorem waiter_queue_is_fifo_witness:
  "\<exists>broker'. queue_run enqueue_waiter remove_waiter [Enqueue 2, Enqueue 0, Enqueue 1, Leave 0] example_broker = Some broker' \<and>
     queue_of broker' [2, 1]"
proof -
  have "queue_of example_broker []" by (simp add: queue_of_def example_broker_def)
  from waiter_queue_is_fifo [OF this, of "[Enqueue 2, Enqueue 0, Enqueue 1, Leave 0]"] show ?thesis
    by (auto simp: example_broker_def)
qed

subsection \<open>The invariant of the broker\<close>

definition watchers_ok :: "tgc_process_watcher list \<Rightarrow> bool" where
  "watchers_ok ws \<longleftrightarrow> length ws = 1024 \<and> (\<forall>w\<in>set ws. watch_active w \<longrightarrow> 0 < watch_pid w \<and> in_i32 (watch_pid w))"

text \<open>The store is well formed, the queue stands for the threads \<open>ws\<close>, and exactly their waiters exist.\<close>

definition broker_ok :: "tgc_broker \<Rightarrow> nat list \<Rightarrow> bool" where
  "broker_ok broker ws \<longleftrightarrow> store_inv (broker_store broker) \<and> queue_of broker ws \<and> dom (cells broker) = set ws \<and>
     watchers_ok (process_watchers broker)"

lemma unlinked_dom:
  assumes "\<And>x. unlinked (c x) = unlinked (c' x)"
  shows "dom c = dom c'"
proof -
  have "c x = None \<longleftrightarrow> c' x = None" for x using assms [of x] unlinked_None by metis
  then show ?thesis by (simp add: dom_def)
qed

lemma broadcast_sel [simp]:
  "broker_store (broadcast broker) = broker_store broker" "cells (broadcast broker) = cells broker"
  "process_watchers (broadcast broker) = process_watchers broker" "waiters_head (broadcast broker) = waiters_head broker"
  "waiters_tail (broadcast broker) = waiters_tail broker" "state_changed (broadcast broker) = Suc (state_changed broker)"
  "stop_process_monitor (broadcast broker) = stop_process_monitor broker"
  by (simp_all add: broadcast_def)

lemma queue_of_cong:
  assumes "cells b' = cells b" "waiters_head b' = waiters_head b" "waiters_tail b' = waiters_tail b"
  shows "queue_of b' ws \<longleftrightarrow> queue_of b ws"
proof -
  have "chain b' p ws q \<longleftrightarrow> chain b p ws q" for p q by (rule chain_cong) (simp add: next_of_def assms(1))
  then show ?thesis by (simp add: queue_of_def assms)
qed

lemma broker_ok_broadcast [simp]: "broker_ok (broadcast broker) ws \<longleftrightarrow> broker_ok broker ws"
  using queue_of_cong [of "broadcast broker" broker] by (simp add: broker_ok_def)

lemma broker_ok_store: "broker_ok broker ws \<Longrightarrow> store_inv store \<Longrightarrow> broker_ok (broker\<lparr>broker_store := store\<rparr>) ws"
  using queue_of_cong [of "broker\<lparr>broker_store := store\<rparr>" broker] by (simp add: broker_ok_def)

lemma broker_ok_watchers:
  "broker_ok broker ws \<Longrightarrow> watchers_ok p \<Longrightarrow> broker_ok (broker\<lparr>process_watchers := p\<rparr>) ws"
  using queue_of_cong [of "broker\<lparr>process_watchers := p\<rparr>" broker] by (simp add: broker_ok_def)

lemma dispatch_length:
  assumes "tgc_broker_dispatch sys store request actor response = (r, store', response')"
  shows "length (payload response') = length (payload response)"
proof (cases rule: dispatch_cases [of sys store request actor response])
  case refused
  with assms show ?thesis by auto
next
  case (answered v st p)
  have "fills (prepare_response request response) p"
    using fills_dispatch_opcode [OF fills_refl answered(6)] by (simp add: prepare_response_def)
  with answered(7) assms show ?thesis by (simp add: fills_def prepare_response_def)
qed

text \<open>A waiter leaves: the rest of the queue, every other waiter and the semaphores stay as they are.\<close>

definition kept :: "nat \<Rightarrow> tgc_broker \<Rightarrow> tgc_broker \<Rightarrow> bool" where
  "kept a b b' \<longleftrightarrow> process_watchers b' = process_watchers b \<and> stop_process_monitor b' = stop_process_monitor b \<and>
     (\<forall>x. x \<noteq> a \<longrightarrow> unlinked (cells b' x) = unlinked (cells b x))"

lemma finish_ok:
  assumes ok: "broker_ok broker ws" and a: "a \<in> set ws"
  obtains broker' where "finish_waiter broker a = Some broker'" "broker_ok broker' (removeAll a ws)" "kept a broker broker'"
    "sv_of (broker_store broker') = sv_of (broker_store broker)" "state_changed broker' = state_changed broker"
proof -
  have q: "queue_of broker ws" and inv: "store_inv (broker_store broker)" and dom: "dom (cells broker) = set ws"
    using ok by (simp_all add: broker_ok_def)
  obtain b1 where r: "remove_waiter broker a = Some b1" "queue_of b1 (removeAll a ws)" using remove_queue [OF q] by blast
  note sel = remove_waiter_sel [OF r(1)]
  have dom1: "dom (cells b1) = set ws" using unlinked_dom [of "cells b1" "cells broker"] sel(5) dom by simp
  then obtain w where w: "cells b1 a = Some w" using a by blast
  let ?st = "if w_counted w then snd (tgc_sem_store_adjust_wait_count (broker_store b1) (w_semid w) (unat (w_semnum w)) (w_wait_for_zero w \<noteq> 0) (-1))
      else broker_store b1"
  let ?b = "b1\<lparr>broker_store := ?st, cells := (cells b1)(a := None)\<rparr>"
  have "finish_waiter broker a = Some ?b" using r(1) w by (simp add: finish_waiter_def)
  moreover have "queue_of ?b (removeAll a ws)"
  proof -
    have "chain ?b p (removeAll a ws) None \<longleftrightarrow> chain b1 p (removeAll a ws) None" for p
      by (rule chain_cong) (simp add: next_of_def)
    then show ?thesis using r(2) by (simp add: queue_of_def)
  qed
  moreover have "store_inv ?st" "sv_of ?st = sv_of (broker_store broker)"
    using inv sel(1) by (simp_all add: inv_adjust_wait_count refine_adjust_wait_count)
  moreover have "dom (cells ?b) = set (removeAll a ws)" using dom1 by auto
  moreover have "kept a broker ?b" using sel by (simp add: kept_def)
  ultimately show ?thesis using that [of ?b] ok sel by (simp add: broker_ok_def)
qed

lemma leave_queue_ok:
  assumes "broker_ok broker ws" "a \<in> set ws"
  obtains broker' where "leave_queue r broker a response = Some (Returned r, broker', response)"
    "broker_ok broker' (removeAll a ws)" "kept a broker broker'"
    "sv_of (broker_store broker') = sv_of (broker_store broker)" "state_changed broker' = Suc (state_changed broker)"
proof -
  obtain b where b: "finish_waiter broker a = Some b" "broker_ok b (removeAll a ws)" "kept a broker b"
    "sv_of (broker_store b) = sv_of (broker_store broker)" "state_changed b = state_changed broker"
    by (rule finish_ok [OF assms])
  then show ?thesis using that [of "broadcast b"] by (simp add: leave_queue_def kept_def)
qed

text \<open>What a round of the wait loop does to the broker.\<close>

definition round_ok :: "nat \<Rightarrow> nat list \<Rightarrow> tgc_broker \<Rightarrow> (outcome \<times> tgc_broker \<times> tgc_protocol_packet) option \<Rightarrow> bool" where
  "round_ok a ws broker run \<longleftrightarrow> (\<exists>out broker' response. run = Some (out, broker', response) \<and>
     broker_ok broker' (if out = Waits then ws else removeAll a ws) \<and> kept a broker broker' \<and>
     (out = Waits \<longrightarrow> unlinked (cells broker' a) = unlinked (cells broker a)) \<and> length (payload response) = 8192)"

lemma leave_queue_round:
  "broker_ok broker ws \<Longrightarrow> a \<in> set ws \<Longrightarrow> length (payload response) = 8192 \<Longrightarrow> round_ok a ws broker (leave_queue r broker a response)"
  by (erule leave_queue_ok [where r = r and response = response]) (auto simp: round_ok_def)

lemma enter_wait_round:
  assumes "broker_ok broker ws" "a \<in> set ws" "length (payload response) = 8192"
  shows "round_ok a ws broker (enter_wait clock broker a response)"
proof -
  obtain w where w: "cells broker a = Some w" using assms(1,2) by (auto simp: broker_ok_def)
  show ?thesis
  proof (cases "wait_prepare clock w")
    case (Inl e)
    then show ?thesis using leave_queue_round [OF assms] by (simp add: enter_wait_def w)
  next
    case (Inr d)
    then show ?thesis using assms by (simp add: enter_wait_def w round_ok_def kept_def)
  qed
qed

lemma round_ok_store:
  "round_ok a ws (broker\<lparr>broker_store := st\<rparr>) run \<longleftrightarrow> round_ok a ws broker run"
  by (simp add: round_ok_def kept_def)

lemma wait_round_ok:
  assumes ok: "broker_ok broker ws" and a: "a \<in> set ws" and resp: "length (payload response) = 8192"
    and pid: "in_i32 (actor_pid actor)" and clock: "clock_ok (clock_realtime (round_sys ans))"
  shows "round_ok a ws broker (wait_round ans broker a request actor response)"
proof (cases "peer_has_closed (peek_answer ans)")
  case True
  then show ?thesis using leave_queue_round [OF ok a resp] by (simp add: wait_round_def)
next
  case False
  have first: "waiter_is_first_for_set broker a = Some (first_in (cells broker) a ws)"
    using ok waiter_is_first_queue by (simp add: broker_ok_def)
  show ?thesis
  proof (cases "first_in (cells broker) a ws")
    case no: False
    then show ?thesis using False first enter_wait_round [OF ok a resp] by (simp add: wait_round_def)
  next
    case True
    obtain r st p where d: "tgc_broker_dispatch (round_sys ans) (broker_store broker) request actor response = (r, st, p)"
      by (cases "tgc_broker_dispatch (round_sys ans) (broker_store broker) request actor response")
    have "store_inv st" using inv_dispatch [OF _ pid clock, of "broker_store broker" request response] ok d by (simp add: broker_ok_def)
    then have b: "broker_ok (broker\<lparr>broker_store := st\<rparr>) ws" by (rule broker_ok_store [OF ok])
    have p: "length (payload p) = 8192" using dispatch_length [OF d] resp by simp
    show ?thesis
      using False True first d leave_queue_round [OF b a p] enter_wait_round [OF b a p]
      by (simp add: wait_round_def round_ok_store Let_def)
  qed
qed

lemma resume_ok:
  assumes ok: "broker_ok broker ws" and a: "a \<in> set ws" and resp: "length (payload response) = 8192"
    and pid: "in_i32 (actor_pid actor)" and clock: "clock_ok (clock_realtime (round_sys (wake_round ans)))"
  shows "round_ok a ws broker (dispatch_resume ans broker a request actor response)"
proof -
  obtain w where w: "cells broker a = Some w" using ok a by (auto simp: broker_ok_def)
  show ?thesis
    using leave_queue_round [OF ok a] wait_round_ok [OF ok a resp pid clock] resp
    by (cases "wait_wakeup (cond_answer ans) (wake_clock ans) w") (simp add: dispatch_resume_def w)
qed


lemma watch_process_ok:
  assumes ok: "broker_ok broker ws" and pid: "0 < pid" "in_i32 pid" and run: "watch_process ans broker pid = (r, broker')"
  shows "broker_ok broker' ws" "cells broker' = cells broker" "broker_store broker' = broker_store broker"
    "stop_process_monitor broker' = stop_process_monitor broker" "r = 0 \<longleftrightarrow> list_ex (\<lambda>w. watch_active w \<and> watch_pid w = pid) (process_watchers broker')"
    "state_changed broker \<le> state_changed broker'"
proof -
  let ?seen = "list_ex (\<lambda>w. watch_active w \<and> watch_pid w = pid) (process_watchers broker)"
  have wok: "watchers_ok (process_watchers broker)" using ok by (simp add: broker_ok_def)
  consider "broker' = broker" "r = 0 \<longleftrightarrow> ?seen"
    | i fd ino where "i < length (process_watchers broker)" "r = 0"
        "broker' = broadcast (broker\<lparr>process_watchers := (process_watchers broker)[i :=
           \<lparr>watch_pid = pid, watch_pidfd = fd, watch_inode = ino, watch_active = True\<rparr>]\<rparr>)"
  proof (cases ?seen)
    case True
    with run show ?thesis by (intro that(1)) (auto simp: watch_process_def)
  next
    case False
    show ?thesis
    proof (cases "find_index (\<lambda>w. \<not> watch_active w) (process_watchers broker)")
      case None
      with False run show ?thesis by (intro that(1)) (auto simp: watch_process_def)
    next
      case (Some i)
      obtain r1 ino where p: "(if open_pidfd ans pid < 0 then read_proc_identity ans pid 0 else (0, 0)) = (r1, ino)"
        by (cases "if open_pidfd ans pid < 0 then read_proc_identity ans pid 0 else (0, 0)")
      have "i < length (process_watchers broker)" using Some by (simp add: find_index_eq_Some)
      with False Some p run show ?thesis
        by (cases "r1 = 0") (auto simp: watch_process_def Let_def intro: that)
    qed
  qed
  then have "broker_ok broker' ws \<and> cells broker' = cells broker \<and> broker_store broker' = broker_store broker \<and>
      stop_process_monitor broker' = stop_process_monitor broker \<and>
      (r = 0 \<longleftrightarrow> list_ex (\<lambda>w. watch_active w \<and> watch_pid w = pid) (process_watchers broker')) \<and>
      state_changed broker \<le> state_changed broker'"
  proof cases
    case 1
    with ok show ?thesis by simp
  next
    case (2 i fd ino)
    let ?w = "\<lparr>watch_pid = pid, watch_pidfd = fd, watch_inode = ino, watch_active = True\<rparr>"
    have "watchers_ok ((process_watchers broker)[i := ?w])"
      using wok pid set_update_subset_insert [of "process_watchers broker" i ?w] by (auto simp: watchers_ok_def)
    moreover have "list_ex (\<lambda>w. watch_active w \<and> watch_pid w = pid) ((process_watchers broker)[i := ?w])"
      unfolding list_ex_iff by (rule bexI [OF _ set_update_memI [OF 2(1)]]) simp
    ultimately show ?thesis using 2 broker_ok_watchers [OF ok] by simp
  qed
  then show "broker_ok broker' ws" "cells broker' = cells broker" "broker_store broker' = broker_store broker"
    "stop_process_monitor broker' = stop_process_monitor broker" "r = 0 \<longleftrightarrow> list_ex (\<lambda>w. watch_active w \<and> watch_pid w = pid) (process_watchers broker')"
    "state_changed broker \<le> state_changed broker'" by blast+
qed

text \<open>A waiter enters.\<close>

lemma enqueue_ok:
  assumes ok: "broker_ok broker ws" and a: "a \<notin> set ws"
  shows "broker_ok (enqueue_waiter (broker\<lparr>cells := (cells broker)(a := Some w)\<rparr>) a) (ws @ [a])"
    "kept a broker (enqueue_waiter (broker\<lparr>cells := (cells broker)(a := Some w)\<rparr>) a)"
    "unlinked (cells (enqueue_waiter (broker\<lparr>cells := (cells broker)(a := Some w)\<rparr>) a) a) = unlinked (Some w)"
proof -
  let ?b = "broker\<lparr>cells := (cells broker)(a := Some w)\<rparr>"
  note sel = enqueue_waiter_sel [of ?b a]
  have "chain ?b p ws None \<longleftrightarrow> chain broker p ws None" for p
    using a by (intro chain_cong) (auto simp: next_of_def)
  then have "queue_of ?b ws" using ok by (simp add: broker_ok_def queue_of_def)
  then have q: "queue_of (enqueue_waiter ?b a) (ws @ [a])" using a by (intro enqueue_queue) simp_all
  have "dom (cells (enqueue_waiter ?b a)) = dom (cells ?b)" by (rule unlinked_dom) (rule sel(5))
  then show "broker_ok (enqueue_waiter ?b a) (ws @ [a])" using q ok sel by (auto simp: broker_ok_def)
  show "kept a broker (enqueue_waiter ?b a)" "unlinked (cells (enqueue_waiter ?b a) a) = unlinked (Some w)"
    using sel by (simp_all add: kept_def)
qed

text \<open>What a request does up to its return or its first wait.\<close>

definition begin_ok :: "nat \<Rightarrow> nat list \<Rightarrow> tgc_broker \<Rightarrow> tgc_protocol_packet \<Rightarrow> (outcome \<times> tgc_broker \<times> tgc_protocol_packet) option \<Rightarrow> bool" where
  "begin_ok a ws broker request run \<longleftrightarrow> (\<exists>out broker' response. run = Some (out, broker', response) \<and>
     broker_ok broker' (if out = Waits then ws @ [a] else ws) \<and>
     (\<forall>x. x \<noteq> a \<longrightarrow> unlinked (cells broker' x) = unlinked (cells broker x)) \<and>
     stop_process_monitor broker' = stop_process_monitor broker \<and>
     (out = Waits \<longrightarrow> opcode (header request) \<in> {9, 14} \<and> (\<exists>w. cells broker' a = Some w \<and> w_semid w = tgc_wire_get_i32 (payload request) 0 \<and> w_counted w)) \<and>
     length (payload response) = 8192)"

lemma begin_okI:
  "broker_ok broker' ws \<Longrightarrow> cells broker' = cells broker \<Longrightarrow> stop_process_monitor broker' = stop_process_monitor broker \<Longrightarrow>
   length (payload response) = 8192 \<Longrightarrow> begin_ok a ws broker request (Some (Returned r, broker', response))"
  by (simp add: begin_ok_def)

lemma block_request_ok:
  assumes ok: "broker_ok broker ws" and a: "a \<notin> set ws" and resp: "length (payload response) = 8192"
    and pid: "in_i32 (actor_pid actor)" and clock: "clock_ok (clock_realtime (round_sys (begin_round ans)))"
    and opc: "opcode (header request) \<in> {9, 14}"
  shows "begin_ok a ws broker request (block_request ans broker a request actor response)"
proof -
  obtain r w where w: "initialize_deadline (begin_clock ans) request (make_waiter request response) = (r, w)"
    by (cases "initialize_deadline (begin_clock ans) request (make_waiter request response)")
  have semid: "w_semid w = tgc_wire_get_i32 (payload request) 0"
    using w by (auto simp: initialize_deadline_def make_waiter_def Let_def split: if_splits sum.splits)
  obtain r2 st where adj: "tgc_sem_store_adjust_wait_count (broker_store broker) (w_semid w) (unat (w_semnum w)) (w_wait_for_zero w \<noteq> 0) 1 = (r2, st)"
    by (cases "tgc_sem_store_adjust_wait_count (broker_store broker) (w_semid w) (unat (w_semnum w)) (w_wait_for_zero w \<noteq> 0) 1")
  have "store_inv st" using ok inv_adjust_wait_count [of "broker_store broker"] adj by (metis broker_ok_def snd_conv)
  then have b1: "broker_ok (broker\<lparr>broker_store := st\<rparr>) ws" by (rule broker_ok_store [OF ok])
  let ?b1 = "broker\<lparr>broker_store := st\<rparr>"
  let ?b2 = "enqueue_waiter (?b1\<lparr>cells := (cells ?b1)(a := Some (w\<lparr>w_counted := True\<rparr>))\<rparr>) a"
  note e = enqueue_ok [OF b1 a, of "w\<lparr>w_counted := True\<rparr>"]
  have "round_ok a (ws @ [a]) ?b2 (wait_round (begin_round ans) ?b2 a request actor response)"
    using wait_round_ok [OF e(1) _ resp pid clock] by simp
  then obtain out b3 p where r3: "wait_round (begin_round ans) ?b2 a request actor response = Some (out, b3, p)"
    "broker_ok b3 (if out = Waits then ws @ [a] else ws)" "kept a ?b2 b3"
    "out = Waits \<longrightarrow> unlinked (cells b3 a) = unlinked (Some (w\<lparr>w_counted := True\<rparr>))" "length (payload p) = 8192"
  proof -
    have rem: "removeAll a (ws @ [a]) = ws" using a by simp
    show thesis if "\<And>out b3 p. wait_round (begin_round ans) ?b2 a request actor response = Some (out, b3, p) \<Longrightarrow>
      broker_ok b3 (if out = Waits then ws @ [a] else ws) \<Longrightarrow> kept a ?b2 b3 \<Longrightarrow>
      out = Waits \<longrightarrow> unlinked (cells b3 a) = unlinked (Some (w\<lparr>w_counted := True\<rparr>)) \<Longrightarrow> length (payload p) = 8192 \<Longrightarrow> thesis"
      using \<open>round_ok a (ws @ [a]) ?b2 _\<close> that e(3) unfolding round_ok_def rem by metis
  qed
  have "begin_ok a ws broker request (Some (out, b3, p))"
    using r3 e(2) semid opc unlinked_SomeD [of "cells b3 a" "w\<lparr>w_counted := True\<rparr>"]
    by (auto simp: begin_ok_def kept_def)
  then show ?thesis
    using ok resp b1 r3(1) by (simp add: block_request_def Let_def w adj begin_okI)
qed

lemma begin_request_ok:
  assumes ok: "broker_ok broker ws" and a: "a \<notin> set ws" and resp: "length (payload response) = 8192"
    and pid: "0 < actor_pid actor" "in_i32 (actor_pid actor)"
    and clock: "clock_ok (clock_realtime (begin_sys ans))" "clock_ok (clock_realtime (round_sys (begin_round ans)))"
  shows "begin_ok a ws broker request (dispatch_begin ans broker a request actor response)"
proof -
  obtain r b1 where w: "(if request_uses_undo request then watch_process (begin_proc ans) broker (actor_pid actor) else (0, broker)) = (r, b1)"
    by (cases "if request_uses_undo request then watch_process (begin_proc ans) broker (actor_pid actor) else (0, broker)")
  have b1: "broker_ok b1 ws" "cells b1 = cells broker" "stop_process_monitor b1 = stop_process_monitor broker"
    using w watch_process_ok [OF ok pid] ok by (auto split: if_splits)
  obtain r2 st p where d: "tgc_broker_dispatch (begin_sys ans) (broker_store b1) request actor response = (r2, st, p)"
    by (cases "tgc_broker_dispatch (begin_sys ans) (broker_store b1) request actor response")
  have "store_inv st" using inv_dispatch [OF _ pid(2) clock(1), of "broker_store b1" request response] b1 d by (simp add: broker_ok_def)
  then have b2: "broker_ok (b1\<lparr>broker_store := st\<rparr>) ws" by (rule broker_ok_store [OF b1(1)])
  have p: "length (payload p) = 8192" using dispatch_length [OF d] resp by simp
  have blocked: "begin_ok a ws broker request (block_request ans (b1\<lparr>broker_store := st\<rparr>) a request actor p)"
    if "opcode (header request) \<in> {9, 14}"
    using block_request_ok [OF b2 a p pid(2) clock(2) that] b1 by (simp add: begin_ok_def)
  show ?thesis
    using resp p b1 b2 blocked ok
    by (simp add: dispatch_begin_def w d Let_def begin_okI prepare_error_response_def)
qed

subsection \<open>The monitor\<close>

lemma monitor_slot_ok:
  assumes ok: "broker_ok broker ws" and i: "i < 1024" and clock: "\<forall>j. clock_ok (now i j)"
  shows "broker_ok (fst (monitor_slot ans now i (broker, closed))) ws"
    "cells (fst (monitor_slot ans now i (broker, closed))) = cells broker"
proof -
  let ?w = "process_watchers broker ! i"
  have wok: "watchers_ok (process_watchers broker)" and inv: "store_inv (broker_store broker)" using ok by (simp_all add: broker_ok_def)
  obtain c st where e: "tgc_sem_store_process_exit (now i) (broker_store broker) (watch_pid ?w) = (c, st)"
    by (cases "tgc_sem_store_process_exit (now i) (broker_store broker) (watch_pid ?w)")
  have idle: "watchers_ok ((process_watchers broker)[i := idle_watcher])"
    using wok set_update_subset_insert [of "process_watchers broker" i idle_watcher] by (auto simp: watchers_ok_def idle_watcher_def)
  have "broker_ok (broker\<lparr>broker_store := st, process_watchers := (process_watchers broker)[i := idle_watcher]\<rparr>) ws" if "watch_active ?w"
  proof -
    have "0 < watch_pid ?w" "in_i32 (watch_pid ?w)" using wok i that by (simp_all add: watchers_ok_def)
    then have "store_inv st" using refine_process_exit(2) [OF inv _ _ clock] e by (metis snd_conv)
    from broker_ok_watchers [OF broker_ok_store [OF ok this] idle] show ?thesis by simp
  qed
  then show "broker_ok (fst (monitor_slot ans now i (broker, closed))) ws"
    "cells (fst (monitor_slot ans now i (broker, closed))) = cells broker"
    using ok by (simp_all add: monitor_slot_def Let_def e)
qed

lemma monitor_fold_ok:
  assumes "broker_ok broker ws" "set is \<subseteq> {..<1024}" "\<forall>i j. clock_ok (now i j)"
  shows "broker_ok (fst (fold (monitor_slot ans now) is (broker, closed))) ws \<and>
    cells (fst (fold (monitor_slot ans now) is (broker, closed))) = cells broker"
  using assms
proof (induction "is" arbitrary: broker closed)
  case (Cons i "is")
  obtain b c where s: "monitor_slot ans now i (broker, closed) = (b, c)" by (cases "monitor_slot ans now i (broker, closed)")
  have "broker_ok b ws" "cells b = cells broker"
    using monitor_slot_ok [OF Cons.prems(1), of i now ans closed] Cons.prems s by simp_all
  with Cons.IH [of b c] Cons.prems s show ?case by simp
qed simp

lemma monitor_round_ok:
  assumes "broker_ok broker ws" "\<forall>i j. clock_ok (now i j)" "monitor_round ans now clock broker = ((broker', closed), next)"
  shows "broker_ok broker' ws" "cells broker' = cells broker"
proof -
  have "set [0..<1024] \<subseteq> {..<1024::nat}" by auto
  then have "broker_ok (fst (monitor_scan ans now broker)) ws" "cells (fst (monitor_scan ans now broker)) = cells broker"
    using monitor_fold_ok [OF assms(1) _ assms(2), of "[0..<1024]" ans "[]"] by (auto simp: monitor_scan_def)
  then show "broker_ok broker' ws" "cells broker' = cells broker"
    using assms(1,3) by (auto simp: monitor_round_def case_prod_beta Let_def split: if_splits)
qed


subsection \<open>The broker as a transition system\<close>

text \<open>The broker with its connections, one thread each. A step is one critical section: a connection is accepted
  and authenticated, serves a request up to its end or to the wait, is woken, or goes away; or the monitor
  scans its table. The kernel may answer anything, at any moment any waiting thread may wake.\<close>

type_synonym system = "tgc_broker \<times> (nat \<Rightarrow> (tgc_broker_actor \<times> conn_state) option)"

inductive broker_step :: "system \<Rightarrow> system \<Rightarrow> bool" where
  accept: "conns t = None \<Longrightarrow> serve_begin peercred fd uid = Inr actor \<Longrightarrow> errno_ok peercred \<Longrightarrow>
    broker_step (broker, conns) (broker, conns(t \<mapsto> (actor, Ready)))"
| request: "conns t = Some (actor, Ready) \<Longrightarrow>
    length (payload request) = 8192 \<Longrightarrow> length (payload response) = 8192 \<Longrightarrow>
    clock_ok (clock_realtime (begin_sys ans)) \<Longrightarrow> clock_ok (clock_realtime (round_sys (begin_round ans))) \<Longrightarrow>
    serve_request ans broker t fd actor request response s out = Some (st, broker', sent, s') \<Longrightarrow>
    broker_step (broker, conns) (broker', conns(t \<mapsto> (actor, st)))"
| resume: "conns t = Some (actor, Blocked request response) \<Longrightarrow>
    clock_ok (clock_realtime (round_sys (wake_round ans))) \<Longrightarrow>
    serve_resume ans broker t fd actor request response out = Some (st, broker', sent) \<Longrightarrow>
    broker_step (broker, conns) (broker', conns(t \<mapsto> (actor, st)))"
| hangup: "conns t = Some (actor, Closed r) \<Longrightarrow> broker_step (broker, conns) (broker, conns(t := None))"
| monitor: "\<forall>i j. clock_ok (now i j) \<Longrightarrow> monitor_round proc now clock broker = ((broker', closed), next) \<Longrightarrow>
    broker_step (broker, conns) (broker', conns)"

definition broker_started :: "system \<Rightarrow> bool" where
  "broker_started s \<longleftrightarrow> (\<exists>ans broker log. tgc_broker_create ans = (Some broker, log) \<and> s = (broker, (\<lambda>t. None)))"

abbreviation reachable :: "system \<Rightarrow> bool" where
  "reachable \<equiv> reached broker_started broker_step"

definition blocked_threads :: "(nat \<Rightarrow> (tgc_broker_actor \<times> conn_state) option) \<Rightarrow> nat set" where
  "blocked_threads conns = {t. \<exists>actor request response. conns t = Some (actor, Blocked request response)}"

text \<open>The actors are real processes, and a blocked connection waits for the set its request names.\<close>

definition conn_ok :: "tgc_broker \<Rightarrow> nat \<Rightarrow> tgc_broker_actor \<times> conn_state \<Rightarrow> bool" where
  "conn_ok broker t conn \<longleftrightarrow> 0 < actor_pid (fst conn) \<and> in_i32 (actor_pid (fst conn)) \<and>
     (\<forall>request response. snd conn = Blocked request response \<longrightarrow> length (payload response) = 8192 \<and> opcode (header request) \<in> {9, 14} \<and>
       (\<exists>w. cells broker t = Some w \<and> w_semid w = tgc_wire_get_i32 (payload request) 0 \<and> w_counted w))"

definition system_ok :: "system \<Rightarrow> bool" where
  "system_ok s \<longleftrightarrow> (\<exists>ws. broker_ok (fst s) ws \<and> set ws = blocked_threads (snd s)) \<and>
     (\<forall>t conn. snd s t = Some conn \<longrightarrow> conn_ok (fst s) t conn)"

lemma conn_ok_cong:
  "unlinked (cells broker' t) = unlinked (cells broker t) \<Longrightarrow> conn_ok broker t conn \<Longrightarrow> conn_ok broker' t conn"
  unfolding conn_ok_def by (metis unlinked_SomeD)

lemma blocked_threads_upd:
  "blocked_threads (conns(t \<mapsto> (actor, st))) =
     (if \<exists>request response. st = Blocked request response then insert t (blocked_threads conns) else blocked_threads conns - {t})"
  by (auto simp: blocked_threads_def)

lemma serve_begin_actor: "serve_begin peercred fd uid = Inr actor \<Longrightarrow> errno_ok peercred \<Longrightarrow> 0 < actor_pid actor \<and> in_i32 (actor_pid actor)"
  by (auto simp: serve_begin_def tgc_transport_get_credentials_def Let_def in_i32_def errno_ok_def split: if_splits sum.splits prod.splits)

lemma serve_respond_state:
  "serve_respond fd request out response t = Some (st, sent) \<Longrightarrow>
   (out = Waits \<longrightarrow> st = Blocked request response) \<and> (out \<noteq> Waits \<longrightarrow> (\<forall>req resp. st \<noteq> Blocked req resp))"
  by (auto simp: serve_respond_def split: outcome.splits if_splits)

text \<open>The new state of one connection, given that of the broker and of the others.\<close>

lemma system_ok_upd:
  assumes ok: "system_ok (broker, conns)" and actor: "0 < actor_pid actor" "in_i32 (actor_pid actor)"
    and b: "broker_ok broker' ws" "set ws = blocked_threads (conns(t \<mapsto> (actor, st)))"
    and others: "\<forall>x. x \<noteq> t \<longrightarrow> unlinked (cells broker' x) = unlinked (cells broker x)"
    and st: "\<And>request response. st = Blocked request response \<Longrightarrow> length (payload response) = 8192 \<and> opcode (header request) \<in> {9, 14} \<and>
      (\<exists>w. cells broker' t = Some w \<and> w_semid w = tgc_wire_get_i32 (payload request) 0 \<and> w_counted w)"
  shows "system_ok (broker', conns(t \<mapsto> (actor, st)))"
proof -
  have "conn_ok broker' x conn" if "(conns(t \<mapsto> (actor, st))) x = Some conn" for x conn
  proof (cases "x = t")
    case True
    with that actor st show ?thesis by (auto simp: conn_ok_def)
  next
    case False
    with that ok have "conn_ok broker x conn" by (cases conn) (simp add: system_ok_def)
    with False others show ?thesis by (simp add: conn_ok_cong)
  qed
  with b show ?thesis by (auto simp: system_ok_def)
qed

lemma request_step_ok:
  assumes ok: "system_ok (broker, conns)" and c: "conns t = Some (actor, Ready)"
    and len: "length (payload request) = 8192" "length (payload response) = 8192"
    and clock: "clock_ok (clock_realtime (begin_sys ans))" "clock_ok (clock_realtime (round_sys (begin_round ans)))"
    and run: "serve_request ans broker t fd actor request response s out = Some (st, broker', sent, s')"
  shows "system_ok (broker', conns(t \<mapsto> (actor, st)))"
proof -
  obtain ws where ws: "broker_ok broker ws" "set ws = blocked_threads conns" using ok by (auto simp: system_ok_def)
  have actor: "0 < actor_pid actor" "in_i32 (actor_pid actor)" using ok c by (auto simp: system_ok_def conn_ok_def)
  have t: "t \<notin> set ws" using c ws(2) by (simp add: blocked_threads_def)
  have same: ?thesis if "broker' = broker" "\<forall>req resp. st \<noteq> Blocked req resp"
    using that ws t system_ok_upd [OF ok actor ws(1), of t st] by (simp add: blocked_threads_upd)
  obtain r p s1 where recv: "tgc_transport_receive fd request s = Some (r, p, s1)"
    using run by (auto simp: serve_request_def bind_eq_Some_conv)
  show ?thesis
  proof (cases "r = 0 \<and> kind (header p) = 1")
    case False
    with run recv same show ?thesis by (auto simp: serve_request_def split: if_splits)
  next
    case True
    from begin_request_ok [OF ws(1) t len(2) actor clock, of p]
    obtain o1 b1 p1 where d: "dispatch_begin ans broker t p actor response = Some (o1, b1, p1)"
      "broker_ok b1 (if o1 = Waits then ws @ [t] else ws)" "\<forall>x. x \<noteq> t \<longrightarrow> unlinked (cells b1 x) = unlinked (cells broker x)"
      "o1 = Waits \<longrightarrow> opcode (header p) \<in> {9, 14} \<and> (\<exists>w. cells b1 t = Some w \<and> w_semid w = tgc_wire_get_i32 (payload p) 0 \<and> w_counted w)"
      "length (payload p1) = 8192" unfolding begin_ok_def by blast
    have r: "serve_respond fd p o1 p1 out = Some (st, sent)" "broker' = b1"
      using run recv True d(1) by (auto simp: serve_request_def bind_eq_Some_conv)
    note r1 = serve_respond_state [OF r(1)]
    have "set (if o1 = Waits then ws @ [t] else ws) = blocked_threads (conns(t \<mapsto> (actor, st)))"
      using r1 ws(2) t by (auto simp: blocked_threads_upd)
    from system_ok_upd [OF ok actor d(2) this d(3)] show ?thesis using r1 d(4,5) r(2) by (cases "o1 = Waits") auto
  qed
qed

lemma resume_step_ok:
  assumes ok: "system_ok (broker, conns)" and b: "conns t = Some (actor, Blocked request response)"
    and clock: "clock_ok (clock_realtime (round_sys (wake_round ans)))"
    and run: "serve_resume ans broker t fd actor request response out = Some (st, broker', sent)"
  shows "system_ok (broker', conns(t \<mapsto> (actor, st)))"
proof -
  obtain ws where ws: "broker_ok broker ws" "set ws = blocked_threads conns" using ok by (auto simp: system_ok_def)
  have c: "0 < actor_pid actor" "in_i32 (actor_pid actor)" "length (payload response) = 8192"
    "opcode (header request) \<in> {9, 14}" "\<exists>w. cells broker t = Some w \<and> w_semid w = tgc_wire_get_i32 (payload request) 0 \<and> w_counted w"
    using ok b by (auto simp: system_ok_def conn_ok_def)
  have t: "t \<in> set ws" using b ws(2) by (simp add: blocked_threads_def)
  from resume_ok [OF ws(1) t c(3,2) clock, of request]
  obtain o1 b1 p1 where d: "dispatch_resume ans broker t request actor response = Some (o1, b1, p1)"
    "broker_ok b1 (if o1 = Waits then ws else removeAll t ws)" "kept t broker b1"
    "o1 = Waits \<longrightarrow> unlinked (cells b1 t) = unlinked (cells broker t)" "length (payload p1) = 8192"
    unfolding round_ok_def by blast
  have r: "serve_respond fd request o1 p1 out = Some (st, sent)" "broker' = b1"
    using run d(1) by (auto simp: serve_resume_def bind_eq_Some_conv)
  note r1 = serve_respond_state [OF r(1)]
  have w: "o1 = Waits \<Longrightarrow> \<exists>w. cells b1 t = Some w \<and> w_semid w = tgc_wire_get_i32 (payload request) 0 \<and> w_counted w"
    using c(5) d(4) by (metis unlinked_SomeD)
  have "set (if o1 = Waits then ws else removeAll t ws) = blocked_threads (conns(t \<mapsto> (actor, st)))"
    using r1 ws(2) t by (auto simp: blocked_threads_upd)
  from system_ok_upd [OF ok c(1,2) d(2) this] d(3) show ?thesis
    using r1 w c(4) d(5) r(2) by (cases "o1 = Waits") (auto simp: kept_def)
qed

lemma step_ok: "broker_step s s' \<Longrightarrow> system_ok s \<Longrightarrow> system_ok s'"
proof (induction rule: broker_step.induct)
  case (accept conns t peercred fd uid actor broker)
  then obtain ws where "broker_ok broker ws" "set ws = blocked_threads conns" by (auto simp: system_ok_def)
  moreover have "blocked_threads (conns(t \<mapsto> (actor, Ready))) = blocked_threads conns"
    using accept(1) by (auto simp: blocked_threads_upd blocked_threads_def)
  ultimately show ?case
    using serve_begin_actor [OF accept(2,3)] by (intro system_ok_upd [OF accept(4), where ws = ws]) simp_all
next
  case (hangup conns t actor r broker)
  have "blocked_threads (conns(t := None)) = blocked_threads conns" using hangup(1) by (auto simp: blocked_threads_def)
  with hangup(2) show ?case by (auto simp: system_ok_def split: if_splits)
next
  case (monitor now proc clock broker broker' closed "next" conns)
  then obtain ws where ws: "broker_ok broker ws" "set ws = blocked_threads conns" by (auto simp: system_ok_def)
  note m = monitor_round_ok [OF ws(1) monitor(1,2)]
  have "conn_ok broker' t conn" if "conns t = Some conn" for t conn
    using that monitor(3) m(2) conn_ok_cong [of broker' t broker] by (cases conn) (simp add: system_ok_def)
  with m(1) ws(2) show ?case by (auto simp: system_ok_def)
next
  case (request conns t actor request response ans broker fd s out st broker' sent s')
  show ?case by (rule request_step_ok [OF request(7,1-6)])
next
  case (resume conns t actor request response ans broker fd out st broker' sent)
  show ?case by (rule resume_step_ok [OF resume(4,1-3)])
qed

lemma create_ok: "tgc_broker_create ans = (Some broker, log) \<Longrightarrow> broker_ok broker []"
  by (auto simp: tgc_broker_create_def Let_def broker_ok_def inv_create queue_of_def watchers_ok_def idle_watcher_def split: if_splits)

lemma started_ok: "broker_started s \<Longrightarrow> system_ok s"
  unfolding broker_started_def by (auto simp: system_ok_def blocked_threads_def dest!: create_ok intro!: exI [of _ "[]"])

interpretation broker_threads: transition_system broker_started broker_step system_ok
  by unfold_locales (rule started_ok, assumption, rule step_ok)

lemmas reachable_ok = broker_threads.reached_inv

subsection \<open>Properties of the running broker\<close>

text \<open>C5. In every state the broker can reach, under any interleaving of any number of connections with the
  monitor and whatever the kernel answers, the store is well formed, the linked list is a proper queue, and
  it holds exactly the threads that are blocked in a request, each once.\<close>

theorem broker_invariant:
  assumes "reachable (broker, conns)"
  shows "store_inv (broker_store broker) \<and>
    (\<exists>ws. queue_of broker ws \<and> distinct ws \<and> set ws = blocked_threads conns \<and> dom (cells broker) = blocked_threads conns)"
proof -
  obtain ws where "broker_ok broker ws" "set ws = blocked_threads conns"
    using reachable_ok [OF assms] unfolding system_ok_def by auto
  then have "store_inv (broker_store broker)" "queue_of broker ws" "distinct ws" "set ws = blocked_threads conns"
    "dom (cells broker) = blocked_threads conns" by (simp_all add: broker_ok_def queue_of_def)
  then show ?thesis by blast
qed

definition example_create :: create_answers where
  "example_create = \<lparr>calloc_broker = True, create_store = True, mutex_init_answer = 0, condattr_init_answer = 0,
     condattr_setclock_answer = 0, cond_init_answer = 0, attr_init_answer = 0, attr_setstacksize_answer = 0, pthread_create_answer = 0\<rparr>"

definition fresh_broker :: tgc_broker where
  "fresh_broker = \<lparr>broker_store = tgc_sem_store_create, cells = (\<lambda>a. None), waiters_head = None, waiters_tail = None,
     process_watchers = replicate 1024 idle_watcher, state_changed = 0, process_monitor_started = True, stop_process_monitor = False\<rparr>"

lemma fresh_create: "\<exists>log. tgc_broker_create example_create = (Some fresh_broker, log)"
  by (simp add: tgc_broker_create_def example_create_def fresh_broker_def)

lemma fresh_reachable: "reachable (fresh_broker, (\<lambda>t. None))"
  using fresh_create by (metis broker_started_def reached_start)

lemma ready_reachable: "reachable (fresh_broker, [7 \<mapsto> (example_actor, Ready)])"
proof (rule reached_step [OF fresh_reachable broker_step.accept])
  show "serve_begin (Inr (\<lparr>uc_pid = 77, uc_uid = 10, uc_gid = 20\<rparr>, 12)) 3 10 = Inr example_actor"
    by (simp add: serve_begin_def tgc_transport_get_credentials_def example_actor_def)
qed (simp_all add: errno_ok_def)

theorem broker_invariant_witness: "queue_of fresh_broker [] \<and> store_inv (broker_store fresh_broker)"
proof -
  from broker_invariant [OF fresh_reachable] obtain ws where "queue_of fresh_broker ws" "set ws = {}" "store_inv (broker_store fresh_broker)"
    by (auto simp: blocked_threads_def)
  then show ?thesis by simp
qed

text \<open>C8. No request hangs the broker: in every reachable state, starting a request on an idle connection and
  waking a blocked one end with a result or with a wait, so the mutex is always given up again. In particular
  every walk along the list of waiters ends.\<close>

theorem requests_never_hang:
  assumes "reachable (broker, conns)"
  shows "(\<forall>actor ans request response. conns t = Some (actor, Ready) \<and> length (payload response) = 8192 \<and>
       clock_ok (clock_realtime (begin_sys ans)) \<and> clock_ok (clock_realtime (round_sys (begin_round ans))) \<longrightarrow>
       (\<exists>out broker' response'. dispatch_begin ans broker t request actor response = Some (out, broker', response'))) \<and>
    (\<forall>actor ans request response. conns t = Some (actor, Blocked request response) \<and>
       clock_ok (clock_realtime (round_sys (wake_round ans))) \<longrightarrow>
       (\<exists>out broker' response'. dispatch_resume ans broker t request actor response = Some (out, broker', response')))"
proof -
  have ok: "system_ok (broker, conns)" by (rule reachable_ok [OF assms])
  then obtain ws where ws: "broker_ok broker ws" "set ws = blocked_threads conns" by (auto simp: system_ok_def)
  have "\<exists>out broker' response'. dispatch_begin ans broker t request actor response = Some (out, broker', response')"
    if "conns t = Some (actor, Ready)" "length (payload response) = 8192"
      "clock_ok (clock_realtime (begin_sys ans))" "clock_ok (clock_realtime (round_sys (begin_round ans)))" for actor ans request response
  proof -
    have "0 < actor_pid actor" "in_i32 (actor_pid actor)" using ok that(1) by (auto simp: system_ok_def conn_ok_def)
    moreover have "t \<notin> set ws" using that(1) ws(2) by (simp add: blocked_threads_def)
    ultimately show ?thesis using begin_request_ok [OF ws(1) _ that(2) _ _ that(3,4)] unfolding begin_ok_def by blast
  qed
  moreover have "\<exists>out broker' response'. dispatch_resume ans broker t request actor response = Some (out, broker', response')"
    if "conns t = Some (actor, Blocked request response)" "clock_ok (clock_realtime (round_sys (wake_round ans)))" for actor ans request response
  proof -
    have "in_i32 (actor_pid actor)" "length (payload response) = 8192" using ok that(1) by (auto simp: system_ok_def conn_ok_def)
    moreover have "t \<in> set ws" using that(1) ws(2) by (simp add: blocked_threads_def)
    ultimately show ?thesis using resume_ok [OF ws(1) _ _ _ that(2)] unfolding round_ok_def by blast
  qed
  ultimately show ?thesis by blast
qed

definition example_proc :: proc_answers where
  "example_proc = \<lparr>stat_inode = (\<lambda>p. Inr 9), open_file = (\<lambda>p. None), read_file = (\<lambda>p. Inr []), poll_answer = (\<lambda>fd. (0, 0)), pidfd_open = (\<lambda>p. Inr 8)\<rparr>"

definition example_round :: round_answers where
  "example_round = \<lparr>peek_answer = Inl 11, round_sys = example_sys, round_clock = Inr \<lparr>tv_sec = 5, tv_nsec = 0\<rparr>\<rparr>"

definition example_begin :: begin_answers where
  "example_begin = \<lparr>lock_answer = 0, begin_proc = example_proc, begin_sys = example_sys, begin_clock = Inr \<lparr>tv_sec = 5, tv_nsec = 0\<rparr>,
     begin_round = example_round\<rparr>"

theorem requests_never_hang_witness:
  "\<exists>out broker' response'. dispatch_begin example_begin fresh_broker 7 ping_request example_actor ping_request = Some (out, broker', response')"
proof -
  have "clock_ok (clock_realtime (begin_sys example_begin))" "clock_ok (clock_realtime (round_sys (begin_round example_begin)))"
    "length (payload ping_request) = 8192"
    by (simp_all add: example_begin_def example_round_def ping_request_def)
  with requests_never_hang [OF ready_reachable, of 7] show ?thesis by simp
qed

text \<open>What a dispatch can do to the semaphores when it reports no change.\<close>

lemma sv_step_quiet:
  assumes "sv_step c st r st'" "r \<noteq> 0 \<or> (\<exists>sys key n flags idn. c = Get sys key n flags idn) \<or>
      (\<exists>now semid uid gid mode idn. c = SetMetadata now semid uid gid mode idn)" "\<forall>now pid. c \<noteq> ProcessExit now pid"
    "sv_values st semid \<noteq> None"
  shows "sv_values st' semid = sv_values st semid"
  using assms
  by (cases c) (auto simp: sv_get_def sv_remove_def sv_setval_def sv_setall_def sv_semop_def split: option.splits if_splits sv_outcome.splits)

lemma requested_call_kind:
  assumes "requested_call sys request actor = Some c"
  shows "\<forall>now pid. c \<noteq> ProcessExit now pid"
    "opcode (header request) \<notin> {3, 5, 8, 9, 14} \<Longrightarrow> (\<exists>sys key n flags idn. c = Get sys key n flags idn) \<or>
      (\<exists>now semid uid gid mode idn. c = SetMetadata now semid uid gid mode idn)"
  using assms by (auto simp: requested_call_def Let_def split: if_splits)

lemma dispatch_quiet:
  assumes inv: "store_inv store" and pid: "in_i32 (actor_pid actor)" and clock: "clock_ok (clock_realtime sys)"
    and run: "tgc_broker_dispatch sys store request actor response = (r, store', response')"
    and no: "r \<noteq> 0 \<or> \<not> operation_changed_state request response'"
    and live: "sv_values (sv_of store) semid \<noteq> None"
  shows "sv_values (sv_of store') semid = sv_values (sv_of store) semid"
proof -
  have s: "request_step (sys, request, actor, response) (sv_of store) (r, response') (sv_of store')"
    using dispatch_request_step [OF inv, of "(sys, request, actor, response)"] pid clock run
    by (simp add: dispatch_event_ok_def dispatch_exec_def)
  show ?thesis
  proof (cases "r = 0")
    case True
    show ?thesis
    proof (cases "requested_call sys request actor")
      case (Some c)
      have "sv_step c (sv_of store) (hdr_result (header response')) (sv_of store')" using s True Some by (simp add: request_step_def)
      then show ?thesis
        using sv_step_quiet [OF _ _ requested_call_kind(1) [OF Some] live] requested_call_kind(2) [OF Some] no True
        by (auto simp: operation_changed_state_def split: if_splits)
    qed (use s True in \<open>simp add: request_step_def\<close>)
  qed (use s in \<open>simp add: request_step_def\<close>)
qed

text \<open>The effect of a turn of the wait loop on the semaphores and on the other threads.\<close>

lemma semop_call:
  "requested_call sys request actor = Some c \<Longrightarrow> opcode (header request) \<in> {9, 14} \<Longrightarrow> \<exists>now semid ops pid. c = Tryop now semid ops pid"
  by (auto simp: requested_call_def Let_def split: if_splits)

lemma semop_step_quiet:
  assumes "request_step (sys, request, actor, response) st (r, response') st'" "opcode (header request) \<in> {9, 14}"
    "r \<noteq> 0 \<or> hdr_result (header response') \<noteq> 0"
  shows "st' = st"
proof (cases "r = 0 \<and> requested_call sys request actor \<noteq> None")
  case True
  then obtain c where c: "requested_call sys request actor = Some c" by auto
  from semop_call [OF c assms(2)] obtain now semid ops pid where "c = Tryop now semid ops pid" by blast
  with c True assms(1,3) show ?thesis
    by (auto simp: request_step_def sv_semop_def split: option.splits if_splits sv_outcome.splits)
next
  case False
  with assms(1) show ?thesis by (auto simp: request_step_def split: if_splits)
qed

lemma dispatch_steps:
  assumes "store_inv store" "in_i32 (actor_pid actor)" "clock_ok (clock_realtime sys)"
    "tgc_broker_dispatch sys store request actor response = (r, store', response')"
  shows "request_step (sys, request, actor, response) (sv_of store) (r, response') (sv_of store')"
  using dispatch_request_step [OF assms(1), of "(sys, request, actor, response)"] assms(2-)
  by (simp add: dispatch_event_ok_def dispatch_exec_def)

lemma leave_queue_effect:
  assumes "broker_ok broker ws" "a \<in> set ws" "leave_queue r broker a response = Some (out, broker', response')"
  shows "out = Returned r" "response' = response" "sv_of (broker_store broker') = sv_of (broker_store broker)"
    "state_changed broker' = Suc (state_changed broker)" "queue_of broker' (removeAll a ws)"
  using leave_queue_ok [OF assms(1,2), of r response] assms(3) by (auto simp: broker_ok_def)

lemma enter_wait_effect:
  assumes ok: "broker_ok broker ws" and a: "a \<in> set ws" and run: "enter_wait clock broker a response = Some (out, broker', response')"
  shows "sv_of (broker_store broker') = sv_of (broker_store broker)" "response' = response"
    "out = Waits \<longrightarrow> broker' = broker" "out \<noteq> Waits \<longrightarrow> state_changed broker' = Suc (state_changed broker) \<and> queue_of broker' (removeAll a ws)"
proof -
  obtain w where w: "cells broker a = Some w" using ok a by (auto simp: broker_ok_def)
  have "(\<exists>e. leave_queue e broker a response = Some (out, broker', response')) \<or> (out, broker', response') = (Waits, broker, response)"
    using run w by (auto simp: enter_wait_def split: sum.splits)
  then have "sv_of (broker_store broker') = sv_of (broker_store broker) \<and> response' = response \<and> (out = Waits \<longrightarrow> broker' = broker) \<and>
      (out \<noteq> Waits \<longrightarrow> state_changed broker' = Suc (state_changed broker) \<and> queue_of broker' (removeAll a ws))"
  proof (elim disjE exE)
    fix e
    assume "leave_queue e broker a response = Some (out, broker', response')"
    from leave_queue_effect [OF ok a this] show ?thesis by simp
  qed simp
  then show "sv_of (broker_store broker') = sv_of (broker_store broker)" "response' = response"
    "out = Waits \<longrightarrow> broker' = broker" "out \<noteq> Waits \<longrightarrow> state_changed broker' = Suc (state_changed broker) \<and> queue_of broker' (removeAll a ws)"
    by blast+
qed

definition served :: "round_answers \<Rightarrow> tgc_broker \<Rightarrow> nat list \<Rightarrow> nat \<Rightarrow> tgc_protocol_packet \<Rightarrow> tgc_broker_actor \<Rightarrow>
    tgc_protocol_packet \<Rightarrow> outcome \<times> tgc_broker \<times> tgc_protocol_packet \<Rightarrow> bool" where
  "served ans broker ws a request actor response res \<longleftrightarrow>
     (case res of (out, broker', response') \<Rightarrow>
        out = Returned 0 \<and> hdr_result (header response') = 0 \<and> \<not> peer_has_closed (peek_answer ans) \<and> first_in (cells broker) a ws \<and>
        request_step (round_sys ans, request, actor, response) (sv_of (broker_store broker)) (0, response') (sv_of (broker_store broker')))"

definition round_effect :: "round_answers \<Rightarrow> tgc_broker \<Rightarrow> nat list \<Rightarrow> nat \<Rightarrow> tgc_protocol_packet \<Rightarrow> tgc_broker_actor \<Rightarrow>
    tgc_protocol_packet \<Rightarrow> outcome \<times> tgc_broker \<times> tgc_protocol_packet \<Rightarrow> bool" where
  "round_effect ans broker ws a request actor response res \<longleftrightarrow>
     (case res of (out, broker', response') \<Rightarrow>
        (sv_of (broker_store broker') = sv_of (broker_store broker) \<or> served ans broker ws a request actor response res) \<and>
        (if out = Waits
         then sv_of (broker_store broker') = sv_of (broker_store broker) \<and> state_changed broker' = state_changed broker \<and> queue_of broker' ws
         else state_changed broker' = Suc (state_changed broker) \<and> queue_of broker' (removeAll a ws)))"

lemma leave_round_effect:
  assumes "broker_ok (broker\<lparr>broker_store := st\<rparr>) ws" "a \<in> set ws"
    "leave_queue r (broker\<lparr>broker_store := st\<rparr>) a p = Some (out, broker', response')"
    "sv_of st = sv_of (broker_store broker)"
  shows "round_effect ans broker ws a request actor response (out, broker', response')"
  using leave_queue_effect [OF assms(1-3)] assms(4) by (simp add: round_effect_def)

lemma enter_round_effect:
  assumes "broker_ok (broker\<lparr>broker_store := st\<rparr>) ws" "a \<in> set ws"
    "enter_wait clock (broker\<lparr>broker_store := st\<rparr>) a p = Some (out, broker', response')"
    "sv_of st = sv_of (broker_store broker)"
  shows "round_effect ans broker ws a request actor response (out, broker', response')"
  using enter_wait_effect [OF assms(1-3)] assms(1,4) by (cases "out = Waits") (simp_all add: round_effect_def broker_ok_def)

lemma wait_round_effect:
  assumes ok: "broker_ok broker ws" and a: "a \<in> set ws" and pid: "in_i32 (actor_pid actor)"
    and clock: "clock_ok (clock_realtime (round_sys ans))" and opc: "opcode (header request) \<in> {9, 14}"
    and run: "wait_round ans broker a request actor response = Some (out, broker', response')"
  shows "round_effect ans broker ws a request actor response (out, broker', response')"
proof -
  have q: "queue_of broker ws" and inv: "store_inv (broker_store broker)" using ok by (simp_all add: broker_ok_def)
  obtain r st p where d: "tgc_broker_dispatch (round_sys ans) (broker_store broker) request actor response = (r, st, p)"
    by (cases "tgc_broker_dispatch (round_sys ans) (broker_store broker) request actor response")
  note step = dispatch_steps [OF inv pid clock d]
  have "store_inv st" using inv_dispatch [OF inv pid clock, of request response] d by simp
  then have b: "broker_ok (broker\<lparr>broker_store := st\<rparr>) ws" by (rule broker_ok_store [OF ok])
  have self: "broker_ok (broker\<lparr>broker_store := broker_store broker\<rparr>) ws" using ok by simp
  have first: "waiter_is_first_for_set broker a = Some (first_in (cells broker) a ws)"
    using waiter_is_first_queue [OF q] .
  consider (left) "leave_queue 0 broker a response = Some (out, broker', response')"
    | (again) "enter_wait (round_clock ans) broker a response = Some (out, broker', response')"
    | (over) "\<not> peer_has_closed (peek_answer ans)" "first_in (cells broker) a ws" "r \<noteq> 0 \<or> hdr_result (header p) \<noteq> 1"
        "leave_queue r (broker\<lparr>broker_store := st\<rparr>) a p = Some (out, broker', response')"
    | (still) "r = 0" "hdr_result (header p) = 1"
        "enter_wait (round_clock ans) (broker\<lparr>broker_store := st\<rparr>) a p = Some (out, broker', response')"
    using run first d by (auto simp: wait_round_def Let_def split: if_splits)
  then show ?thesis
  proof cases
    case left
    with leave_round_effect [OF self a] show ?thesis by simp
  next
    case again
    with enter_round_effect [OF self a] show ?thesis by simp
  next
    case over
    show ?thesis
    proof (cases "r = 0 \<and> hdr_result (header p) = 0")
      case True
      then show ?thesis using leave_queue_effect [OF b a over(4)] over(1,2) step by (simp add: round_effect_def served_def)
    next
      case False
      with semop_step_quiet [OF step opc] leave_round_effect [OF b a over(4)] show ?thesis by blast
    qed
  next
    case still
    with semop_step_quiet [OF step opc] enter_round_effect [OF b a still(3)] show ?thesis by simp
  qed
qed

lemma resume_effect:
  assumes ok: "broker_ok broker ws" and a: "a \<in> set ws" and pid: "in_i32 (actor_pid actor)"
    and clock: "clock_ok (clock_realtime (round_sys (wake_round ans)))" and opc: "opcode (header request) \<in> {9, 14}"
    and run: "dispatch_resume ans broker a request actor response = Some (out, broker', response')"
  shows "round_effect (wake_round ans) broker ws a request actor response (out, broker', response')"
proof -
  obtain w where w: "cells broker a = Some w" using ok a by (auto simp: broker_ok_def)
  obtain r timed where wake: "wait_wakeup (cond_answer ans) (wake_clock ans) w = (r, timed)"
    by (cases "wait_wakeup (cond_answer ans) (wake_clock ans) w")
  have self: "broker_ok (broker\<lparr>broker_store := broker_store broker\<rparr>) ws" using ok by simp
  have "(\<exists>r p. leave_queue r broker a p = Some (out, broker', response')) \<or>
      wait_round (wake_round ans) broker a request actor response = Some (out, broker', response')"
    using run by (auto simp: dispatch_resume_def w wake split: if_splits)
  then show ?thesis
    using leave_round_effect [OF self a] wait_round_effect [OF ok a pid clock opc] by auto
qed

lemma resume_timeout:
  assumes ok: "broker_ok broker ws" and a: "a \<in> set ws"
    and w: "cells broker a = Some w" "w_has_deadline w" and cond: "cond_answer ans \<in> {0, errno_code ETIMEDOUT}"
    and now: "wake_clock ans = Inr now" "0 \<le> compare_timespec now (w_deadline w)"
    and run: "dispatch_resume ans broker a request actor response = Some (out, broker', response')"
  shows "out = Returned 0 \<and> hdr_result (header response') = err EAGAIN \<and> payload_length (header response') = 0 \<and>
    sv_of (broker_store broker') = sv_of (broker_store broker) \<and> queue_of broker' (removeAll a ws)"
proof -
  have "leave_queue 0 broker a (response\<lparr>header := (header response)\<lparr>hdr_result := err EAGAIN, payload_length := 0\<rparr>\<rparr>) = Some (out, broker', response')"
    using run w cond now by (auto simp: dispatch_resume_def wait_wakeup_def)
  from leave_queue_effect [OF ok a this] show ?thesis by simp
qed

text \<open>Every change of a value is announced: \<open>woken b b'\<close> says that if no broadcast happened between two states
  then every set that existed has the same values.\<close>

definition woken :: "tgc_broker \<Rightarrow> tgc_broker \<Rightarrow> bool" where
  "woken b b' \<longleftrightarrow> state_changed b \<le> state_changed b' \<and>
     (state_changed b' = state_changed b \<longrightarrow> (\<forall>semid. sv_values (sv_of (broker_store b)) semid \<noteq> None \<longrightarrow>
       sv_values (sv_of (broker_store b')) semid = sv_values (sv_of (broker_store b)) semid))"

lemma woken_refl [simp, intro]: "woken b b"
  by (simp add: woken_def)

lemma woken_trans: "woken a b \<Longrightarrow> woken b c \<Longrightarrow> woken a c"
  by (auto simp: woken_def)

lemma woken_same:
  "state_changed b \<le> state_changed b' \<Longrightarrow> sv_of (broker_store b') = sv_of (broker_store b) \<Longrightarrow> woken b b'"
  by (simp add: woken_def)

lemma round_effect_woken: "round_effect ans b ws a request actor response (out, b', p) \<Longrightarrow> woken b b'"
  by (auto simp: round_effect_def woken_def split: if_splits)

lemma block_request_woken:
  assumes ok: "broker_ok broker ws" and a: "a \<notin> set ws"
    and pid: "in_i32 (actor_pid actor)" and clock: "clock_ok (clock_realtime (round_sys (begin_round ans)))"
    and opc: "opcode (header request) \<in> {9, 14}"
    and run: "block_request ans broker a request actor response = Some (out, broker', response')"
  shows "woken broker broker'"
proof -
  obtain r w where w: "initialize_deadline (begin_clock ans) request (make_waiter request response) = (r, w)"
    by (cases "initialize_deadline (begin_clock ans) request (make_waiter request response)")
  obtain r2 st where adj: "tgc_sem_store_adjust_wait_count (broker_store broker) (w_semid w) (unat (w_semnum w)) (w_wait_for_zero w \<noteq> 0) 1 = (r2, st)"
    by (cases "tgc_sem_store_adjust_wait_count (broker_store broker) (w_semid w) (unat (w_semnum w)) (w_wait_for_zero w \<noteq> 0) 1")
  have inv: "store_inv (broker_store broker)" using ok by (simp add: broker_ok_def)
  have st: "store_inv st" "sv_of st = sv_of (broker_store broker)"
    using inv_adjust_wait_count [OF inv] refine_adjust_wait_count [OF inv] adj by (metis snd_conv)+
  let ?b1 = "broker\<lparr>broker_store := st\<rparr>"
  let ?b2 = "enqueue_waiter (?b1\<lparr>cells := (cells ?b1)(a := Some (w\<lparr>w_counted := True\<rparr>))\<rparr>) a"
  have b2: "broker_ok ?b2 (ws @ [a])" by (rule enqueue_ok(1) [OF broker_ok_store [OF ok st(1)] a])
  have "woken broker ?b2" using st(2) by (intro woken_same) (simp_all add: enqueue_waiter_sel)
  moreover have "broker' = broker \<or> broker' = ?b1 \<or> wait_round (begin_round ans) ?b2 a request actor response = Some (out, broker', response')"
    using run by (auto simp: block_request_def w adj Let_def split: if_splits)
  moreover have "woken broker ?b1" using st(2) by (intro woken_same) simp_all
  moreover have "woken ?b2 broker'" if "wait_round (begin_round ans) ?b2 a request actor response = Some (out, broker', response')"
    by (rule round_effect_woken [OF wait_round_effect [OF b2 _ pid clock opc that]]) simp
  ultimately show ?thesis using woken_trans [of broker ?b2 broker'] by auto
qed

lemma begin_woken:
  assumes ok: "broker_ok broker ws" and a: "a \<notin> set ws" and pid: "0 < actor_pid actor" "in_i32 (actor_pid actor)"
    and clock: "clock_ok (clock_realtime (begin_sys ans))" "clock_ok (clock_realtime (round_sys (begin_round ans)))"
    and run: "dispatch_begin ans broker a request actor response = Some (out, broker', response')"
  shows "woken broker broker'"
proof -
  obtain r b1 where w: "(if request_uses_undo request then watch_process (begin_proc ans) broker (actor_pid actor) else (0, broker)) = (r, b1)"
    by (cases "if request_uses_undo request then watch_process (begin_proc ans) broker (actor_pid actor) else (0, broker)")
  have b1: "broker_ok b1 ws" "broker_store b1 = broker_store broker" "state_changed broker \<le> state_changed b1"
    using w watch_process_ok [OF ok pid] ok by (auto split: if_splits)
  then have w1: "woken broker b1" by (intro woken_same) simp_all
  obtain r2 st p where d: "tgc_broker_dispatch (begin_sys ans) (broker_store b1) request actor response = (r2, st, p)"
    by (cases "tgc_broker_dispatch (begin_sys ans) (broker_store b1) request actor response")
  have inv: "store_inv (broker_store b1)" using b1 by (simp add: broker_ok_def)
  have "store_inv st" using inv_dispatch [OF inv pid(2) clock(1), of request response] d by simp
  then have b2: "broker_ok (b1\<lparr>broker_store := st\<rparr>) ws" by (rule broker_ok_store [OF b1(1)])
  have quiet: "woken b1 (b1\<lparr>broker_store := st\<rparr>)" if "r2 \<noteq> 0 \<or> \<not> operation_changed_state request p"
    using dispatch_quiet [OF inv pid(2) clock(1) d that] by (simp add: woken_def)
  have blocked: "woken b1 broker'" if "opcode (header request) \<in> {9, 14}" "hdr_result (header p) = 1"
    "block_request ans (b1\<lparr>broker_store := st\<rparr>) a request actor p = Some (out, broker', response')"
    using woken_trans [OF quiet block_request_woken [OF b2 a pid(2) clock(2) that(1,3)]] that(2) by (simp add: operation_changed_state_def)
  have "woken b1 broker' \<or> broker' = broker"
    using run quiet blocked
    by (auto simp: dispatch_begin_def w d Let_def woken_def [of b1 "broadcast b" for b] split: if_splits)
  with w1 woken_trans show ?thesis by blast
qed

lemma exit_quiet:
  assumes inv: "store_inv store" and no: "\<forall>s n. sv_undo (sv_of store) (pid, s, n) = 0"
  shows "sv_values (sv_exit (sv_of store) pid) semid = sv_values (sv_of store) semid"
proof (cases "sv_values (sv_of store) semid")
  case (Some vals)
  then have "clamp_value (vals ! n) = vals ! n" if "n < length vals" for n
    using sv_values_bounds [OF inv Some] that by (intro clamp_value_id) simp_all
  with Some no show ?thesis by (auto simp: sv_exit_def intro: nth_equalityI)
qed (simp add: sv_exit_def)

lemma monitor_slot_woken:
  assumes ok: "broker_ok broker ws" and i: "i < 1024" and clock: "\<forall>j. clock_ok (now i j)"
  shows "woken broker (fst (monitor_slot ans now i (broker, closed)))"
proof (cases "watch_active (process_watchers broker ! i)")
  case True
  let ?w = "process_watchers broker ! i"
  have wok: "watchers_ok (process_watchers broker)" and inv: "store_inv (broker_store broker)" using ok by (simp_all add: broker_ok_def)
  have pid: "0 < watch_pid ?w" "in_i32 (watch_pid ?w)" using wok i True by (simp_all add: watchers_ok_def)
  obtain c st where e: "tgc_sem_store_process_exit (now i) (broker_store broker) (watch_pid ?w) = (c, st)"
    by (cases "tgc_sem_store_process_exit (now i) (broker_store broker) (watch_pid ?w)")
  note exit = refine_process_exit [OF inv pid(2,1) clock, unfolded e fst_conv snd_conv]
  have "sv_values (sv_of st) semid = sv_values (sv_of (broker_store broker)) semid" if "\<not> 0 < c" for semid
    using that exit(1,3) exit_quiet [OF inv] by (auto split: if_splits)
  then show ?thesis by (simp add: monitor_slot_def Let_def e woken_def)
qed (simp add: monitor_slot_def Let_def)

lemma monitor_fold_woken:
  assumes "broker_ok broker ws" "set is \<subseteq> {..<1024}" "\<forall>i j. clock_ok (now i j)"
  shows "woken broker (fst (fold (monitor_slot ans now) is (broker, closed)))"
  using assms
proof (induction "is" arbitrary: broker closed)
  case (Cons i "is")
  obtain b c where s: "monitor_slot ans now i (broker, closed) = (b, c)" by (cases "monitor_slot ans now i (broker, closed)")
  have i: "i < 1024" using Cons.prems by simp
  have "broker_ok b ws" using monitor_slot_ok(1) [OF Cons.prems(1) i, of now ans closed] Cons.prems s by simp
  with Cons.IH [of b c] Cons.prems have "woken b (fst (fold (monitor_slot ans now) is (b, c)))" by simp
  moreover have "woken broker b" using monitor_slot_woken [OF Cons.prems(1) i, of now ans closed] Cons.prems s by simp
  ultimately show ?case using s woken_trans by simp
qed simp

lemma monitor_round_woken:
  assumes "broker_ok broker ws" "\<forall>i j. clock_ok (now i j)" "monitor_round ans now clock broker = ((broker', closed), next)"
  shows "woken broker broker'"
proof -
  have "set [0..<1024] \<subseteq> {..<1024::nat}" by auto
  then have "woken broker (fst (monitor_scan ans now broker))"
    using monitor_fold_woken [OF assms(1) _ assms(2), of "[0..<1024]" ans "[]"] by (simp add: monitor_scan_def)
  then show ?thesis using assms(3) by (auto simp: monitor_round_def case_prod_beta Let_def split: if_splits)
qed

lemma step_woken:
  assumes ok: "system_ok (broker, conns)" and step: "broker_step (broker, conns) (broker', conns')"
  shows "woken broker broker'"
proof -
  obtain ws where ws: "broker_ok broker ws" "set ws = blocked_threads conns" using ok by (auto simp: system_ok_def)
  have actor: "0 < actor_pid actor \<and> in_i32 (actor_pid actor)" if "conns t = Some (actor, st)" for t actor st
    using ok that by (auto simp: system_ok_def conn_ok_def)
  from step show "woken broker broker'"
  proof cases
    case (request t actor request response ans fd s out st sent s')
    have t: "t \<notin> set ws" using request(2) ws(2) by (simp add: blocked_threads_def)
    show ?thesis
      using request(7) begin_woken [OF ws(1) t _ _ request(5,6)] actor [OF request(2)]
      by (auto simp: serve_request_def bind_eq_Some_conv split: if_splits)
  next
    case (resume t actor request response ans fd out st sent)
    have t: "t \<in> set ws" using resume(2) ws(2) by (simp add: blocked_threads_def)
    have opc: "opcode (header request) \<in> {9, 14}" using ok resume(2) by (auto simp: system_ok_def conn_ok_def)
    show ?thesis
      using resume(4) resume_effect [OF ws(1) t _ resume(3) opc] actor [OF resume(2)] round_effect_woken
      by (fastforce simp: serve_resume_def bind_eq_Some_conv)
  next
    case (monitor "now" proc clock closed "next")
    with monitor_round_woken [OF ws(1)] show ?thesis by simp
  qed simp_all
qed

subsection \<open>Deadlines\<close>

definition nanoseconds_of :: "timespec \<Rightarrow> int" where
  "nanoseconds_of t = tv_sec t * 1000000000 + tv_nsec t"

definition normal :: "timespec \<Rightarrow> bool" where
  "normal t \<longleftrightarrow> 0 \<le> tv_nsec t \<and> tv_nsec t < 1000000000"

lemma compare_timespec_nanoseconds:
  "normal a \<Longrightarrow> normal b \<Longrightarrow> compare_timespec a b = sgn (nanoseconds_of a - nanoseconds_of b)"
  by (auto simp: compare_timespec_def nanoseconds_of_def normal_def sgn_if)

lemma add_interval_normal:
  "normal t \<Longrightarrow> normal (add_interval t) \<and> nanoseconds_of (add_interval t) = nanoseconds_of t + 250000000"
  by (auto simp: add_interval_def normal_def nanoseconds_of_def Let_def)

text \<open>C32. The deadline of a timed operation is the time of the clock plus the timeout, to the nanosecond and in
  normal form, as long as it is before the last second the code represents; beyond it, it is the end of
  that second, which is earlier. The operation is timed out by a wake-up exactly when the clock has reached it.\<close>

theorem deadline_is_exact:
  assumes "opcode (header request) = 14" "0 \<le> tgc_wire_get_i64 (payload request) 8" "normal now" "0 \<le> tv_sec now" "normal later"
  shows "\<exists>waiter'. initialize_deadline (Inr now) request waiter = (0, waiter') \<and> w_has_deadline waiter' \<and> normal (w_deadline waiter') \<and>
    nanoseconds_of (w_deadline waiter') =
      (if (tv_sec now + tgc_wire_get_i64 (payload request) 8 div 1000000000) \<le> 2147483647
       then nanoseconds_of now + tgc_wire_get_i64 (payload request) 8 else 2147483647999999999) \<and>
    nanoseconds_of (w_deadline waiter') \<le> nanoseconds_of now + tgc_wire_get_i64 (payload request) 8 \<and>
    wait_wakeup 0 (Inr later) waiter' = (0, nanoseconds_of (w_deadline waiter') \<le> nanoseconds_of later)"
proof -
  define t where "t = tgc_wire_get_i64 (payload request) 8"
  have t: "0 \<le> t" using assms(2) by (simp add: t_def)
  have split: "t = t div 1000000000 * 1000000000 + t mod 1000000000" "0 \<le> t mod 1000000000" "t mod 1000000000 < 1000000000" "0 \<le> t div 1000000000"
    using t by simp_all
  obtain w where w: "initialize_deadline (Inr now) request waiter = (0, w)" "w_has_deadline w"
    "w_deadline w = (if 2147483647 < t div 1000000000 \<or> 2147483647 - t div 1000000000 < tv_sec now
        then \<lparr>tv_sec = 2147483647, tv_nsec = 999999999\<rparr>
        else if 1000000000 \<le> tv_nsec now + t mod 1000000000
          then \<lparr>tv_sec = tv_sec now + t div 1000000000 + 1, tv_nsec = tv_nsec now + t mod 1000000000 - 1000000000\<rparr>
          else \<lparr>tv_sec = tv_sec now + t div 1000000000, tv_nsec = tv_nsec now + t mod 1000000000\<rparr>)"
    using assms(1) t by (simp add: initialize_deadline_def Let_def t_def)
  have n: "normal (w_deadline w)" using assms(3) split by (auto simp: w(3) normal_def)
  have "nanoseconds_of (w_deadline w) = (if tv_sec now + t div 1000000000 \<le> 2147483647 then nanoseconds_of now + t else 2147483647999999999)"
    using assms(3,4) split by (auto simp: w(3) nanoseconds_of_def)
  moreover have "2147483647999999999 \<le> nanoseconds_of now + t" if "\<not> tv_sec now + t div 1000000000 \<le> 2147483647"
  proof -
    obtain q r where qr: "t = q * 1000000000 + r" "0 \<le> r" "q = t div 1000000000" using split by blast
    then have "2147483648 \<le> tv_sec now + q" using that by simp
    then show ?thesis using assms(3) qr(1,2) unfolding nanoseconds_of_def normal_def by linarith
  qed
  moreover have "wait_wakeup 0 (Inr later) w = (0, nanoseconds_of (w_deadline w) \<le> nanoseconds_of later)"
    using w(2) compare_timespec_nanoseconds [OF assms(5) n] by (simp add: wait_wakeup_def sgn_if)
  ultimately show ?thesis using w(1,2) n unfolding t_def [symmetric] by (intro exI [of _ w]) auto
qed

definition timed_request :: tgc_protocol_packet where
  "timed_request = \<lparr>header = \<lparr>version = 1, kind = 1, opcode = 14, request_id = 5, payload_length = 24, hdr_result = 0\<rparr>,
     payload = tgc_wire_put_i64 (replicate 8192 0) 8 2500000000\<rparr>"

theorem deadline_is_exact_witness:
  "\<exists>waiter'. initialize_deadline (Inr \<lparr>tv_sec = 10, tv_nsec = 700000000\<rparr>) timed_request (example_waiter 65537) = (0, waiter') \<and>
     nanoseconds_of (w_deadline waiter') = 13200000000 \<and> w_has_deadline waiter'"
proof -
  have t: "tgc_wire_get_i64 (payload timed_request) 8 = 2500000000" using i64.get_put [of 8 "replicate 8192 0" 2500000000] by (simp add: timed_request_def in_i64_def)
  have "opcode (header timed_request) = 14" "normal \<lparr>tv_sec = 10, tv_nsec = 700000000\<rparr>" by (simp_all add: timed_request_def normal_def)
  from deadline_is_exact [OF this(1) _ this(2), of "\<lparr>tv_sec = 10, tv_nsec = 700000000\<rparr>" "example_waiter 65537"] this(2) t
  show ?thesis by (auto simp: nanoseconds_of_def)
qed

subsection \<open>Creation and destruction\<close>

fun held :: "resource_event list \<Rightarrow> resource list \<Rightarrow> resource list option" where
  "held [] rs = Some rs"
| "held (Acquire r # es) rs = (if r \<in> set rs then None else held es (r # rs))"
| "held (Release r # es) rs = (if r \<in> set rs then held es (remove1 r rs) else None)"

text \<open>Creating the broker neither leaks nor releases twice, whichever of its calls fails: a failed creation
  holds nothing, a successful one holds the memory, the store, the mutex, the condition variable and the monitor's
  thread and nothing else, and destroying that broker releases exactly these.\<close>

lemma create_leaks_nothing:
  "case tgc_broker_create ans of
     (None, log) \<Rightarrow> held log [] = Some []
   | (Some broker, log) \<Rightarrow> broker_ok broker [] \<and>
       held log [] = Some [Monitor_thread, Broker_condition, Broker_mutex, Broker_store, Broker_memory] \<and>
       held (log @ snd (snd (tgc_broker_destroy lock broker))) [] = Some []"
proof (cases "tgc_broker_create ans")
  case (Pair b log)
  have "held log [] = (if b = None then Some [] else Some [Monitor_thread, Broker_condition, Broker_mutex, Broker_store, Broker_memory])"
    using Pair by (auto simp: tgc_broker_create_def Let_def split: if_splits)
  moreover have "held (log @ snd (snd (tgc_broker_destroy lock broker))) [] = Some []" if "b = Some broker" for broker
    using Pair that by (auto simp: tgc_broker_create_def tgc_broker_destroy_def broadcast_def Let_def split: if_splits)
  moreover have "broker_ok broker []" if "b = Some broker" for broker
    using create_ok Pair that by blast
  ultimately show ?thesis using Pair by (simp split: option.splits)
qed

text \<open>A waiter that is retried and blocks again keeps the semaphore and the reason it was first counted for, although the retry may have
  blocked on another one.\<close>

lemma enter_wait_same: "enter_wait clock broker waiter response = Some (Waits, broker', response') \<Longrightarrow> broker' = broker"
proof -
  assume run: "enter_wait clock broker waiter response = Some (Waits, broker', response')"
  then obtain w where w: "cells broker waiter = Some w" by (auto simp: enter_wait_def Option.bind_eq_Some_conv)
  with run show ?thesis by (cases "wait_prepare clock w") (auto simp: enter_wait_def leave_queue_def)
qed

lemma retry_keeps_reason:
  assumes "wait_round ans broker waiter request actor response = Some (Waits, broker', response')"
  shows "cells broker' = cells broker"
  using assms
  by (auto simp: wait_round_def leave_queue_def Option.bind_eq_Some_conv Let_def split: if_splits prod.splits dest!: enter_wait_same)
end
