(* ===== verification/Service.thy ===== *)
theory Service imports Client Broker begin

text \<open>The client library and the broker together: a client call from the library function through
  the two ends of the socket to the store and back, and what the waiting threads of the broker
  are promised.\<close>

unbundle bit_operations_syntax

subsection \<open>A client call, the two ends of the socket and the broker\<close>

lemma request_uses_undo_agree:
  assumes ag: "agree (unat (payload_length h)) b c"
  shows "request_uses_undo \<lparr>header = h, payload = b\<rparr> = request_uses_undo \<lparr>header = h, payload = c\<rparr>"
proof -
  let ?n = "unat (payload_length h)"
  let ?p = "if opcode h = 14 then 16 else 8 :: u32"
  have count: "tgc_wire_get_u32 b 4 = tgc_wire_get_u32 c 4" if "\<not> payload_length h < ?p"
    using u32.get_agree [OF ag, of 4] that by (auto simp: word_less_nat_alt split: if_splits)
  have op: "tgc_wire_get_u16 b (unat ?p + i * 8 + 4) = tgc_wire_get_u16 c (unat ?p + i * 8 + 4)"
    if "\<not> 512 < w" "payload_length h = ?p + w * 8" "i < unat w" for i and w :: u32
  proof -
    have "unat w \<le> 512" using that(1) by (simp add: word_less_nat_alt)
    then have "?n = unat ?p + unat w * 8" using that(2) by (auto simp: unat_word_ariths)
    then show ?thesis using u16.get_agree [OF ag] that(3) by simp
  qed
  have ops: "list_ex (\<lambda>i. tgc_wire_get_u16 b (unat ?p + i * 8 + 4) AND 4096 \<noteq> 0) [0..<unat w] =
      list_ex (\<lambda>i. tgc_wire_get_u16 c (unat ?p + i * 8 + 4) AND 4096 \<noteq> 0) [0..<unat w]"
    if "\<not> 512 < w" "payload_length h = ?p + w * 8" for w :: u32
    using op [OF that] by (auto simp: list_ex_iff)
  show ?thesis
  proof (cases "opcode h = 14")
    case True
    with count ops show ?thesis by (simp add: request_uses_undo_def)
  next
    case False
    with count ops show ?thesis by (simp add: request_uses_undo_def)
  qed
qed

lemma dispatch_agree:
  assumes "agree (unat (payload_length h)) b c"
  shows "tgc_broker_dispatch sys store \<lparr>header = h, payload = b\<rparr> actor response =
         tgc_broker_dispatch sys store \<lparr>header = h, payload = c\<rparr> actor response"
  unfolding tgc_broker_dispatch_def by (simp add: agree_opcode [OF assms] prepare_response_def cong: if_cong)

lemma same_frame_cases:
  assumes "same_frame p q"
  obtains h b c where "p = \<lparr>header = h, payload = b\<rparr>" "q = \<lparr>header = h, payload = c\<rparr>" "agree (unat (payload_length h)) b c"
  using assms by (cases p; cases q) (auto simp: same_frame_def)

lemma connected_recv: "connected env client client1 \<Longrightarrow> connected (env\<lparr>env_recv := r\<rparr>) client client1"
proof -
  have "ensure_connection (env\<lparr>env_recv := r\<rparr>) client = ensure_connection env client"
    by (simp add: ensure_connection_def Let_def cong: if_cong prod.case_cong)
  then show "connected env client client1 \<Longrightarrow> connected (env\<lparr>env_recv := r\<rparr>) client client1" by (simp add: connected_def)
qed

text \<open>A request that need not wait, from its frame to the frame of its response.\<close>

lemma serve_request_answers:
  assumes ok: "broker_ok broker ws" and actor: "0 < actor_pid actor" "in_i32 (actor_pid actor)"
    and bufs: "length (payload request) = 8192" "length (payload response) = 8192"
    and req: "sendable p" "kind (header p) = 1"
    and inp: "0 \<le> fd" "quiet s" "stream_bytes s = frame p @ rest"
    and out: "send_answers_ok t" "8216 \<le> send_progress t"
    and lock: "lock_answer ans = 0" and clock: "clock_ok (clock_realtime (begin_sys ans))"
    and watch: "request_uses_undo p \<longrightarrow> fst (watch_process (begin_proc ans) broker (actor_pid actor)) = 0"
    and run: "tgc_broker_dispatch (begin_sys ans) (broker_store broker) p actor response = (0, store', answer)"
    and now: "opcode (header p) \<in> {9, 14} \<longrightarrow> hdr_result (header answer) \<noteq> 1" and known: "1 \<le> opcode (header p)" "opcode (header p) \<le> 16"
  shows "\<exists>broker' s'. serve_request ans broker a fd actor request response s t = Some (Ready, broker', frame answer, s') \<and>
     broker_store broker' = store' \<and> quiet s' \<and> stream_bytes s' = rest"
proof -
  let ?q = "\<lparr>header = header p, payload = store_bytes (payload request) 0 (take (unat (payload_length (header p))) (payload p))\<rparr>"
  obtain s' where recv: "tgc_transport_receive fd request s = Some (0, ?q, s')" "quiet s'" "stream_bytes s' = rest"
    using receive_frame [OF req(1) inp bufs(1)] by blast
  have "same_frame p ?q" by (rule same_frame_stored [OF req(1) bufs(1)])
  then have same: "request_uses_undo ?q = request_uses_undo p"
    "tgc_broker_dispatch sys st ?q actor response = tgc_broker_dispatch sys st p actor response" for sys st
    using request_uses_undo_agree dispatch_agree by (metis same_frame_cases)+
  obtain r b1 where w: "(if request_uses_undo p then watch_process (begin_proc ans) broker (actor_pid actor) else (0, broker)) = (r, b1)"
    by (cases "if request_uses_undo p then watch_process (begin_proc ans) broker (actor_pid actor) else (0, broker)")
  have b1: "r = 0" "broker_store b1 = broker_store broker"
    using w watch watch_process_ok(3) [OF ok actor] by (auto split: if_splits)
  define b2 where "b2 = (if operation_changed_state ?q answer then broadcast (b1\<lparr>broker_store := store'\<rparr>) else b1\<lparr>broker_store := store'\<rparr>)"
  have d: "dispatch_begin ans broker a ?q actor response = Some (Returned 0, b2, answer)"
    using lock w b1 run now by (auto simp: dispatch_begin_def same b2_def)
  have "store_inv (broker_store broker)" using ok by (simp add: broker_ok_def)
  from dispatch_frame [OF this actor(2) clock bufs(2) run] known have a: "sendable answer" by (simp add: sendable_def)
  then obtain t' where "tgc_transport_send fd answer t = Some (0, frame answer, t')"
    using send_completes_frame [OF a inp(1) out(1)] out(2) sendable_payload [OF a] by auto
  then have "serve_respond fd ?q (Returned 0) answer t = Some (Ready, frame answer)" by (simp add: serve_respond_def)
  then show ?thesis using recv d req(2) by (simp add: serve_request_def b2_def)
qed

lemma dispatch_result:
  assumes "requested_call sys request actor = Some c" "tgc_broker_dispatch sys store request actor response = (0, store', response')"
  shows "hdr_result (header response') = fst (store_exec c store)" "store' = snd (store_exec c store)"
proof -
  have "hdr_result (header response') = fst (store_exec c store) \<and> store' = snd (store_exec c store)"
  proof (cases rule: dispatch_cases [of sys store request actor response])
    case (answered r st p)
    with dispatch_opcode_store [OF answered(6)] assms show ?thesis by auto
  qed (use assms in auto)
  then show "hdr_result (header response') = fst (store_exec c store)" "store' = snd (store_exec c store)" by simp_all
qed

lemma dispatch_accepts:
  assumes "0 < actor_pid actor" "version (header request) = 1" "kind (header request) = 1" "hdr_result (header request) = 0"
    "unat (payload_length (header request)) \<le> 8192"
  obtains store' response' where "tgc_broker_dispatch sys store request actor response = (0, store', response')"
  using assms by (simp add: tgc_broker_dispatch_def case_prod_beta Let_def)

text \<open>The whole path of a call: a client with a connection calls one of the functions that change or create sets,
  the bytes it writes reach the broker's thread of that connection in any segmentation, the thread
  dispatches the request under the mutex and writes the response, and the bytes reach the client in any segmentation.
  Then the broker's store is the one the call makes of it, the thread is ready for the next request, and the client's
  function returns the result of that call - unless the operation has to wait, in which case it is queued.\<close>

lemma service_call_is_local:
  assumes sys: "system_ok (broker, conns)" "conns t = Some (actor, Ready)"
    and conn: "connected env client client1" and op: "client_op_ok op"
    and bufs: "length (payload request) = 8192" "length (payload response) = 8192"
    and sent: "sent = with_id (next_id (next_request_id client1)) (client_request (env_request env) op)"
    and inp: "0 \<le> fd" "quiet s" "stream_bytes s = frame sent @ rest"
    and out: "send_answers_ok out" "8216 \<le> send_progress out"
    and lock: "lock_answer ans = 0" and clock: "clock_ok (clock_realtime (begin_sys ans))"
    and watch: "request_uses_undo sent \<longrightarrow> fst (watch_process (begin_proc ans) broker (actor_pid actor)) = 0"
    and call: "store_exec (broker_call (begin_sys ans) actor op) (broker_store broker) = (result, store')" "result \<noteq> 1"
  shows "\<exists>broker' reply s'. serve_request ans broker t fd actor request response s out = Some (Ready, broker', reply, s') \<and>
    broker_store broker' = store' \<and> quiet s' \<and> stream_bytes s' = rest \<and>
    (\<forall>r rest. quiet r \<and> faultless r \<and> stream_bytes r = reply @ rest \<longrightarrow>
      (\<exists>effects. client_call (env\<lparr>env_recv := r\<rparr>) client op =
        Some (result, client1\<lparr>next_request_id := next_id (next_request_id client1)\<rparr>, effects, frame sent)))"
proof -
  obtain ws where ws: "broker_ok broker ws" using sys(1) by (auto simp: system_ok_def)
  then have inv: "store_inv (broker_store broker)" by (simp add: broker_ok_def)
  have actor: "0 < actor_pid actor" "in_i32 (actor_pid actor)" using sys by (auto simp: system_ok_def conn_ok_def)
  have stack: "length (payload (env_request env)) = 8192" using conn by (simp add: connected_def)
  note h = client_request_header [OF op, of "env_request env"]
  obtain st answer where run: "tgc_broker_dispatch (begin_sys ans) (broker_store broker) sent actor response = (0, st, answer)"
    using h(1-3,5) dispatch_accepts [OF actor(1), of sent "begin_sys ans" "broker_store broker" response] by (auto simp: sent with_id_def)
  have c: "requested_call (begin_sys ans) sent actor = Some (broker_call (begin_sys ans) actor op)"
    unfolding sent by (rule requested_call_of_request [OF op stack])
  note res = dispatch_result [OF c run, unfolded call fst_conv snd_conv]
  have known: "1 \<le> opcode (header sent)" "opcode (header sent) \<le> 16" "kind (header sent) = 1"
    using h(2,4) by (auto simp: sent with_id_def)
  have s: "sendable sent" unfolding sent by (rule client_request_sendable [OF op stack])
  have nb: "opcode (header sent) \<in> {9, 14} \<longrightarrow> hdr_result (header answer) \<noteq> 1" using res(1) call(2) by simp
  obtain broker' s' where "serve_request ans broker t fd actor request response s out = Some (Ready, broker', frame answer, s')"
    "broker_store broker' = store'" "quiet s'" "stream_bytes s' = rest"
    using serve_request_answers [OF ws actor bufs s known(3) inp out lock clock watch run nb known(1,2)] res(2) by blast
  moreover have "\<exists>effects. client_call (env\<lparr>env_recv := r\<rparr>) client op =
        Some (result, client1\<lparr>next_request_id := next_id (next_request_id client1)\<rparr>, effects, frame sent)"
    if "quiet r" "faultless r" "stream_bytes r = frame answer @ rest" for r rest
    using remote_call_is_local [OF connected_recv [OF conn, of r] op inv actor(2) clock bufs(2), where store' = st and response = answer and rest = rest] run that call
    by (simp add: sent)
  ultimately show ?thesis by blast
qed

definition open_broker :: tgc_broker where
  "open_broker = fresh_broker\<lparr>broker_store := example_store\<rparr>"

lemma open_broker_queue: "broker_ok open_broker []"
proof -
  have "broker_ok fresh_broker []" using create_ok fresh_create by blast
  then show ?thesis unfolding open_broker_def by (rule broker_ok_store) simp
qed

lemma open_broker_ok: "system_ok (open_broker, [7 \<mapsto> (example_actor, Ready)])"
  using open_broker_queue
  by (auto simp: system_ok_def conn_ok_def blocked_threads_def example_actor_def in_i32_def)

subsection \<open>Waiting\<close>

text \<open>C7. No wake-up is lost: whenever a step of the running broker - a request, a retry, the undo of a process
  that exited - changes the values of a semaphore set that existed before it or removes that set, it broadcasts
  to the waiting threads before it gives up the mutex.\<close>

theorem no_lost_wakeup:
  assumes "system_ok (broker, conns)" and "broker_step (broker, conns) (broker', conns')"
    and "sv_values (sv_of (broker_store broker)) semid \<noteq> None"
    and "sv_values (sv_of (broker_store broker')) semid \<noteq> sv_values (sv_of (broker_store broker)) semid"
  shows "state_changed broker < state_changed broker'"
  using step_woken [OF assms(1,2)] assms(3,4) by (auto simp: woken_def)

lemma open_broker_removes:
  obtains broker' reply s' where
    "serve_request example_begin open_broker 7 9 example_actor ping_request ping_request
      [Segment (frame (with_id 5 (remove_request ping_request 65537)))] (replicate 8216 (Accept 1)) = Some (Ready, broker', reply, s')"
    "broker_store broker' = snd (tgc_sem_store_remove example_store 65537)"
proof -
  let ?p = "with_id 5 (remove_request ping_request 65537)"
  have op: "client_op_ok (Semremove 65537)" by (simp add: in_i32_def)
  have stack: "length (payload ping_request) = 8192" by (simp add: ping_request_def)
  note h = client_request_header [OF op, of ping_request, simplified]
  have actor: "0 < actor_pid example_actor" by (simp add: example_actor_def)
  obtain st answer where run: "tgc_broker_dispatch example_sys example_store ?p example_actor ping_request = (0, st, answer)"
    using h dispatch_accepts [OF actor, of ?p example_sys example_store ping_request] by (auto simp: with_id_def)
  have "requested_call example_sys ?p example_actor = Some (Remove 65537)"
    using requested_call_of_request [OF op stack, of example_sys 5 example_actor] by simp
  from dispatch_result(2) [OF this run] have "st = snd (tgc_sem_store_remove example_store 65537)" by simp
  moreover have "\<not> request_uses_undo ?p" by (simp add: request_uses_undo_def request_defs)
  moreover have "sendable ?p" using client_request_sendable [OF op stack] by simp
  ultimately show ?thesis
    using serve_request_answers [OF open_broker_queue actor, of ping_request ping_request ?p 9 "[Segment (frame ?p)]" "[]" "replicate 8216 (Accept 1)" example_begin st answer 7]
      run that stack send_progress_replicate [of 8216] frame_not_Nil
    by (auto simp: example_begin_def open_broker_def request_defs)
qed

theorem no_lost_wakeup_witness:
  "\<exists>broker' conns'. broker_step (open_broker, [7 \<mapsto> (example_actor, Ready)]) (broker', conns') \<and>
     state_changed open_broker < state_changed broker'"
proof -
  obtain broker' reply s' where run: "serve_request example_begin open_broker 7 9 example_actor ping_request ping_request
      [Segment (frame (with_id 5 (remove_request ping_request 65537)))] (replicate 8216 (Accept 1)) = Some (Ready, broker', reply, s')"
    and st: "broker_store broker' = snd (tgc_sem_store_remove example_store 65537)" by (rule open_broker_removes)
  have step: "broker_step (open_broker, [7 \<mapsto> (example_actor, Ready)]) (broker', [7 \<mapsto> (example_actor, Ready), 7 \<mapsto> (example_actor, Ready)])"
    by (rule broker_step.request [OF _ _ _ _ _ run]) (simp_all add: ping_request_def example_begin_def example_round_def)
  have "sv_values (sv_of (broker_store broker')) 65537 = None"
    using st arg_cong [OF refine_remove [OF example_store_inv, of 65537], of snd] by (simp add: sv_remove_def example_values in_i32_def)
  moreover have "sv_values (sv_of (broker_store open_broker)) 65537 = Some [0, 0]"
    by (simp add: open_broker_def example_values)
  ultimately show ?thesis using no_lost_wakeup [OF open_broker_ok step, of 65537] step by auto
qed

lemma chain_unique: "chain broker p ws None \<Longrightarrow> chain broker p ws' None \<Longrightarrow> ws = ws'"
proof (induction ws arbitrary: p ws')
  case Nil
  then show ?case by (cases ws') auto
next
  case (Cons a ws)
  then show ?case by (cases ws') auto
qed

lemma queue_of_unique: "queue_of broker ws \<Longrightarrow> queue_of broker ws' \<Longrightarrow> ws = ws'"
  by (auto simp: queue_of_def intro: chain_unique)

lemma blocked_thread:
  assumes "system_ok (broker, conns)" "conns t = Some (actor, Blocked request response)" "queue_of broker ws"
  shows "broker_ok broker ws" "t \<in> set ws" "in_i32 (actor_pid actor)" "opcode (header request) \<in> {9, 14}"
    "length (payload response) = 8192" "map_option w_semid (cells broker t) = Some (tgc_wire_get_i32 (payload request) 0)"
proof -
  obtain ws' where "broker_ok broker ws'" "set ws' = blocked_threads conns" using assms(1) by (auto simp: system_ok_def)
  moreover from this have "ws' = ws" using assms(3) queue_of_unique by (auto simp: broker_ok_def)
  ultimately show "broker_ok broker ws" "t \<in> set ws" using assms(2) by (auto simp: blocked_threads_def)
  have "conn_ok broker t (actor, Blocked request response)" using assms(1,2) by (simp add: system_ok_def)
  then have "in_i32 (actor_pid actor) \<and> opcode (header request) \<in> {9, 14} \<and> length (payload response) = 8192 \<and>
      (\<exists>w. cells broker t = Some w \<and> w_semid w = tgc_wire_get_i32 (payload request) 0)"
    unfolding conn_ok_def fst_conv snd_conv by blast
  then show "in_i32 (actor_pid actor)" "opcode (header request) \<in> {9, 14}" "length (payload response) = 8192"
    "map_option w_semid (cells broker t) = Some (tgc_wire_get_i32 (payload request) 0)"
    by auto
qed

text \<open>A broker in which one thread waits, for an operation that can be performed now.\<close>

definition waiting_request :: tgc_protocol_packet where
  "waiting_request = with_id 5 (client_request ping_request (Semop 65537 [example_op 3 4096]))"

definition waiting_broker :: tgc_broker where
  "waiting_broker = enqueue_waiter (open_broker\<lparr>cells := (cells open_broker)(7 := Some (example_waiter 65537))\<rparr>) 7"

definition waiting_resume :: resume_answers where
  "waiting_resume = \<lparr>cond_answer = 0, wake_clock = Inr \<lparr>tv_sec = 6, tv_nsec = 0\<rparr>, wake_round = example_round\<rparr>"

lemma waiting_op_ok: "client_op_ok (Semop 65537 [example_op 3 4096])"
  by (simp add: in_i32_def)

lemma waiting_call:
  "requested_call example_sys waiting_request example_actor = Some (Tryop (Some 1000) 65537 [example_op 3 4096] 77)"
  using requested_call_of_request [OF waiting_op_ok, of ping_request example_sys 5 example_actor]
  by (simp add: waiting_request_def ping_request_def example_sys_def example_actor_def)

lemma waiting_header:
  "sendable waiting_request" "kind (header waiting_request) = 1" "hdr_result (header waiting_request) = 0" "opcode (header waiting_request) = 9"
  "tgc_wire_get_i32 (payload waiting_request) 0 = 65537"
proof -
  show "sendable waiting_request" unfolding waiting_request_def by (rule client_request_sendable [OF waiting_op_ok]) (simp add: ping_request_def)
  show opc: "opcode (header waiting_request) = 9" by (simp add: waiting_request_def request_defs Let_def)
  show "kind (header waiting_request) = 1" "hdr_result (header waiting_request) = 0"
    using client_request_header [OF waiting_op_ok, of ping_request] by (simp_all add: waiting_request_def with_id_def)
  show "tgc_wire_get_i32 (payload waiting_request) 0 = 65537"
    using waiting_call opc by (auto simp: requested_call_def Let_def split: if_splits)
qed

lemma waiting_cell: "cells waiting_broker = [7 \<mapsto> example_waiter 65537]" "broker_store waiting_broker = example_store"
  by (simp_all add: waiting_broker_def open_broker_def fresh_broker_def enqueue_waiter_def set_next_def Let_def example_waiter_def)

lemma waiting_queue: "broker_ok waiting_broker [7]"
  using enqueue_ok(1) [OF open_broker_queue, of 7 "example_waiter 65537"] by (simp add: waiting_broker_def)

lemma waiting_broker_ok: "system_ok (waiting_broker, [7 \<mapsto> (example_actor, Blocked waiting_request ping_request)])"
proof -
  have "conn_ok waiting_broker 7 (example_actor, Blocked waiting_request ping_request)"
    by (simp add: conn_ok_def waiting_header waiting_cell example_actor_def in_i32_def ping_request_def example_waiter_def)
  with waiting_queue show ?thesis by (auto simp: system_ok_def blocked_threads_def intro!: exI [of _ "[7]"])
qed

text \<open>C6. Waiters of a set are served in the order in which they came, and an abandoned or timed-out request has no
  effect. When a woken thread changes a semaphore, then no earlier waiter of the queue waits for
  the same set, its client has not closed the connection, and the change is that of its own request, to
  which it answers success; when its deadline has passed it answers \<open>EAGAIN\<close>, changes nothing and
  leaves the queue; the order of the other waiters never changes.\<close>

theorem waiters_served_in_order:
  assumes sys: "system_ok (broker, conns)" "conns t = Some (actor, Blocked request response)" "queue_of broker ws"
    and clock: "clock_ok (clock_realtime (round_sys (wake_round ans)))"
    and run: "dispatch_resume ans broker t request actor response = Some (out, broker', response')"
  shows "queue_of broker' (if out = Waits then ws else removeAll t ws) \<and>
    (sv_of (broker_store broker') \<noteq> sv_of (broker_store broker) \<longrightarrow>
       out = Returned 0 \<and> hdr_result (header response') = 0 \<and> \<not> peer_has_closed (peek_answer (wake_round ans)) \<and>
       (\<forall>x\<in>set (takeWhile (\<lambda>x. x \<noteq> t) ws). map_option w_semid (cells broker x) \<noteq> Some (tgc_wire_get_i32 (payload request) 0)) \<and>
       request_step (round_sys (wake_round ans), request, actor, response) (sv_of (broker_store broker)) (0, response') (sv_of (broker_store broker'))) \<and>
    (\<forall>w now. cells broker t = Some w \<and> w_has_deadline w \<and> cond_answer ans \<in> {0, errno_code ETIMEDOUT} \<and> wake_clock ans = Inr now \<and>
       0 \<le> compare_timespec now (w_deadline w) \<longrightarrow>
       out = Returned 0 \<and> hdr_result (header response') = err EAGAIN \<and> payload_length (header response') = 0 \<and>
       sv_of (broker_store broker') = sv_of (broker_store broker))"
proof -
  note b = blocked_thread [OF sys]
  note e = resume_effect [OF b(1,2,3) clock b(4) run]
  have "queue_of broker' (if out = Waits then ws else removeAll t ws)"
    using e by (auto simp: round_effect_def split: if_splits)
  moreover have "served (wake_round ans) broker ws t request actor response (out, broker', response')"
    if "sv_of (broker_store broker') \<noteq> sv_of (broker_store broker)"
    using e that by (simp add: round_effect_def)
  ultimately show ?thesis
    using resume_timeout [OF b(1,2) _ _ _ _ _ run] b(6) by (auto simp: served_def first_in_def)
qed

theorem waiters_served_in_order_witness:
  "\<exists>out broker' response'. dispatch_resume waiting_resume waiting_broker 7 waiting_request example_actor ping_request = Some (out, broker', response') \<and>
     queue_of broker' (if out = Waits then [7] else [])"
proof -
  have q: "queue_of waiting_broker [7]" using waiting_queue by (simp add: broker_ok_def)
  have clock: "clock_ok (clock_realtime (round_sys (wake_round waiting_resume)))" by (simp add: waiting_resume_def example_round_def)
  obtain out broker' response' where
    run: "dispatch_resume waiting_resume waiting_broker 7 waiting_request example_actor ping_request = Some (out, broker', response')"
    using resume_ok [OF waiting_queue _ _ example_sys_ok(2) clock, of 7 ping_request waiting_request]
    unfolding round_ok_def by (auto simp: ping_request_def)
  have "removeAll 7 [7] = ([] :: nat list)" by simp
  with waiters_served_in_order [OF waiting_broker_ok _ q clock run] run show ?thesis by auto
qed

text \<open>C9. A waiter whose turn has come and whose operation can be performed is not left waiting: when it is the first
  of its set in the queue, its client is still there and it has not timed out, then its next wake-up
  performs the operation, answers success, and takes it out of the queue.\<close>

theorem enabled_waiter_proceeds:
  assumes sys: "system_ok (broker, conns)" "conns t = Some (actor, Blocked request response)" "queue_of broker ws" "first_in (cells broker) t ws"
    and clock: "clock_ok (clock_realtime (round_sys (wake_round ans)))"
    and awake: "\<not> peer_has_closed (peek_answer (wake_round ans))" "cells broker t = Some w" "wait_wakeup (cond_answer ans) (wake_clock ans) w = (0, False)"
    and req: "sendable request" "kind (header request) = 1" "hdr_result (header request) = 0" "0 < actor_pid actor"
    and call: "requested_call (round_sys (wake_round ans)) request actor = Some (Tryop now semid ops pid)"
    and can: "sv_semop (sv_of (broker_store broker)) semid ops pid = (0, st)"
  shows "\<exists>broker' response'. dispatch_resume ans broker t request actor response = Some (Returned 0, broker', response') \<and>
    hdr_result (header response') = 0 \<and> sv_of (broker_store broker') = st \<and> queue_of broker' (removeAll t ws)"
proof -
  note b = blocked_thread [OF sys(1-3)]
  have inv: "store_inv (broker_store broker)" using b(1) by (simp add: broker_ok_def)
  have valid: "version (header request) = 1" "unat (payload_length (header request)) \<le> 8192"
    using req(1) valid_version sendable_payload by (auto simp: sendable_def)
  obtain store' p where d: "tgc_broker_dispatch (round_sys (wake_round ans)) (broker_store broker) request actor response = (0, store', p)"
    using dispatch_accepts [OF req(4) valid(1) req(2,3) valid(2)] by blast
  have "sv_step (Tryop now semid ops pid) (sv_of (broker_store broker)) (hdr_result (header p)) (sv_of store')"
    using dispatch_steps [OF inv b(3) clock d] call by (simp add: request_step_def)
  with can have p: "hdr_result (header p) = 0" "sv_of store' = st" by simp_all
  have "store_inv store'" using inv_dispatch [OF inv b(3) clock, of request response] d by simp
  then have ok: "broker_ok (broker\<lparr>broker_store := store'\<rparr>) ws" by (rule broker_ok_store [OF b(1)])
  obtain broker' where l: "leave_queue 0 (broker\<lparr>broker_store := store'\<rparr>) t p = Some (Returned 0, broker', p)"
    using leave_queue_ok [OF ok b(2)] by metis
  have "waiter_is_first_for_set broker t = Some True" using waiter_is_first_queue [OF sys(3)] sys(4) by simp
  then have "dispatch_resume ans broker t request actor response = Some (Returned 0, broker', p)"
    using awake d p l by (simp add: dispatch_resume_def wait_round_def)
  then show ?thesis using leave_queue_effect [OF ok b(2) l] p by simp
qed

theorem enabled_waiter_proceeds_witness:
  "\<exists>broker' response'. dispatch_resume waiting_resume waiting_broker 7 waiting_request example_actor ping_request = Some (Returned 0, broker', response') \<and>
     sv_values (sv_of (broker_store broker')) 65537 = Some [0, 3] \<and> queue_of broker' []"
proof -
  have q: "queue_of waiting_broker [7]" using waiting_queue by (simp add: broker_ok_def)
  have first: "first_in (cells waiting_broker) 7 [7]" by (simp add: first_in_def)
  have sys: "round_sys (wake_round waiting_resume) = example_sys" "\<not> peer_has_closed (peek_answer (wake_round waiting_resume))"
    "wait_wakeup (cond_answer waiting_resume) (wake_clock waiting_resume) (example_waiter 65537) = (0, False)"
    by (simp_all add: waiting_resume_def example_round_def peer_has_closed_def wait_wakeup_def example_waiter_def)
  show ?thesis
    using enabled_waiter_proceeds [OF waiting_broker_ok _ q first, of example_actor waiting_request ping_request waiting_resume "example_waiter 65537"]
      sys waiting_cell waiting_header waiting_call example_semop by (fastforce simp: example_actor_def)
qed

end
