(* ===== verification/Overlay.thy ===== *)
theory Overlay imports Service begin

text \<open>
  The overlay for the C library (\<open>tgcompat-glibc.c\<close>): the functions the patched \<open>semget\<close>, \<open>semctl\<close>, \<open>semop\<close> and
  \<open>semtimedop\<close> call. A thread has one client, set up at its first call; the functions check their
  arguments, call the client library, and turn its result into a return value and \<open>errno\<close>.
  The names drop the prefix \<open>__tgcompat_\<close>. Null pointers are \<open>None\<close>.
\<close>

unbundle bit_operations_syntax

subsection \<open>The client of a thread\<close>

text \<open>The thread-local variables, the state of \<open>client_cleanup_once\<close> and its error, and the thread's \<open>errno\<close>.\<close>

record glibc_thread =
  thread_client :: tgc_client
  thread_client_initialized :: bool
  client_cleanup_once_done :: bool
  client_cleanup_error :: int
  thread_errno :: int

text \<open>What \<open>secure_getenv\<close> and the thread library answer while a thread sets up its client; and what the system calls of the client
  library leave in \<open>errno\<close>, given its value before. They may change it although the call of the client succeeds: a \<open>send\<close> that is
  interrupted and made again leaves \<open>EINTR\<close>, an ignored failure of \<open>close\<close> its error.\<close>

record setup_answers =
  socket_env :: "string option"
  once_answer :: int
  key_create_answer :: int
  setspecific_answer :: int
  errno_left :: "int \<Rightarrow> int"

definition set_errno :: "int \<Rightarrow> glibc_thread \<Rightarrow> glibc_thread" where
  "set_errno v th = th\<lparr>thread_errno := v\<rparr>"

text \<open>The destructor of the key, which runs when a thread ends.\<close>

definition close_thread_client :: "glibc_thread \<Rightarrow> glibc_thread \<times> fs_effect list" where
  "close_thread_client th =
     (let (client, effects) = tgc_client_close (thread_client th)
      in (th\<lparr>thread_client := client, thread_client_initialized := False\<rparr>, effects))"

definition create_client_cleanup_key :: "setup_answers \<Rightarrow> glibc_thread \<Rightarrow> glibc_thread" where
  "create_client_cleanup_key ans th = th\<lparr>client_cleanup_error := key_create_answer ans\<rparr>"

definition run_once :: "setup_answers \<Rightarrow> glibc_thread \<Rightarrow> int \<times> glibc_thread" where
  "run_once ans th =
     (once_answer ans,
      if once_answer ans = 0 \<and> \<not> client_cleanup_once_done th
      then (create_client_cleanup_key ans th)\<lparr>client_cleanup_once_done := True\<rparr> else th)"

text \<open>Whether there is a client; it is the thread's variable.\<close>

definition client_for_thread :: "setup_answers \<Rightarrow> glibc_thread \<Rightarrow> bool \<times> glibc_thread \<times> fs_effect list" where
  "client_for_thread ans th =
     (if thread_client_initialized th then (True, th, [])
      else
        case socket_env ans of
          None \<Rightarrow> (False, set_errno (errno_code ENOSYS) th, [])
        | Some socket_path \<Rightarrow>
            if socket_path = [] then (False, set_errno (errno_code ENOSYS) th, [])
            else
              let (result, th) = run_once ans th;
                  result = (if result = 0 then client_cleanup_error th else result)
              in if result \<noteq> 0 then (False, set_errno result th, [])
                 else
                   let (result, client) = tgc_client_init (thread_client th) socket_path;
                       th = th\<lparr>thread_client := client\<rparr>
                   in if result \<noteq> 0 then (False, set_errno (- result) th, [])
                      else
                        let result = setspecific_answer ans in
                        if result \<noteq> 0 then
                          (let (client, effects) = tgc_client_close (thread_client th)
                           in (False, set_errno result (th\<lparr>thread_client := client\<rparr>), effects))
                        else (True, th\<lparr>thread_client_initialized := True\<rparr>, []))"

definition libc_result :: "int \<Rightarrow> glibc_thread \<Rightarrow> int \<times> glibc_thread" where
  "libc_result result th = (if result < 0 then (-1, set_errno (- result) th) else (result, th))"

subsection \<open>The functions\<close>

text \<open>A run of a function: its result with what it writes for the caller, the thread, the effects, the bytes sent.\<close>

type_synonym 'a glibc_run = "('a \<times> glibc_thread \<times> fs_effect list \<times> u8 list) option"

definition glibc_fail :: "errno \<Rightarrow> 'a \<Rightarrow> glibc_thread \<Rightarrow> (int \<times> 'a) glibc_run" where
  "glibc_fail e x th = Some ((-1, x), set_errno (errno_code e) th, [], [])"

text \<open>The last lines of every function: the thread's client, the call, and the result in the form of the C library.\<close>

definition finish_call :: "setup_answers \<Rightarrow> glibc_thread \<Rightarrow> fs_effect list \<Rightarrow> (int \<times> 'a) client_run \<Rightarrow> (int \<times> 'a) glibc_run" where
  "finish_call ans th before run =
     map_option (\<lambda>((result, x), client, effects, sent).
       let (r, th) = libc_result result (th\<lparr>thread_client := client, thread_errno := errno_left ans (thread_errno th)\<rparr>)
       in ((r, x), th, before @ effects, sent)) run"

definition with_client ::
  "setup_answers \<Rightarrow> glibc_thread \<Rightarrow> 'a \<Rightarrow> (tgc_client \<Rightarrow> (int \<times> 'a) client_run) \<Rightarrow> (int \<times> 'a) glibc_run" where
  "with_client ans th x call =
     (let (ok, th, effects) = client_for_thread ans th in
      if \<not> ok then Some ((-1, x), th, effects, [])
      else finish_call ans th effects (call (thread_client th)))"

definition no_output :: "int client_run \<Rightarrow> (int \<times> unit) client_run" where
  "no_output = map_option (\<lambda>(result, rest). ((result, ()), rest))"

definition glibc_semget :: "setup_answers \<Rightarrow> client_env \<Rightarrow> glibc_thread \<Rightarrow> int \<Rightarrow> int \<Rightarrow> int \<Rightarrow> (int \<times> unit) glibc_run" where
  "glibc_semget ans env th key n semflg =
     with_client ans th () (\<lambda>client. no_output (tgc_client_semget env client key n semflg))"

definition glibc_remove :: "setup_answers \<Rightarrow> client_env \<Rightarrow> glibc_thread \<Rightarrow> int \<Rightarrow> (int \<times> unit) glibc_run" where
  "glibc_remove ans env th semid = with_client ans th () (\<lambda>client. no_output (tgc_client_remove env client semid))"

definition glibc_semnum_call ::
  "setup_answers \<Rightarrow> glibc_thread \<Rightarrow> int \<Rightarrow> int \<Rightarrow> (tgc_client \<Rightarrow> int \<Rightarrow> nat \<Rightarrow> int client_run) \<Rightarrow> (int \<times> unit) glibc_run" where
  "glibc_semnum_call ans th semid semnum operation =
     (if semnum < 0 then glibc_fail EINVAL () th
      else with_client ans th () (\<lambda>client. no_output (operation client semid (nat semnum))))"

definition glibc_getval :: "setup_answers \<Rightarrow> client_env \<Rightarrow> glibc_thread \<Rightarrow> int \<Rightarrow> int \<Rightarrow> (int \<times> unit) glibc_run" where
  "glibc_getval ans env th semid semnum = glibc_semnum_call ans th semid semnum (tgc_client_getval env)"

definition glibc_setval :: "setup_answers \<Rightarrow> client_env \<Rightarrow> glibc_thread \<Rightarrow> int \<Rightarrow> int \<Rightarrow> int \<Rightarrow> (int \<times> unit) glibc_run" where
  "glibc_setval ans env th semid semnum v =
     (if semnum < 0 \<or> v < 0 then glibc_fail EINVAL () th
      else with_client ans th () (\<lambda>client. no_output (tgc_client_setval env client semid (nat semnum) (word_of_int v))))"

definition glibc_getpid :: "setup_answers \<Rightarrow> client_env \<Rightarrow> glibc_thread \<Rightarrow> int \<Rightarrow> int \<Rightarrow> (int \<times> unit) glibc_run" where
  "glibc_getpid ans env th semid semnum = glibc_semnum_call ans th semid semnum (tgc_client_getpid env)"

definition glibc_getncnt :: "setup_answers \<Rightarrow> client_env \<Rightarrow> glibc_thread \<Rightarrow> int \<Rightarrow> int \<Rightarrow> (int \<times> unit) glibc_run" where
  "glibc_getncnt ans env th semid semnum = glibc_semnum_call ans th semid semnum (tgc_client_getncnt env)"

definition glibc_getzcnt :: "setup_answers \<Rightarrow> client_env \<Rightarrow> glibc_thread \<Rightarrow> int \<Rightarrow> int \<Rightarrow> (int \<times> unit) glibc_run" where
  "glibc_getzcnt ans env th semid semnum = glibc_semnum_call ans th semid semnum (tgc_client_getzcnt env)"

text \<open>The result and the count, which is written only on success; \<open>metadata\<close> is the local structure.\<close>

definition semaphore_count :: "client_env \<Rightarrow> tgc_client \<Rightarrow> int \<Rightarrow> tgc_sem_metadata \<Rightarrow> nat \<Rightarrow> (int \<times> nat) client_run" where
  "semaphore_count env client semid metadata count =
     map_option (\<lambda>((result, metadata), rest).
       if result \<noteq> 0 then ((result, count), rest)
       else if md_nsems metadata = 0 \<or> 512 < md_nsems metadata then ((err EPROTO, count), rest)
       else ((0, unat (md_nsems metadata)), rest))
     (tgc_client_stat env client semid metadata)"

text \<open>The two exchanges of \<open>getall\<close> and \<open>setall\<close> happen one after the other, in the environments \<open>env\<close> and \<open>env'\<close>;
  a pointer to the caller's array is the array, \<open>None\<close> the null pointer.\<close>

definition counted_call ::
  "client_env \<Rightarrow> tgc_client \<Rightarrow> int \<Rightarrow> tgc_sem_metadata \<Rightarrow> 'a \<Rightarrow> (tgc_client \<Rightarrow> nat \<Rightarrow> (int \<times> 'a) client_run) \<Rightarrow> (int \<times> 'a) client_run" where
  "counted_call env client semid metadata x call =
     (case semaphore_count env client semid metadata 0 of
        None \<Rightarrow> None
      | Some ((result, count), client, effects, sent) \<Rightarrow>
          if result \<noteq> 0 then Some ((result, x), client, effects, sent)
          else map_option (\<lambda>(r, client, effects', sent'). (r, client, effects @ effects', sent @ sent')) (call client count))"

definition glibc_getall ::
  "setup_answers \<Rightarrow> client_env \<Rightarrow> client_env \<Rightarrow> tgc_sem_metadata \<Rightarrow> glibc_thread \<Rightarrow> int \<Rightarrow> u16 list option \<Rightarrow> (int \<times> u16 list option) glibc_run" where
  "glibc_getall ans env env' metadata th semid array =
     (case array of
        None \<Rightarrow> glibc_fail EFAULT None th
      | Some vals \<Rightarrow>
          with_client ans th array (\<lambda>client. counted_call env client semid metadata array
            (\<lambda>client count. map_option (\<lambda>((r, vals), rest). ((r, Some vals), rest)) (tgc_client_getall env' client semid vals count))))"

definition glibc_setall ::
  "setup_answers \<Rightarrow> client_env \<Rightarrow> client_env \<Rightarrow> tgc_sem_metadata \<Rightarrow> glibc_thread \<Rightarrow> int \<Rightarrow> u16 list option \<Rightarrow> (int \<times> unit) glibc_run" where
  "glibc_setall ans env env' metadata th semid array =
     (case array of
        None \<Rightarrow> glibc_fail EFAULT () th
      | Some vals \<Rightarrow>
          with_client ans th () (\<lambda>client. counted_call env client semid metadata ()
            (\<lambda>client count. no_output (tgc_client_setall env' client semid (take count vals)))))"

definition glibc_stat ::
  "setup_answers \<Rightarrow> client_env \<Rightarrow> glibc_thread \<Rightarrow> int \<Rightarrow> tgc_sem_metadata option \<Rightarrow> (int \<times> tgc_sem_metadata option) glibc_run" where
  "glibc_stat ans env th semid pointer =
     (case pointer of
        None \<Rightarrow> glibc_fail EFAULT None th
      | Some metadata \<Rightarrow> with_client ans th pointer
          (\<lambda>client. map_option (\<lambda>((r, md), rest). ((r, Some md), rest)) (tgc_client_stat env client semid metadata)))"

definition glibc_stat_index ::
  "setup_answers \<Rightarrow> client_env \<Rightarrow> glibc_thread \<Rightarrow> int \<Rightarrow> tgc_sem_metadata option \<Rightarrow> (int \<times> tgc_sem_metadata option) glibc_run" where
  "glibc_stat_index ans env th index pointer =
     (if index < 0 \<or> pointer = None then glibc_fail (if index < 0 then EINVAL else EFAULT) pointer th
      else with_client ans th pointer
        (\<lambda>client. map_option (\<lambda>((r, md), rest). ((r, Some md), rest)) (tgc_client_stat_index env client (nat index) (the pointer))))"

definition glibc_set_metadata ::
  "setup_answers \<Rightarrow> client_env \<Rightarrow> glibc_thread \<Rightarrow> int \<Rightarrow> u32 \<Rightarrow> u32 \<Rightarrow> u32 \<Rightarrow> (int \<times> unit) glibc_run" where
  "glibc_set_metadata ans env th semid uid gid mode =
     with_client ans th () (\<lambda>client. no_output (tgc_client_set_metadata env client semid uid gid mode))"

definition glibc_info ::
  "setup_answers \<Rightarrow> client_env \<Rightarrow> glibc_thread \<Rightarrow> int \<Rightarrow> tgc_sem_info option \<Rightarrow> (int \<times> tgc_sem_info option) glibc_run" where
  "glibc_info ans env th dynamic pointer =
     (case pointer of
        None \<Rightarrow> glibc_fail EFAULT None th
      | Some info \<Rightarrow> with_client ans th pointer
          (\<lambda>client. map_option (\<lambda>((r, i), rest). ((r, Some i), rest)) (tgc_client_info env client dynamic info)))"

text \<open>\<open>struct sembuf\<close> has the fields of \<open>tgc_sem_op\<close>; the loop that converts the array copies them. The product
  of the seconds is formed in 64 bits.\<close>

definition convert_operations :: "tgc_sem_op list \<Rightarrow> nat \<Rightarrow> tgc_sem_op list" where
  "convert_operations operations count =
     map (\<lambda>i. \<lparr>sem_num = sem_num (operations ! i), sem_op = sem_op (operations ! i), sem_flg = sem_flg (operations ! i)\<rparr>) [0..<count]"

definition glibc_semtimedop ::
  "setup_answers \<Rightarrow> client_env \<Rightarrow> glibc_thread \<Rightarrow> int \<Rightarrow> tgc_sem_op list option \<Rightarrow> nat \<Rightarrow> bool \<Rightarrow> int \<Rightarrow> int \<Rightarrow> (int \<times> unit) glibc_run" where
  "glibc_semtimedop ans env th semid operations count has_timeout timeout_seconds timeout_nanoseconds =
     (if operations = None \<or> count = 0 \<or> 512 < count \<or>
         has_timeout \<and> (timeout_seconds < 0 \<or> timeout_nanoseconds < 0 \<or> 1000000000 \<le> timeout_nanoseconds)
      then glibc_fail EINVAL () th
      else if has_timeout \<and> (9223372036854775807 - timeout_nanoseconds) div 1000000000 < timeout_seconds
      then glibc_fail EOVERFLOW () th
      else
        let converted = convert_operations (the operations) count
        in with_client ans th () (\<lambda>client. no_output
             (if has_timeout
              then tgc_client_semtimedop env client semid converted
                     (sint (word_of_int (timeout_seconds * 1000000000 + timeout_nanoseconds) :: u64))
              else tgc_client_semop env client semid converted)))"

subsection \<open>The convention of the C library\<close>

text \<open>The thread library reports errors as positive numbers.\<close>

definition setup_ok :: "setup_answers \<Rightarrow> glibc_thread \<Rightarrow> bool" where
  "setup_ok ans th \<longleftrightarrow> 0 \<le> once_answer ans \<and> 0 \<le> key_create_answer ans \<and> 0 \<le> setspecific_answer ans \<and> 0 \<le> client_cleanup_error th"

text \<open>A function returns -1 and sets \<open>errno\<close> to an error number, or returns a result that is not negative and does not write to
  \<open>errno\<close> itself: it has the value the system calls below have left.\<close>

definition conventional :: "setup_answers \<Rightarrow> glibc_thread \<Rightarrow> (int \<times> 'a) glibc_run \<Rightarrow> bool" where
  "conventional ans th run \<longleftrightarrow> (\<forall>r x th' effects sent. run = Some ((r, x), th', effects, sent) \<longrightarrow>
     (r = -1 \<and> 0 < thread_errno th' \<or> 0 \<le> r \<and> thread_errno th' = errno_left ans (thread_errno th)))"

lemma errno_code_pos [simp]: "0 < errno_code e"
  by (cases e) simp_all

lemma conventional_fail [simp]: "conventional ans th (glibc_fail e x th)"
  by (simp add: conventional_def glibc_fail_def set_errno_def)

lemma client_init_result: "tgc_client_init client path = (r, client') \<Longrightarrow> r \<le> 0"
  by (auto simp: tgc_client_init_def Let_def err_def split: if_splits)

lemma client_for_thread_errno:
  assumes "setup_ok ans th" "client_for_thread ans th = (ok, th', effects)"
  shows "if ok then thread_errno th' = thread_errno th \<and> thread_client_initialized th' else 0 < thread_errno th'"
  using assms client_init_result [of "thread_client t" p r c for t p r c]
  by (fastforce simp: client_for_thread_def setup_ok_def run_once_def create_client_cleanup_key_def set_errno_def Let_def order_less_le
      split: if_splits option.splits prod.splits)

lemma libc_result_convention:
  "libc_result result th = (r, th') \<Longrightarrow> r = -1 \<and> 0 < thread_errno th' \<or> 0 \<le> r \<and> thread_errno th' = thread_errno th"
  by (cases "result < 0") (auto simp: libc_result_def set_errno_def)

lemma conventional_finish:
  assumes "thread_errno th1 = thread_errno th"
  shows "conventional ans th (finish_call ans th1 effects run)"
proof (cases run)
  case (Some result)
  obtain r x client e s where res: "result = ((r, x), client, e, s)" by (cases result) auto
  let ?th = "th1\<lparr>thread_client := client, thread_errno := errno_left ans (thread_errno th1)\<rparr>"
  obtain r' th' where l: "libc_result r ?th = (r', th')" by (cases "libc_result r ?th")
  have "finish_call ans th1 effects run = Some ((r', x), th', effects @ e, s)" by (simp add: finish_call_def Some res l)
  then show ?thesis using libc_result_convention [OF l] assms by (simp add: conventional_def)
qed (simp add: conventional_def finish_call_def)

lemma conventional_with_client:
  assumes "setup_ok ans th"
  shows "conventional ans th (with_client ans th x call)"
proof -
  obtain ok th1 effects where c: "client_for_thread ans th = (ok, th1, effects)" by (cases "client_for_thread ans th")
  note e = client_for_thread_errno [OF assms c]
  show ?thesis
  proof (cases ok)
    case True
    with e show ?thesis by (simp add: with_client_def c conventional_finish)
  next
    case False
    with e show ?thesis by (simp add: with_client_def c conventional_def)
  qed
qed

lemma conventional_if: "(b \<Longrightarrow> conventional ans th f) \<Longrightarrow> (\<not> b \<Longrightarrow> conventional ans th g) \<Longrightarrow> conventional ans th (if b then f else g)"
  by simp

lemma conventional_option:
  "conventional ans th f \<Longrightarrow> (\<And>y. conventional ans th (g y)) \<Longrightarrow> conventional ans th (case x of None \<Rightarrow> f | Some y \<Rightarrow> g y)"
  by (simp split: option.splits)

lemmas glibc_functions = glibc_semget_def glibc_remove_def glibc_semnum_call_def glibc_getval_def glibc_setval_def glibc_getpid_def
  glibc_getncnt_def glibc_getzcnt_def glibc_getall_def glibc_setall_def glibc_stat_def glibc_stat_index_def glibc_set_metadata_def
  glibc_info_def glibc_semtimedop_def


definition example_thread :: glibc_thread where
  "example_thread = \<lparr>thread_client = \<lparr>socket_fd = 0, connection_pid = 0, next_request_id = 0, client_path = []\<rparr>,
     thread_client_initialized = False, client_cleanup_once_done = False, client_cleanup_error = 0, thread_errno = 0\<rparr>"

definition example_setup :: setup_answers where
  "example_setup = \<lparr>socket_env = Some ''/run/tgc/sock'', once_answer = 0, key_create_answer = 0, setspecific_answer = 0, errno_left = (\<lambda>e. e)\<rparr>"

definition glibc_thread_example :: glibc_thread where
  "glibc_thread_example = example_thread\<lparr>thread_client := example_client, thread_client_initialized := True\<rparr>"

text \<open>A removal that succeeds although a \<open>send\<close> was interrupted on the way, so that \<open>errno\<close> is \<open>EINTR\<close> afterwards; and a call with
  a bad argument.\<close>

definition removed_response :: tgc_protocol_packet where
  "removed_response = ping_request\<lparr>header := \<lparr>version = 1, kind = 2, opcode = 3, request_id = 5, payload_length = 0, hdr_result = 0\<rparr>\<rparr>"

definition interrupted_env :: client_env where
  "interrupted_env = (example_env removed_response)\<lparr>env_send := Send_fault (errno_code EINTR) # replicate 8216 (Accept 1)\<rparr>"

lemma interrupted_remove: "\<exists>client effects sent. tgc_client_remove interrupted_env example_client 65537 = Some (0, client, effects, sent)"
proof -
  have "connected interrupted_env example_client example_client"
    using send_progress_replicate [of 8216]
    by (simp add: connected_def interrupted_env_def example_env_def example_client_def ensure_connection_def ping_request_def)
  moreover have "quiet (env_recv interrupted_env)" "stream_bytes (env_recv interrupted_env) = frame removed_response @ []"
    using frame_not_Nil by (simp_all add: interrupted_env_def example_env_def)
  moreover have "next_id (next_request_id example_client) = 5" by (simp add: next_id_def example_client_def)
  moreover have "sendable (with_id 5 (remove_request ping_request 65537))"
    by (simp add: sendable_def packet_ok_def header_is_valid_def request_defs ping_request_def in_i32_def)
  moreover have "matches (with_id 5 (remove_request ping_request 65537)) removed_response"
    by (simp add: matches_def sendable_def packet_ok_def header_is_valid_def removed_response_def request_defs ping_request_def in_i32_def)
  moreover have "env_request interrupted_env = ping_request" by (simp add: interrupted_env_def example_env_def)
  ultimately show ?thesis
    using scalar_answered(1) [of interrupted_env example_client example_client "remove_request ping_request 65537" removed_response "[]"]
    by (auto simp: tgc_client_remove_def removed_response_def)
qed


text \<open>A timeout is never distorted: \<open>semtimedop\<close> refuses with \<open>EOVERFLOW\<close>, without contacting the broker, exactly
  those timeouts whose number of nanoseconds is not a signed 64-bit integer, and passes every other one on
  as exactly that number; a malformed one gives \<open>EINVAL\<close>.\<close>

lemma glibc_timeout_exact:
  assumes "0 < count" "count \<le> 512"
  shows "glibc_semtimedop ans env th semid (Some ops) count True seconds nanoseconds =
    (if seconds < 0 \<or> nanoseconds < 0 \<or> 1000000000 \<le> nanoseconds then glibc_fail EINVAL () th
     else if \<not> in_i64 (seconds * 1000000000 + nanoseconds) then glibc_fail EOVERFLOW () th
     else with_client ans th () (\<lambda>client. no_output
       (tgc_client_semtimedop env client semid (convert_operations ops count) (seconds * 1000000000 + nanoseconds))))"
proof (cases "seconds < 0 \<or> nanoseconds < 0 \<or> 1000000000 \<le> nanoseconds")
  case False
  have limit: "(9223372036854775807 - nanoseconds) div 1000000000 < seconds \<longleftrightarrow> \<not> in_i64 (seconds * 1000000000 + nanoseconds)"
    using False by (simp add: in_i64_def div_less_iff_less_mult) linarith
  have "sint (word_of_int (seconds * 1000000000 + nanoseconds) :: u64) = seconds * 1000000000 + nanoseconds"
    if "in_i64 (seconds * 1000000000 + nanoseconds)"
    by (rule sint_word_of_int_64 [OF that])
  with False limit assms show ?thesis by (simp add: glibc_semtimedop_def)
qed (use assms in \<open>auto simp: glibc_semtimedop_def\<close>)

subsection \<open>From the C library to the store\<close>

text \<open>The functions of the overlay that need one exchange, on the arguments the C types can express.\<close>

fun glibc_op_ok :: "client_op \<Rightarrow> bool" where
  "glibc_op_ok (Semsetval semid semnum v) \<longleftrightarrow> int semnum \<le> 2147483647 \<and> uint v \<le> 2147483647"
| "glibc_op_ok (Semsetall semid vals) \<longleftrightarrow> False"
| "glibc_op_ok op \<longleftrightarrow> True"

fun glibc_call :: "setup_answers \<Rightarrow> client_env \<Rightarrow> glibc_thread \<Rightarrow> client_op \<Rightarrow> (int \<times> unit) glibc_run" where
  "glibc_call ans env th (Semget key n flags) = glibc_semget ans env th key n flags"
| "glibc_call ans env th (Semremove semid) = glibc_remove ans env th semid"
| "glibc_call ans env th (Semsetval semid semnum v) = glibc_setval ans env th semid (int semnum) (uint v)"
| "glibc_call ans env th (Semsetall semid vals) = None"
| "glibc_call ans env th (Semsetmeta semid uid gid mode) = glibc_set_metadata ans env th semid uid gid mode"
| "glibc_call ans env th (Semop semid ops) = glibc_semtimedop ans env th semid (Some ops) (length ops) False 0 0"
| "glibc_call ans env th (Semtimedop semid ops timeout) =
     glibc_semtimedop ans env th semid (Some ops) (length ops) True (timeout div 1000000000) (timeout mod 1000000000)"

lemma convert_all [simp]: "convert_operations ops (length ops) = ops"
  by (rule nth_equalityI) (simp_all add: convert_operations_def)

lemma glibc_call_client:
  assumes "client_op_ok op" "glibc_op_ok op"
  shows "glibc_call ans env th op = with_client ans th () (\<lambda>client. no_output (client_call env client op))"
proof (cases op)
  case (Semtimedop semid ops timeout)
  have ok: "0 \<le> timeout" "in_i64 timeout" "0 < length ops" "length ops \<le> 512" using assms(1) Semtimedop by auto
  have "\<not> (9223372036854775807 - timeout mod 1000000000) div 1000000000 < timeout div 1000000000"
  proof -
    have "(timeout - timeout mod 1000000000) div 1000000000 \<le> (9223372036854775807 - timeout mod 1000000000) div 1000000000"
      using ok(2) by (intro zdiv_mono1) (simp_all add: in_i64_def)
    then show ?thesis by (simp add: minus_mod_eq_mult_div)
  qed
  moreover have "sint (word_of_int timeout :: u64) = timeout" by (rule sint_word_of_int_64 [OF ok(2)])
  moreover have "0 \<le> timeout div 1000000000" "\<not> 1000000000 \<le> timeout mod 1000000000" using ok(1) by (simp_all add: pos_imp_zdiv_nonneg_iff)
  ultimately show ?thesis using ok Semtimedop by (simp add: glibc_semtimedop_def not_le [symmetric])
qed (use assms in \<open>auto simp: glibc_functions not_le [symmetric]\<close>)

text \<open>C1. A semaphore call of a program is the call on the broker's store. A thread calls a function of the overlay (\<open>semget\<close>, removal,
  \<open>SETVAL\<close>, \<open>IPC_SET\<close>, \<open>semop\<close>, \<open>semtimedop\<close>); the bytes its client writes reach the broker's thread of that connection in any
  segmentation, the thread dispatches the request under the mutex and writes the response, and its bytes reach the client in any
  segmentation. Then the broker's store is the one the call makes of it, the thread is ready for the next request, and the function
  returns the result of that call, or -1 with \<open>errno\<close> set to its error; when it succeeds, \<open>errno\<close> is what the system calls of
  the client have left there. (An operation that has to wait is queued instead.)\<close>

theorem glibc_call_is_local:
  assumes sys: "system_ok (broker, conns)" "conns t = Some (actor, Ready)"
    and thread: "client_for_thread prep th = (True, th1, effects1)"
    and conn: "connected env (thread_client th1) client1" and op: "client_op_ok op" "glibc_op_ok op"
    and bufs: "length (payload request) = 8192" "length (payload response) = 8192"
    and sent: "sent = with_id (next_id (next_request_id client1)) (client_request (env_request env) op)"
    and inp: "0 \<le> fd" "quiet s" "stream_bytes s = frame sent @ rest"
    and out: "send_answers_ok out" "8216 \<le> send_progress out"
    and lock: "lock_answer ans = 0" and clock: "clock_ok (clock_realtime (begin_sys ans))"
    and watch: "request_uses_undo sent \<longrightarrow> fst (watch_process (begin_proc ans) broker (actor_pid actor)) = 0"
    and call: "store_exec (broker_call (begin_sys ans) actor op) (broker_store broker) = (result, store')" "result \<noteq> 1"
  shows "\<exists>broker' reply s'. serve_request ans broker t fd actor request response s out = Some (Ready, broker', reply, s') \<and>
    broker_store broker' = store' \<and> quiet s' \<and> stream_bytes s' = rest \<and>
    (\<forall>r rest. quiet r \<and> faultless r \<and> stream_bytes r = reply @ rest \<longrightarrow>
      (\<exists>th' effects. glibc_call prep (env\<lparr>env_recv := r\<rparr>) th op = Some ((if result < 0 then -1 else result, ()), th', effects, frame sent) \<and>
        thread_errno th' = (if result < 0 then - result else errno_left prep (thread_errno th1))))"
proof -
  from service_call_is_local [OF sys conn op(1) bufs sent inp out lock clock watch call] obtain broker' reply s'
    where run: "serve_request ans broker t fd actor request response s out = Some (Ready, broker', reply, s')"
      "broker_store broker' = store'" "quiet s'" "stream_bytes s' = rest"
    and reply: "\<And>r rest. quiet r \<Longrightarrow> faultless r \<Longrightarrow> stream_bytes r = reply @ rest \<Longrightarrow>
      \<exists>effects. client_call (env\<lparr>env_recv := r\<rparr>) (thread_client th1) op =
        Some (result, client1\<lparr>next_request_id := next_id (next_request_id client1)\<rparr>, effects, frame sent)" by blast
  have "\<exists>th' effects. glibc_call prep (env\<lparr>env_recv := r\<rparr>) th op = Some ((if result < 0 then -1 else result, ()), th', effects, frame sent) \<and>
        thread_errno th' = (if result < 0 then - result else errno_left prep (thread_errno th1))"
    if "quiet r" "faultless r" "stream_bytes r = reply @ rest" for r rest
  proof -
    let ?th = "th1\<lparr>thread_client := client1\<lparr>next_request_id := next_id (next_request_id client1)\<rparr>, thread_errno := errno_left prep (thread_errno th1)\<rparr>"
    from reply [OF that] obtain effects where c: "client_call (env\<lparr>env_recv := r\<rparr>) (thread_client th1) op =
        Some (result, client1\<lparr>next_request_id := next_id (next_request_id client1)\<rparr>, effects, frame sent)" by blast
    have "glibc_call prep (env\<lparr>env_recv := r\<rparr>) th op =
        Some ((if result < 0 then -1 else result, ()), if result < 0 then set_errno (- result) ?th else ?th, effects1 @ effects, frame sent)"
      using glibc_call_client [OF op, of prep "env\<lparr>env_recv := r\<rparr>" th] c
      by (simp add: with_client_def thread finish_call_def no_output_def libc_result_def)
    then show ?thesis by (simp add: set_errno_def)
  qed
  with run show ?thesis by blast
qed

theorem glibc_call_is_local_witness:
  "\<exists>broker' reply s'. serve_request example_begin open_broker 7 9 example_actor ping_request ping_request
      [Segment (frame (with_id 5 (remove_request ping_request 65537)))] (replicate 8216 (Accept 1)) = Some (Ready, broker', reply, s') \<and>
    broker_store broker' = snd (tgc_sem_store_remove example_store 65537)"
proof -
  have id: "next_id (next_request_id example_client) = 5" by (simp add: next_id_def example_client_def)
  have undo: "\<not> request_uses_undo (with_id 5 (remove_request ping_request 65537))"
    by (simp add: request_uses_undo_def request_defs)
  have remove: "tgc_sem_store_remove example_store 65537 = (0, snd (tgc_sem_store_remove example_store 65537))"
    using example_remove_ok by (metis prod.collapse)
  have thread: "client_for_thread example_setup glibc_thread_example = (True, glibc_thread_example, [])"
    "thread_client glibc_thread_example = example_client"
    by (simp_all add: client_for_thread_def glibc_thread_example_def)
  show ?thesis
    using glibc_call_is_local [OF open_broker_ok _ thread(1), of 7 example_actor "example_env ping_request" example_client "Semremove 65537"
        ping_request ping_request _ 9 "[Segment (frame (with_id 5 (remove_request ping_request 65537)))]" "[]" "replicate 8216 (Accept 1)"
        example_begin 0 "snd (tgc_sem_store_remove example_store 65537)"]
      undo id remove thread(2) example_connected send_progress_replicate [of 8216] frame_not_Nil
    by (auto simp: example_env_def ping_request_def in_i32_def example_begin_def open_broker_def)
qed

end
