(* ===== verification/Mprotect.thy ===== *)
theory Mprotect imports TgcPrelude "HOL-Library.Monad_Syntax" begin

text \<open>
  The \<open>mprotect\<close> shim (\<open>mprotect_shim.c\<close>): when the kernel refuses to make a range executable, the range is
  replaced by an anonymous copy. The kernel is a parameter; \<open>kernel_documented\<close> is what the manual pages
  of \<open>mprotect\<close>, \<open>mmap\<close> and \<open>munmap\<close> say of the three calls. A \<open>long\<close> or a pointer is a 64-bit word, and a protection
  is the word it is passed as. A memory access that the protections do not allow is a fault.
  The branch that forces a first failure is compiled for tests only and is not part of the model.
\<close>

unbundle bit_operations_syntax

subsection \<open>Address spaces and the kernel\<close>

text \<open>The memory of a process: the byte at each address and the protection of each mapped page.\<close>

record address_space =
  content :: "nat \<Rightarrow> u8"
  prot_of :: "nat \<Rightarrow> u64 option"

text \<open>The kernel is a parameter: its page size, and the result of a system call with its number and its
  arguments, with the address space it leaves.\<close>

record kernel =
  page_size :: nat
  sys_call :: "nat \<Rightarrow> u64 list \<Rightarrow> address_space \<Rightarrow> u64 \<times> address_space"

definition raw_syscall6 ::
  "kernel \<Rightarrow> nat \<Rightarrow> u64 \<Rightarrow> u64 \<Rightarrow> u64 \<Rightarrow> u64 \<Rightarrow> u64 \<Rightarrow> u64 \<Rightarrow> address_space \<Rightarrow> u64 \<times> address_space" where
  "raw_syscall6 k number a0 a1 a2 a3 a4 a5 m = sys_call k number [a0, a1, a2, a3, a4, a5] m"

definition kernel_result_is_error :: "u64 \<Rightarrow> bool" where
  "kernel_result_is_error result \<longleftrightarrow> - 4095 \<le> result"

abbreviation (input) SYS_mmap :: nat where "SYS_mmap \<equiv> 222"
abbreviation (input) SYS_munmap :: nat where "SYS_munmap \<equiv> 215"
abbreviation (input) SYS_mprotect :: nat where "SYS_mprotect \<equiv> 226"
abbreviation (input) PROT_READ :: u64 where "PROT_READ \<equiv> 1"
abbreviation (input) PROT_WRITE :: u64 where "PROT_WRITE \<equiv> 2"
abbreviation (input) PROT_EXEC :: u64 where "PROT_EXEC \<equiv> 4"
abbreviation (input) MAP_PRIVATE :: u64 where "MAP_PRIVATE \<equiv> 2"
abbreviation (input) MAP_FIXED :: u64 where "MAP_FIXED \<equiv> 16"
abbreviation (input) MAP_ANONYMOUS :: u64 where "MAP_ANONYMOUS \<equiv> 32"
abbreviation (input) MAP_FAILED :: u64 where "MAP_FAILED \<equiv> - 1"

text \<open>A call gets \<open>errno\<close> and the memory and returns its result with both.\<close>

type_synonym 'r memory_call = "int \<Rightarrow> address_space \<Rightarrow> 'r \<times> int \<times> address_space"

definition raw_mprotect :: "kernel \<Rightarrow> u64 \<Rightarrow> u64 \<Rightarrow> u64 \<Rightarrow> int memory_call" where
  "raw_mprotect k address len protection errno m =
     (let (result, m) = raw_syscall6 k SYS_mprotect address len protection 0 0 0 m
      in if kernel_result_is_error result then (-1, - sint result, m)
         else (sint (ucast result :: u32), errno, m))"

definition raw_mmap :: "kernel \<Rightarrow> u64 \<Rightarrow> u64 \<Rightarrow> u64 \<Rightarrow> u64 \<Rightarrow> u64 \<Rightarrow> u64 \<Rightarrow> u64 memory_call" where
  "raw_mmap k address len protection flags descriptor offset errno m =
     (let (result, m) = raw_syscall6 k SYS_mmap address len protection flags descriptor offset m
      in if kernel_result_is_error result then (MAP_FAILED, - sint result, m)
         else (result, errno, m))"

definition raw_munmap :: "kernel \<Rightarrow> u64 \<Rightarrow> u64 \<Rightarrow> int memory_call" where
  "raw_munmap k address len errno m =
     (let (result, m) = raw_syscall6 k SYS_munmap address len 0 0 0 0 m
      in if kernel_result_is_error result then (-1, - sint result, m)
         else (sint (ucast result :: u32), errno, m))"

text \<open>An access to a page that is not mapped, or whose protection does not allow it, is a fault: no result.\<close>

definition load_byte :: "kernel \<Rightarrow> address_space \<Rightarrow> nat \<Rightarrow> u8 option" where
  "load_byte k m a =
     (case prot_of m (a div page_size k) of
        None \<Rightarrow> None
      | Some p \<Rightarrow> if p AND PROT_READ \<noteq> 0 then Some (content m a) else None)"

definition store_byte :: "kernel \<Rightarrow> address_space \<Rightarrow> nat \<Rightarrow> u8 \<Rightarrow> address_space option" where
  "store_byte k m a v =
     (case prot_of m (a div page_size k) of
        None \<Rightarrow> None
      | Some p \<Rightarrow> if p AND PROT_WRITE \<noteq> 0 then Some (m\<lparr>content := (content m)(a := v)\<rparr>) else None)"

function copy_bytes :: "kernel \<Rightarrow> nat \<Rightarrow> nat \<Rightarrow> nat \<Rightarrow> nat \<Rightarrow> address_space \<Rightarrow> address_space option" where
  "copy_bytes k destination source index len m =
     (if index < len then
        do {
          v \<leftarrow> load_byte k m (source + index);
          m \<leftarrow> store_byte k m (destination + index) v;
          copy_bytes k destination source (index + 1) len m
        }
      else Some m)"
  by pat_completeness auto

termination copy_bytes
  by (relation "measure (\<lambda>(k, d, s, i, n, m). n - i)") auto

declare copy_bytes.simps [simp del]

definition make_anonymous_executable_copy ::
  "kernel \<Rightarrow> u64 \<Rightarrow> u64 \<Rightarrow> u64 \<Rightarrow> int \<Rightarrow> address_space \<Rightarrow> (int \<times> int \<times> address_space) option" where
  "make_anonymous_executable_copy k address len protection errno m =
     (let readable_protection = PROT_READ OR (protection AND PROT_WRITE) in
      if len = 0 then Some (-1, errno_code EINVAL, m)
      else
        let (result, errno, m) = raw_mprotect k address len readable_protection errno m in
        if result \<noteq> 0 then Some (-1, errno, m)
        else
          let (scratch, errno, m) = raw_mmap k 0 len (PROT_READ OR PROT_WRITE) (MAP_PRIVATE OR MAP_ANONYMOUS) (-1) 0 errno m in
          if scratch = MAP_FAILED then Some (-1, errno, m)
          else do {
            m \<leftarrow> copy_bytes k (unat scratch) (unat address) 0 (unat len) m;
            let (replacement, errno, m) =
                  raw_mmap k address len (PROT_READ OR PROT_WRITE) (MAP_PRIVATE OR MAP_ANONYMOUS OR MAP_FIXED) (-1) 0 errno m;
            if replacement = MAP_FAILED then
              (let saved_errno = errno; (_, _, m) = raw_munmap k scratch len errno m in Some (-1, saved_errno, m))
            else do {
              m \<leftarrow> copy_bytes k (unat address) (unat scratch) 0 (unat len) m;
              let (result, errno, m) = raw_mprotect k address len protection errno m;
              let saved_errno = errno;
              let (_, _, m) = raw_munmap k scratch len errno m;
              Some (if result \<noteq> 0 then -1 else 0, saved_errno, m)
            }
          })"

definition mprotect :: "kernel \<Rightarrow> u64 \<Rightarrow> u64 \<Rightarrow> u64 \<Rightarrow> int \<Rightarrow> address_space \<Rightarrow> (int \<times> int \<times> address_space) option" where
  "mprotect k address len protection errno m =
     (let (result, errno, m) = raw_mprotect k address len protection errno m in
      if result = -1 \<and> errno = errno_code EACCES \<and> protection AND PROT_EXEC \<noteq> 0
      then make_anonymous_executable_copy k address len protection errno m
      else Some (result, errno, m))"

subsection \<open>What the kernel documents\<close>

definition touched :: "kernel \<Rightarrow> u64 \<Rightarrow> u64 \<Rightarrow> nat \<Rightarrow> bool" where
  "touched k address len page \<longleftrightarrow> page * page_size k < unat address + unat len \<and> unat address < (page + 1) * page_size k"

definition same_outside :: "kernel \<Rightarrow> u64 \<Rightarrow> u64 \<Rightarrow> address_space \<Rightarrow> address_space \<Rightarrow> bool" where
  "same_outside k address len m m' \<longleftrightarrow>
     (\<forall>p. \<not> touched k address len p \<longrightarrow> prot_of m' p = prot_of m p) \<and>
     (\<forall>a. \<not> touched k address len (a div page_size k) \<longrightarrow> content m' a = content m a)"

definition now_mapped :: "kernel \<Rightarrow> u64 \<Rightarrow> u64 \<Rightarrow> u64 \<Rightarrow> address_space \<Rightarrow> bool" where
  "now_mapped k address len protection m \<longleftrightarrow>
     (\<forall>p. touched k address len p \<longrightarrow> prot_of m p = Some protection) \<and>
     (\<forall>a. touched k address len (a div page_size k) \<longrightarrow> content m a = 0)"

definition mprotect_documented :: "kernel \<Rightarrow> bool" where
  "mprotect_documented k \<longleftrightarrow>
     (\<forall>address len protection m r m'. sys_call k SYS_mprotect [address, len, protection, 0, 0, 0] m = (r, m') \<longrightarrow>
        content m' = content m \<and> same_outside k address len m m' \<and> (\<forall>p. prot_of m' p = None \<longleftrightarrow> prot_of m p = None) \<and>
        (kernel_result_is_error r \<or> r = 0 \<and> (\<forall>p. touched k address len p \<longrightarrow> prot_of m' p = Some protection)))"

definition mmap_documented :: "kernel \<Rightarrow> bool" where
  "mmap_documented k \<longleftrightarrow>
     (\<forall>len protection m r m'. sys_call k SYS_mmap [0, len, protection, 34, -1, 0] m = (r, m') \<longrightarrow>
        (if kernel_result_is_error r then m' = m
         else (\<forall>p. touched k r len p \<longrightarrow> prot_of m p = None) \<and> now_mapped k r len protection m' \<and> same_outside k r len m m')) \<and>
     (\<forall>address len protection m r m'. sys_call k SYS_mmap [address, len, protection, 50, -1, 0] m = (r, m') \<longrightarrow>
        same_outside k address len m m' \<and> (kernel_result_is_error r \<or> r = address \<and> now_mapped k address len protection m'))"

definition munmap_documented :: "kernel \<Rightarrow> bool" where
  "munmap_documented k \<longleftrightarrow>
     (\<forall>address len m r m'. sys_call k SYS_munmap [address, len, 0, 0, 0, 0] m = (r, m') \<longrightarrow> same_outside k address len m m')"

definition kernel_documented :: "kernel \<Rightarrow> bool" where
  "kernel_documented k \<longleftrightarrow> 0 < page_size k \<and> mprotect_documented k \<and> mmap_documented k \<and> munmap_documented k"

subsection \<open>The copy\<close>

definition readable :: "kernel \<Rightarrow> address_space \<Rightarrow> nat \<Rightarrow> bool" where
  "readable k m a \<longleftrightarrow> (\<exists>p. prot_of m (a div page_size k) = Some p \<and> p AND 1 \<noteq> 0)"

definition writable :: "kernel \<Rightarrow> address_space \<Rightarrow> nat \<Rightarrow> bool" where
  "writable k m a \<longleftrightarrow> (\<exists>p. prot_of m (a div page_size k) = Some p \<and> p AND 2 \<noteq> 0)"

lemma copy_bytes_spec:
  assumes "\<And>j. i \<le> j \<Longrightarrow> j < n \<Longrightarrow> readable k m (s + j) \<and> writable k m (d + j)"
    and "\<And>j j'. j < n \<Longrightarrow> j' < n \<Longrightarrow> s + j \<noteq> d + j'"
  shows "copy_bytes k d s i n m = Some (m\<lparr>content := (\<lambda>a. if d + i \<le> a \<and> a < d + n then content m (s + (a - d)) else content m a)\<rparr>)"
  using assms
proof (induction k d s i n m rule: copy_bytes.induct)
  case (1 k d s i n m)
  show ?case
  proof (cases "i < n")
    case True
    let ?m = "m\<lparr>content := (content m)(d + i := content m (s + i))\<rparr>"
    have rw: "readable k m (s + i)" "writable k m (d + i)" using "1.prems"(1) True by auto
    then have l: "load_byte k m (s + i) = Some (content m (s + i))" "store_byte k m (d + i) (content m (s + i)) = Some ?m"
      by (auto simp: readable_def writable_def load_byte_def store_byte_def)
    have "readable k ?m (s + j) \<and> writable k ?m (d + j)" if "i + 1 \<le> j" "j < n" for j
      using "1.prems"(1) [of j] that by (simp add: readable_def writable_def)
    then have ih: "copy_bytes k d s (i + 1) n ?m =
        Some (?m\<lparr>content := (\<lambda>a. if d + (i + 1) \<le> a \<and> a < d + n then content ?m (s + (a - d)) else content ?m a)\<rparr>)"
      using "1.IH" [OF True l(1,2)] "1.prems"(2) by blast
    have ne: "s + j \<noteq> d + i" if "j < n" for j using "1.prems"(2) [OF that True] .
    have "(if d + (i + 1) \<le> a \<and> a < d + n then content ?m (s + (a - d)) else content ?m a) =
        (if d + i \<le> a \<and> a < d + n then content m (s + (a - d)) else content m a)" for a
    proof (cases "d + (i + 1) \<le> a \<and> a < d + n")
      case in_range: True
      then have "a - d < n" by linarith
      from ne [OF this] in_range show ?thesis by simp
    next
      case False
      then show ?thesis using True by (cases "a = d + i") auto
    qed
    then show ?thesis using True l ih by (subst copy_bytes.simps) (simp add: fun_eq_iff)
  next
    case False
    then have "(\<lambda>a. if d + i \<le> a \<and> a < d + n then content m (s + (a - d)) else content m a) = content m" by (auto simp: fun_eq_iff)
    with False show ?thesis by (subst copy_bytes.simps) simp
  qed
qed

lemma touched_byte: "0 < page_size k \<Longrightarrow> i < unat len \<Longrightarrow> touched k address len ((unat address + i) div page_size k)"
  using le_less_trans [OF div_times_less_eq_dividend [of "unat address + i" "page_size k"], of "unat address + unat len"]
    dividend_less_div_times [of "page_size k" "unat address + i"]
  by (simp add: touched_def)

subsection \<open>The system calls\<close>

lemma not_error_simps [simp]: "\<not> kernel_result_is_error 0" "kernel_result_is_error (- 1)" "kernel_result_is_error (- 12)" "kernel_result_is_error (- 13)"
  by (simp_all add: kernel_result_is_error_def)

lemma raw_mprotect_spec:
  assumes "kernel_documented k" "raw_mprotect k address len protection e m = (r, e', m')"
  shows "content m' = content m \<and> same_outside k address len m m' \<and> (\<forall>p. prot_of m' p = None \<longleftrightarrow> prot_of m p = None) \<and>
    (r = -1 \<or> r = 0 \<and> e' = e \<and> (\<forall>p. touched k address len p \<longrightarrow> prot_of m' p = Some protection))"
proof -
  obtain r1 m1 where c: "sys_call k 226 [address, len, protection, 0, 0, 0] m = (r1, m1)"
    by (cases "sys_call k 226 [address, len, protection, 0, 0, 0] m")
  have d: "content m1 = content m \<and> same_outside k address len m m1 \<and> (\<forall>p. prot_of m1 p = None \<longleftrightarrow> prot_of m p = None) \<and>
    (kernel_result_is_error r1 \<or> r1 = 0 \<and> (\<forall>p. touched k address len p \<longrightarrow> prot_of m1 p = Some protection))"
    using assms(1) c unfolding kernel_documented_def mprotect_documented_def by blast
  have "m' = m1 \<and> (r = -1 \<and> kernel_result_is_error r1 \<or> \<not> kernel_result_is_error r1 \<and> e' = e \<and> r = sint (ucast r1 :: u32))"
    using assms(2) c by (auto simp: raw_mprotect_def raw_syscall6_def split: if_splits)
  then show ?thesis using d by auto
qed

lemma raw_mmap_anywhere:
  assumes "kernel_documented k" "raw_mmap k 0 len protection 34 (- 1) 0 e m = (r, e', m')"
  shows "if r = - 1 then m' = m
    else (\<forall>p. touched k r len p \<longrightarrow> prot_of m p = None) \<and> now_mapped k r len protection m' \<and> same_outside k r len m m'"
proof -
  obtain r1 m1 where c: "sys_call k 222 [0, len, protection, 34, - 1, 0] m = (r1, m1)"
    by (cases "sys_call k 222 [0, len, protection, 34, - 1, 0] m")
  have d: "if kernel_result_is_error r1 then m1 = m
    else (\<forall>p. touched k r1 len p \<longrightarrow> prot_of m p = None) \<and> now_mapped k r1 len protection m1 \<and> same_outside k r1 len m m1"
    using assms(1) c unfolding kernel_documented_def mmap_documented_def by blast
  have "m' = m1 \<and> (if kernel_result_is_error r1 then r = - 1 else r = r1)"
    using assms(2) c by (auto simp: raw_mmap_def raw_syscall6_def split: if_splits)
  then show ?thesis using d by (cases "kernel_result_is_error r1") auto
qed

lemma raw_mmap_fixed:
  assumes "kernel_documented k" "raw_mmap k address len protection 50 (- 1) 0 e m = (r, e', m')"
  shows "same_outside k address len m m' \<and> (r = - 1 \<or> now_mapped k address len protection m')"
proof -
  obtain r1 m1 where c: "sys_call k 222 [address, len, protection, 50, - 1, 0] m = (r1, m1)"
    by (cases "sys_call k 222 [address, len, protection, 50, - 1, 0] m")
  have d: "same_outside k address len m m1 \<and> (kernel_result_is_error r1 \<or> r1 = address \<and> now_mapped k address len protection m1)"
    using assms(1) c unfolding kernel_documented_def mmap_documented_def by blast
  have "m' = m1 \<and> (if kernel_result_is_error r1 then r = - 1 else r = r1)"
    using assms(2) c by (auto simp: raw_mmap_def raw_syscall6_def split: if_splits)
  then show ?thesis using d by (cases "kernel_result_is_error r1") auto
qed

lemma raw_munmap_spec:
  assumes "kernel_documented k" "raw_munmap k address len e m = (r, e', m')"
  shows "same_outside k address len m m'"
proof -
  obtain r1 m1 where c: "sys_call k 215 [address, len, 0, 0, 0, 0] m = (r1, m1)"
    by (cases "sys_call k 215 [address, len, 0, 0, 0, 0] m")
  have "same_outside k address len m m1"
    using assms(1) c unfolding kernel_documented_def munmap_documented_def by blast
  moreover have "m' = m1" using assms(2) c by (auto simp: raw_munmap_def raw_syscall6_def split: if_splits)
  ultimately show ?thesis by simp
qed

subsection \<open>What \<open>mprotect\<close> does to the memory\<close>

definition mapped_byte :: "kernel \<Rightarrow> address_space \<Rightarrow> nat \<Rightarrow> bool" where
  "mapped_byte k m a \<longleftrightarrow> prot_of m (a div page_size k) \<noteq> None"

text \<open>What was mapped outside the range is as it was.\<close>

definition others_kept :: "kernel \<Rightarrow> u64 \<Rightarrow> u64 \<Rightarrow> address_space \<Rightarrow> address_space \<Rightarrow> bool" where
  "others_kept k address len m m' \<longleftrightarrow>
     (\<forall>p. \<not> touched k address len p \<and> prot_of m p \<noteq> None \<longrightarrow> prot_of m' p = prot_of m p) \<and>
     (\<forall>a. \<not> touched k address len (a div page_size k) \<and> mapped_byte k m a \<longrightarrow> content m' a = content m a)"

text \<open>The range was made anonymous: its bytes are copied, the rest of its pages is zero.\<close>

definition replaced :: "kernel \<Rightarrow> u64 \<Rightarrow> u64 \<Rightarrow> u64 \<Rightarrow> address_space \<Rightarrow> address_space \<Rightarrow> bool" where
  "replaced k address len protection m m' \<longleftrightarrow>
     (\<forall>p. touched k address len p \<longrightarrow> prot_of m' p = Some protection) \<and>
     (\<forall>a. touched k address len (a div page_size k) \<longrightarrow>
        content m' a = (if unat address \<le> a \<and> a < unat address + unat len then content m a else 0))"

text \<open>Only pages of the range and of the scratch mapping differ.\<close>

definition changed_only :: "kernel \<Rightarrow> u64 \<Rightarrow> u64 \<Rightarrow> u64 \<Rightarrow> address_space \<Rightarrow> address_space \<Rightarrow> bool" where
  "changed_only k address scratch len m m' \<longleftrightarrow>
     (\<forall>p. \<not> touched k address len p \<and> \<not> touched k scratch len p \<longrightarrow> prot_of m' p = prot_of m p) \<and>
     (\<forall>a. \<not> touched k address len (a div page_size k) \<and> \<not> touched k scratch len (a div page_size k) \<longrightarrow> content m' a = content m a)"

lemma changed_only_trans:
  "changed_only k a s n m m1 \<Longrightarrow> changed_only k a s n m1 m2 \<Longrightarrow> changed_only k a s n m m2"
  by (auto simp: changed_only_def)

lemma same_outside_changed: "same_outside k a n m m' \<Longrightarrow> changed_only k a s n m m'" "same_outside k s n m m' \<Longrightarrow> changed_only k a s n m m'"
  by (auto simp: changed_only_def same_outside_def)

lemma same_outside_trans: "same_outside k a n m m1 \<Longrightarrow> same_outside k a n m1 m2 \<Longrightarrow> same_outside k a n m m2"
  by (auto simp: same_outside_def)

lemma others_keptI:
  assumes "changed_only k address scratch len m m'" "\<And>p. touched k scratch len p \<Longrightarrow> prot_of m p = None"
  shows "others_kept k address len m m'"
  using assms unfolding others_kept_def changed_only_def mapped_byte_def by metis

text \<open>The two copies, between which the range is replaced by zero pages.\<close>

definition overlaid :: "address_space \<Rightarrow> nat \<Rightarrow> nat \<Rightarrow> nat \<Rightarrow> address_space" where
  "overlaid m d s n = m\<lparr>content := (\<lambda>a. if d \<le> a \<and> a < d + n then content m (s + (a - d)) else content m a)\<rparr>"

lemma copy_between:
  assumes P: "0 < page_size k" and disj: "\<And>p. touched k d n p \<Longrightarrow> \<not> touched k s n p"
    and src: "\<And>p. touched k s n p \<Longrightarrow> \<exists>q. prot_of m p = Some q \<and> q AND 1 \<noteq> 0"
    and dst: "\<And>p. touched k d n p \<Longrightarrow> \<exists>q. prot_of m p = Some q \<and> q AND 2 \<noteq> 0"
  shows "copy_bytes k (unat d) (unat s) 0 (unat n) m = Some (overlaid m (unat d) (unat s) (unat n))"
proof -
  have "unat s + j \<noteq> unat d + j'" if "j < unat n" "j' < unat n" for j j'
    using touched_byte [OF P that(1), of s] touched_byte [OF P that(2), of d] disj by metis
  moreover have "readable k m (unat s + j) \<and> writable k m (unat d + j)" if "j < unat n" for j
    using src [OF touched_byte [OF P that]] dst [OF touched_byte [OF P that]] by (auto simp: readable_def writable_def)
  ultimately show ?thesis using copy_bytes_spec [of 0 "unat n" k m "unat s" "unat d"] by (simp add: overlaid_def)
qed

lemma overlaid_outside:
  assumes "0 < page_size k" shows "same_outside k d n m (overlaid m (unat d) x (unat n))"
proof -
  have "touched k d n (a div page_size k)" if "unat d \<le> a" "a < unat d + unat n" for a
    using touched_byte [OF assms, of "a - unat d" n d] that by simp
  then show ?thesis by (auto simp: same_outside_def overlaid_def)
qed

lemma finish_copy:
  assumes doc: "kernel_documented k" and disj: "\<And>p. touched k address len p \<Longrightarrow> \<not> touched k scratch len p"
    and free: "\<And>p. touched k scratch len p \<Longrightarrow> prot_of m p = None" and p4: "\<And>p. touched k scratch len p \<Longrightarrow> prot_of m4 p = Some 3"
    and n4: "now_mapped k address len 3 m4" and data: "\<And>i. i < unat len \<Longrightarrow> content m4 (unat scratch + i) = content m (unat address + i)"
    and k4: "changed_only k address scratch len m m4"
    and c6: "raw_mprotect k address len protection e4 (overlaid m4 (unat address) (unat scratch) (unat len)) = (r6, e6, m6)"
    and c7: "raw_munmap k scratch len e6 m6 = (r7, e7, m7)"
  shows "copy_bytes k (unat address) (unat scratch) 0 (unat len) m4 = Some (overlaid m4 (unat address) (unat scratch) (unat len))"
    "others_kept k address len m m7" "r6 = 0 \<Longrightarrow> replaced k address len protection m m7"
proof -
  let ?m5 = "overlaid m4 (unat address) (unat scratch) (unat len)"
  have P: "0 < page_size k" using doc by (simp add: kernel_documented_def)
  show "copy_bytes k (unat address) (unat scratch) 0 (unat len) m4 = Some ?m5"
    using disj p4 n4 by (intro copy_between [OF P]) (auto simp: now_mapped_def)
  note s6 = raw_mprotect_spec [OF doc c6]
  note s7 = raw_munmap_spec [OF doc c7]
  have o5: "same_outside k address len m4 ?m5" by (rule overlaid_outside [OF P])
  have o6: "same_outside k address len ?m5 m6" using s6 by simp
  show "others_kept k address len m m7"
    by (rule others_keptI [OF changed_only_trans [OF changed_only_trans [OF k4 same_outside_changed(1) [OF same_outside_trans [OF o5 o6]]]
        same_outside_changed(2) [OF s7]] free])
  assume "r6 = 0"
  then have "prot_of m7 p = Some protection" if "touched k address len p" for p
    using that s6 s7 disj [OF that] by (auto simp: same_outside_def)
  moreover have "content m7 a = (if unat address \<le> a \<and> a < unat address + unat len then content m a else 0)"
    if t: "touched k address len (a div page_size k)" for a
  proof -
    have "content m7 a = content ?m5 a" using s6 s7 disj [OF t] by (simp add: same_outside_def)
    moreover have "content ?m5 a = content m a" if "unat address \<le> a" "a < unat address + unat len"
      using data [of "a - unat address"] that by (auto simp: overlaid_def)
    moreover have "content m4 a = 0" using n4 t by (simp add: now_mapped_def)
    ultimately show ?thesis by (auto simp: overlaid_def)
  qed
  ultimately show "replaced k address len protection m m7" by (simp add: replaced_def)
qed

lemma scratch_filled:
  assumes doc: "kernel_documented k" and mapped: "\<And>p. touched k address len p \<Longrightarrow> prot_of m p \<noteq> None"
    and c1: "raw_mprotect k address len (1 OR (protection AND 2)) e m = (0, e1, m1)"
    and c2: "raw_mmap k 0 len 3 34 (- 1) 0 e1 m1 = (scratch, e2, m2)" and ok: "scratch \<noteq> - 1"
  obtains m3 where "copy_bytes k (unat scratch) (unat address) 0 (unat len) m2 = Some m3"
    "\<And>p. touched k address len p \<Longrightarrow> \<not> touched k scratch len p" "\<And>p. touched k scratch len p \<Longrightarrow> prot_of m p = None"
    "\<And>p. touched k scratch len p \<Longrightarrow> prot_of m3 p = Some 3" "changed_only k address scratch len m m3"
    "\<And>i. i < unat len \<Longrightarrow> content m3 (unat scratch + i) = content m (unat address + i)"
proof -
  let ?m3 = "overlaid m2 (unat scratch) (unat address) (unat len)"
  have P: "0 < page_size k" using doc by (simp add: kernel_documented_def)
  note s1 = raw_mprotect_spec [OF doc c1]
  have s2: "\<And>p. touched k scratch len p \<Longrightarrow> prot_of m1 p = None" "now_mapped k scratch len 3 m2" "same_outside k scratch len m1 m2"
    using raw_mmap_anywhere [OF doc c2] ok by auto
  have free: "\<And>p. touched k scratch len p \<Longrightarrow> prot_of m p = None" using s1 s2(1) by auto
  then have disj: "\<And>p. touched k address len p \<Longrightarrow> \<not> touched k scratch len p" using mapped by blast
  have rp: "(1 OR (protection AND 2)) AND 1 \<noteq> (0 :: u64)" by (simp add: bit.conj_disj_distrib2)
  have p2: "prot_of m2 p = Some (1 OR (protection AND 2))" if "touched k address len p" for p
    using s1 s2(3) disj [OF that] that by (auto simp: same_outside_def)
  have cp1: "copy_bytes k (unat scratch) (unat address) 0 (unat len) m2 = Some ?m3"
    using disj p2 rp s2(2) by (intro copy_between [OF P]) (auto simp: now_mapped_def)
  have p3: "prot_of ?m3 p = Some 3" if "touched k scratch len p" for p using s2(2) that by (simp add: now_mapped_def overlaid_def)
  have o1: "same_outside k address len m m1" using s1 by simp
  note k3 = changed_only_trans [OF changed_only_trans [OF same_outside_changed(1) [OF o1] same_outside_changed(2) [OF s2(3)]]
      same_outside_changed(2) [OF overlaid_outside [OF P]]]
  have data: "content ?m3 (unat scratch + i) = content m (unat address + i)" if "i < unat len" for i
  proof -
    have "\<not> touched k scratch len ((unat address + i) div page_size k)" using disj touched_byte [OF P that, of address] by blast
    then show ?thesis using that s1 s2(3) by (simp add: same_outside_def overlaid_def)
  qed
  show thesis by (rule that [OF cp1 disj free p3 k3 data])
qed

lemma copied_back:
  assumes doc: "kernel_documented k" and mapped: "\<And>p. touched k address len p \<Longrightarrow> prot_of m p \<noteq> None" and len: "len \<noteq> 0"
    and c1: "raw_mprotect k address len (1 OR (protection AND 2)) e m = (0, e1, m1)"
    and c2: "raw_mmap k 0 len 3 34 (- 1) 0 e1 m1 = (scratch, e2, m2)" and ok: "scratch \<noteq> - 1"
  shows "\<exists>r e' m'. make_anonymous_executable_copy k address len protection e m = Some (r, e', m') \<and>
    (r = 0 \<or> r = -1) \<and> others_kept k address len m m' \<and> (r = 0 \<longrightarrow> replaced k address len protection m m')"
proof -
  from scratch_filled [OF doc mapped c1 c2 ok] obtain m3
    where cp: "copy_bytes k (unat scratch) (unat address) 0 (unat len) m2 = Some m3"
    and disj: "\<And>p. touched k address len p \<Longrightarrow> \<not> touched k scratch len p" and free: "\<And>p. touched k scratch len p \<Longrightarrow> prot_of m p = None"
    and p3: "\<And>p. touched k scratch len p \<Longrightarrow> prot_of m3 p = Some 3" and k3: "changed_only k address scratch len m m3"
    and data: "\<And>i. i < unat len \<Longrightarrow> content m3 (unat scratch + i) = content m (unat address + i)" by blast
  have P: "0 < page_size k" using doc by (simp add: kernel_documented_def)
  obtain rep e4 m4 where c4: "raw_mmap k address len 3 50 (- 1) 0 e2 m3 = (rep, e4, m4)" by (cases "raw_mmap k address len 3 50 (- 1) 0 e2 m3")
  note s4 = raw_mmap_fixed [OF doc c4]
  note k4 = changed_only_trans [OF k3 same_outside_changed(1) [OF conjunct1 [OF s4]]]
  show ?thesis
  proof (cases "rep = - 1")
    case True
    obtain r5 e5 m5 where c5: "raw_munmap k scratch len e4 m4 = (r5, e5, m5)" by (cases "raw_munmap k scratch len e4 m4")
    have "others_kept k address len m m5"
      by (rule others_keptI [OF changed_only_trans [OF k4 same_outside_changed(2) [OF raw_munmap_spec [OF doc c5]]] free])
    then show ?thesis using len c1 c2 ok cp c4 True c5 by (simp add: make_anonymous_executable_copy_def)
  next
    case False
    let ?m5 = "overlaid m4 (unat address) (unat scratch) (unat len)"
    obtain r6 e6 m6 where c6: "raw_mprotect k address len protection e4 ?m5 = (r6, e6, m6)" by (cases "raw_mprotect k address len protection e4 ?m5")
    obtain r7 e7 m7 where c7: "raw_munmap k scratch len e6 m6 = (r7, e7, m7)" by (cases "raw_munmap k scratch len e6 m6")
    have away: "\<not> touched k address len p" if "touched k scratch len p" for p using that disj by blast
    have p4: "prot_of m4 p = Some 3" if "touched k scratch len p" for p
      using away [OF that] p3 [OF that] s4 by (simp add: same_outside_def)
    have d4: "content m4 (unat scratch + i) = content m (unat address + i)" if "i < unat len" for i
      using away [OF touched_byte [OF P that]] data [OF that] s4 by (simp add: same_outside_def)
    have "now_mapped k address len 3 m4" using s4 False by simp
    from finish_copy [OF doc disj free p4 this d4 k4 c6 c7] show ?thesis
      using len c1 c2 ok cp c4 False c6 c7 by (simp add: make_anonymous_executable_copy_def)
  qed
qed

lemma anonymous_copy:
  assumes doc: "kernel_documented k" and mapped: "\<And>p. touched k address len p \<Longrightarrow> prot_of m p \<noteq> None"
  shows "\<exists>r e' m'. make_anonymous_executable_copy k address len protection e m = Some (r, e', m') \<and>
    (r = 0 \<or> r = -1) \<and> others_kept k address len m m' \<and> (r = 0 \<longrightarrow> replaced k address len protection m m')"
proof (cases "len = 0")
  case True
  then show ?thesis by (simp add: make_anonymous_executable_copy_def others_kept_def)
next
  case len: False
  let ?rp = "1 OR (protection AND 2)"
  have P: "0 < page_size k" using doc by (simp add: kernel_documented_def)
  obtain r1 e1 m1 where c1: "raw_mprotect k address len ?rp e m = (r1, e1, m1)" by (cases "raw_mprotect k address len ?rp e m")
  note s1 = raw_mprotect_spec [OF doc c1]
  have keep1: "others_kept k address len m m1" using s1 by (auto simp: others_kept_def same_outside_def)
  show ?thesis
  proof (cases "r1 = 0")
    case False
    then show ?thesis using len c1 keep1 by (simp add: make_anonymous_executable_copy_def)
  next
    case r1: True
    obtain scratch e2 m2 where c2: "raw_mmap k 0 len 3 34 (- 1) 0 e1 m1 = (scratch, e2, m2)" by (cases "raw_mmap k 0 len 3 34 (- 1) 0 e1 m1")
    note s2 = raw_mmap_anywhere [OF doc c2]
    show ?thesis
    proof (cases "scratch = - 1")
      case True
      then show ?thesis using len c1 r1 c2 s2 keep1 by (simp add: make_anonymous_executable_copy_def)
    next
      case False
      from copied_back [OF doc mapped len _ c2 False] c1 r1 show ?thesis by blast
    qed
  qed
qed

lemma aligned_range:
  assumes "0 < page_size k" "page_size k dvd unat address" "page_size k dvd unat len" "touched k address len (a div page_size k)"
  shows "unat address \<le> a \<and> a < unat address + unat len"
proof -
  obtain b c where bc: "unat address = page_size k * b" "unat len = page_size k * c" using assms(2,3) by (auto simp: dvd_def)
  let ?q = "a div page_size k"
  have "page_size k * ?q < page_size k * (b + c)" "page_size k * b < page_size k * (?q + 1)"
    using assms(4) by (simp_all add: touched_def bc algebra_simps)
  then have "?q < b + c" "b < ?q + 1" using mult_less_cancel1 by blast+
  then have q: "b \<le> ?q" "?q + 1 \<le> b + c" by simp_all
  have "page_size k * b \<le> page_size k * ?q" "page_size k * (?q + 1) \<le> page_size k * (b + c)" using q by (metis mult_le_mono2)+
  moreover have "page_size k * ?q \<le> a" "a < page_size k * (?q + 1)"
    using assms(1) dividend_less_div_times [of "page_size k" a] by (simp_all add: algebra_simps)
  ultimately have "page_size k * b \<le> a" "a < page_size k * (b + c)" by linarith+
  then show ?thesis by (simp add: bc algebra_simps)
qed

text \<open>C16. \<open>mprotect\<close> keeps the contents of memory. For a range of whole mapped pages, whether the kernel accepts the protection
  or the range is replaced by an anonymous copy, the call does not fault; it fails or gives the pages the requested
  protection, and then every byte of the process that was mapped has the value it had; on failure
  too, nothing outside the range is touched.\<close>

theorem mprotect_keeps_memory:
  assumes doc: "kernel_documented k" and mapped: "\<And>p. touched k address len p \<Longrightarrow> prot_of m p \<noteq> None"
    and aligned: "page_size k dvd unat address" "page_size k dvd unat len"
  shows "\<exists>r e' m'. mprotect k address len protection e m = Some (r, e', m') \<and> (r = 0 \<or> r = -1) \<and> others_kept k address len m m' \<and>
    (r = 0 \<longrightarrow> (\<forall>p. touched k address len p \<longrightarrow> prot_of m' p = Some protection) \<and>
       (\<forall>a. mapped_byte k m a \<longrightarrow> content m' a = content m a))"
proof -
  have P: "0 < page_size k" using doc by (simp add: kernel_documented_def)
  obtain r1 e1 m1 where c1: "raw_mprotect k address len protection e m = (r1, e1, m1)" by (cases "raw_mprotect k address len protection e m")
  note s1 = raw_mprotect_spec [OF doc c1]
  have keep: "others_kept k address len m m1" using s1 by (auto simp: others_kept_def same_outside_def)
  show ?thesis
  proof (cases "r1 = -1 \<and> e1 = 13 \<and> protection AND 4 \<noteq> 0")
    case True
    have "\<And>p. touched k address len p \<Longrightarrow> prot_of m1 p \<noteq> None" using mapped s1 by blast
    from anonymous_copy [OF doc this, where protection = protection and e = e1] obtain r e' m'
      where c: "make_anonymous_executable_copy k address len protection e1 m1 = Some (r, e', m')" "r = 0 \<or> r = -1"
        "others_kept k address len m1 m'" "r = 0 \<longrightarrow> replaced k address len protection m1 m'" by blast
    have same: "content m1 = content m" "\<And>p. \<not> touched k address len p \<Longrightarrow> prot_of m1 p = prot_of m p" using s1 by (auto simp: same_outside_def)
    have "others_kept k address len m m'" using c(3) same by (auto simp: others_kept_def mapped_byte_def)
    moreover have "content m' a = content m a" if "r = 0" "mapped_byte k m a" for a
      using that c(3,4) same aligned_range [OF P aligned, of a] by (cases "touched k address len (a div page_size k)")
        (auto simp: replaced_def others_kept_def mapped_byte_def)
    ultimately show ?thesis using True c1 c by (auto simp: mprotect_def replaced_def)
  next
    case False
    then show ?thesis using c1 s1 keep by (auto simp: mprotect_def)
  qed
qed

text \<open>A range whose end is not on a page boundary loses the rest of its last page: when the kernel refuses the
  protection and the replacement succeeds, every byte of the touched pages after the end of the range is zero.\<close>

lemma mprotect_loses_tail:
  assumes doc: "kernel_documented k" and mapped: "\<And>p. touched k address len p \<Longrightarrow> prot_of m p \<noteq> None"
    and refused: "raw_mprotect k address len protection e m = (-1, errno_code EACCES, m1)" "protection AND 4 \<noteq> 0"
    and run: "mprotect k address len protection e m = Some (0, e', m')"
    and tail: "touched k address len (a div page_size k)" "unat address + unat len \<le> a"
  shows "content m' a = 0"
proof -
  have "\<And>p. touched k address len p \<Longrightarrow> prot_of m1 p \<noteq> None" using mapped raw_mprotect_spec [OF doc refused(1)] by blast
  from anonymous_copy [OF doc this, where protection = protection and e = "errno_code EACCES" and address = address and len = len] have "replaced k address len protection m1 m'"
    using run refused by (auto simp: mprotect_def)
  then show ?thesis using tail by (simp add: replaced_def)
qed

text \<open>A kernel with 4096-byte pages that refuses to make pages executable that are not writable, as Android
  does for files on removable storage.\<close>

definition example_kernel :: kernel where
  "example_kernel = \<lparr>page_size = 4096, sys_call = (\<lambda>n args m.
     let a = args ! 0; l = args ! 1; p = args ! 2; pages = [unat a div 4096..<(unat a + unat l + 4095) div 4096];
         zero = (\<lambda>ps m. m\<lparr>content := (\<lambda>x. if x div 4096 \<in> set ps then 0 else content m x),
           prot_of := (\<lambda>q. if q \<in> set ps then Some p else prot_of m q)\<rparr>);
         free = [262144..<(1073741824 + unat l + 4095) div 4096]
     in if n = 226 then
          (if \<not> list_all (\<lambda>q. prot_of m q \<noteq> None) pages then (- 12, m)
           else if p AND 4 \<noteq> 0 \<and> list_ex (\<lambda>q. the (prot_of m q) AND 2 = 0) pages then (- 13, m)
           else (0, m\<lparr>prot_of := (\<lambda>q. if q \<in> set pages then Some p else prot_of m q)\<rparr>))
        else if n = 222 then
          (if args ! 3 = 50 then (a, zero pages m)
           else if list_all (\<lambda>q. prot_of m q = None) free then (1073741824, zero free m) else (- 12, m))
        else (0, m\<lparr>prot_of := (\<lambda>q. if q \<in> set pages then None else prot_of m q)\<rparr>))\<rparr>"

lemma page_bounds: "q < (n + 4095) div 4096 \<longleftrightarrow> q * 4096 < n" "a div 4096 \<le> q \<longleftrightarrow> a < (q + 1) * 4096" for q n a :: nat
proof -
  show "q < (n + 4095) div 4096 \<longleftrightarrow> q * 4096 < n"
    unfolding Suc_le_eq [symmetric] by (subst less_eq_div_iff_mult_less_eq) auto
  show "a div 4096 \<le> q \<longleftrightarrow> a < (q + 1) * 4096"
    unfolding less_Suc_eq_le [symmetric] by (subst div_less_iff_less_mult) auto
qed

lemma example_pages: "touched example_kernel a l q \<longleftrightarrow> q \<in> set [unat a div 4096..<(unat a + unat l + 4095) div 4096]"
  by (auto simp: touched_def example_kernel_def page_bounds)

lemma example_kernel_documented: "kernel_documented example_kernel"
proof -
  have sz: "page_size example_kernel = 4096" by (simp add: example_kernel_def)
  have "mprotect_documented example_kernel"
    unfolding mprotect_documented_def same_outside_def example_pages sz
    by (auto simp: example_kernel_def Let_def list_all_iff split: if_splits)
  moreover have "mmap_documented example_kernel"
    unfolding mmap_documented_def same_outside_def now_mapped_def example_pages sz
    by (auto simp: example_kernel_def Let_def list_all_iff kernel_result_is_error_def split: if_splits)
  moreover have "munmap_documented example_kernel"
    unfolding munmap_documented_def same_outside_def example_pages sz
    by (auto simp: example_kernel_def Let_def)
  ultimately show ?thesis by (simp add: kernel_documented_def sz)
qed

definition example_memory :: address_space where
  "example_memory = \<lparr>content = (\<lambda>a. 7), prot_of = (\<lambda>q. if q = 16 then Some 1 else None)\<rparr>"

theorem mprotect_keeps_memory_witness:
  "\<exists>r e' m'. mprotect example_kernel 65536 4096 5 0 example_memory = Some (r, e', m') \<and> (r = 0 \<or> r = -1) \<and>
     others_kept example_kernel 65536 4096 example_memory m'"
proof -
  have "prot_of example_memory p \<noteq> None" if "touched example_kernel 65536 4096 p" for p
    using that by (auto simp: example_pages example_memory_def)
  moreover have "page_size example_kernel dvd unat (65536 :: u64)" "page_size example_kernel dvd unat (4096 :: u64)"
    by (simp_all add: example_kernel_def)
  ultimately show ?thesis using mprotect_keeps_memory [OF example_kernel_documented, of 65536 4096 example_memory 5 0] by blast
qed

lemma example_refused: "raw_mprotect example_kernel 65536 2 5 0 example_memory = (-1, 13, example_memory)"
  by (simp add: raw_mprotect_def raw_syscall6_def example_kernel_def example_memory_def)

lemma example_run: "\<exists>e' m'. mprotect example_kernel 65536 2 5 0 example_memory = Some (0, e', m')"
  unfolding mprotect_def example_refused
  by (simp add: make_anonymous_executable_copy_def raw_mprotect_def raw_mmap_def raw_munmap_def raw_syscall6_def example_kernel_def
      example_memory_def copy_bytes.simps load_byte_def store_byte_def kernel_result_is_error_def)

end
