(* ===== verification/AndroidRoot.thy ===== *)
theory AndroidRoot imports TgcPrelude begin

text \<open>
  The Android root shim (\<open>android_root_shim.c\<close>): interposed file functions that replace some files below \<open>/proc\<close> by
  files the environment names, and open \<open>/proc/self/root\<close> as a path reference where Android refuses it. Strings are
  lists of characters without the terminating zero, a null pointer is \<open>None\<close>, the environment is a
  parameter, and so are the functions of the C library behind the shim. Flags have the values of the AArch64 ABI.
  The constructor, which only asks the dynamic linker for those functions, is not modelled.
\<close>

unbundle bit_operations_syntax

subsection \<open>Rewriting paths below \<open>/proc\<close>\<close>

type_synonym environment = "string \<Rightarrow> string option"

text \<open>The pointer a rewriting function returns: the path it was given, the buffer with its new contents, or null.\<close>

datatype mapping = Path | Output string | Null

definition pointer :: "string option \<Rightarrow> mapping \<Rightarrow> string option" where
  "pointer path m = (case m of Path \<Rightarrow> path | Output s \<Rightarrow> Some s | Null \<Rightarrow> None)"

definition prefixes :: "string list" where
  "prefixes = [''/proc/net'', ''/proc/self/net'', ''/proc/thread-self/net'']"

fun suffix_after :: "string list \<Rightarrow> string \<Rightarrow> string option" where
  "suffix_after [] path = None"
| "suffix_after (p # ps) path =
     (if path = p then Some (drop (length p) path)
      else if take (length p) path = p \<and> length p < length path \<and> path ! length p = CHR ''/''
      then Some (drop (length p) path)
      else suffix_after ps path)"

definition proc_net_suffix :: "string option \<Rightarrow> string option" where
  "proc_net_suffix path = (case path of None \<Rightarrow> None | Some p \<Rightarrow> suffix_after prefixes p)"

text \<open>\<open>output\<close> tells whether the buffer pointer is not null; the second component is \<open>errno\<close>.\<close>

definition tgcompat_android_root_rewrite_proc_net ::
  "environment \<Rightarrow> string option \<Rightarrow> bool \<Rightarrow> nat \<Rightarrow> int \<Rightarrow> mapping \<times> int" where
  "tgcompat_android_root_rewrite_proc_net env path buffer output_size errno =
     (case proc_net_suffix path of
        None \<Rightarrow> (Path, errno)
      | Some suffix \<Rightarrow>
          (case env ''TGCOMPAT_PROC_NET'' of
             None \<Rightarrow> (Path, errno)
           | Some root \<Rightarrow>
               if root = [] \<or> hd root \<noteq> CHR ''/'' then (Path, errno)
               else
                 let root_length = length root in
                 if root_length < 2 \<or> root ! (root_length - 1) = CHR ''/'' then (Path, errno)
                 else
                   let suffix_length = length suffix in
                   if \<not> buffer \<or> output_size = 0 \<or> output_size \<le> suffix_length \<or> output_size - suffix_length - 1 < root_length
                   then (Null, errno_code ENAMETOOLONG)
                   else (Output (root @ suffix), errno)))"

definition tgcompat_android_root_rewrite_proc_stat ::
  "environment \<Rightarrow> string option \<Rightarrow> bool \<Rightarrow> nat \<Rightarrow> int \<Rightarrow> mapping \<times> int" where
  "tgcompat_android_root_rewrite_proc_stat env path buffer output_size errno =
     (if path \<noteq> Some ''/proc/stat'' then (Path, errno)
      else
        case env ''TGCOMPAT_PROC_STAT'' of
          None \<Rightarrow> (Path, errno)
        | Some target \<Rightarrow>
            if target = [] \<or> hd target \<noteq> CHR ''/'' then (Path, errno)
            else
              let target_length = length target in
              if target_length < 2 \<or> target ! (target_length - 1) = CHR ''/'' then (Path, errno)
              else if \<not> buffer \<or> output_size = 0 \<or> output_size \<le> target_length then (Null, errno_code ENAMETOOLONG)
              else (Output target, errno))"

definition tgcompat_android_root_rewrite_proc ::
  "environment \<Rightarrow> string option \<Rightarrow> bool \<Rightarrow> nat \<Rightarrow> int \<Rightarrow> mapping \<times> int" where
  "tgcompat_android_root_rewrite_proc env path buffer output_size errno =
     (let (mapped, errno) = tgcompat_android_root_rewrite_proc_stat env path buffer output_size errno in
      if pointer path mapped = None \<or> mapped \<noteq> Path then (mapped, errno)
      else tgcompat_android_root_rewrite_proc_net env path buffer output_size errno)"

subsection \<open>Flags\<close>

abbreviation (input) O_ACCMODE :: u32 where "O_ACCMODE \<equiv> 3"
abbreviation (input) O_RDONLY :: u32 where "O_RDONLY \<equiv> 0"
abbreviation (input) O_CREAT :: u32 where "O_CREAT \<equiv> 0x40"
abbreviation (input) O_DIRECTORY :: u32 where "O_DIRECTORY \<equiv> 0x4000"
abbreviation (input) O_NOFOLLOW :: u32 where "O_NOFOLLOW \<equiv> 0x8000"
abbreviation (input) O_CLOEXEC :: u32 where "O_CLOEXEC \<equiv> 0x80000"
abbreviation (input) O_PATH :: u32 where "O_PATH \<equiv> 0x200000"
abbreviation (input) O_TMPFILE :: u32 where "O_TMPFILE \<equiv> 0x404000"
abbreviation (input) PATH_MAX :: nat where "PATH_MAX \<equiv> 4096"

definition enabled :: "environment \<Rightarrow> bool" where
  "enabled env \<longleftrightarrow> env ''TGCOMPAT_ANDROID_ROOT_O_PATH'' = Some ''1''"

text \<open>The flags of the second attempt, if there is to be one.\<close>

definition tgcompat_android_root_retry_flags :: "environment \<Rightarrow> string option \<Rightarrow> u32 \<Rightarrow> int \<Rightarrow> u32 option" where
  "tgcompat_android_root_retry_flags env path flags error =
     (let allowed_flags = O_CLOEXEC OR O_DIRECTORY OR O_NOFOLLOW in
      if \<not> enabled env \<or> path = None \<or> error \<noteq> errno_code EACCES \<and> error \<noteq> errno_code EPERM \<or>
         path \<noteq> Some ''/proc/self/root'' \<and> path \<noteq> Some ''/proc/self/root/'' \<or>
         flags AND O_DIRECTORY = 0 \<or> flags AND O_PATH \<noteq> 0 \<or> flags AND O_ACCMODE \<noteq> O_RDONLY
      then None
      else Some (O_PATH OR (flags AND allowed_flags)))"

definition flags_have_mode :: "u32 \<Rightarrow> bool" where
  "flags_have_mode flags \<longleftrightarrow> flags AND O_CREAT \<noteq> 0 \<or> flags AND O_TMPFILE = O_TMPFILE"

definition read_only_open :: "u32 \<Rightarrow> bool" where
  "read_only_open flags \<longleftrightarrow> flags AND O_ACCMODE = O_RDONLY \<and> \<not> flags_have_mode flags"

definition mapped_open_path :: "environment \<Rightarrow> string option \<Rightarrow> u32 \<Rightarrow> int \<Rightarrow> mapping \<times> int" where
  "mapped_open_path env path flags errno =
     (if \<not> read_only_open flags then (Path, errno)
      else tgcompat_android_root_rewrite_proc env path True PATH_MAX errno)"

subsection \<open>The interposed functions\<close>

text \<open>A function of the C library behind the shim is a parameter; it takes \<open>errno\<close> and returns its result with
  the new \<open>errno\<close>. A function that was not resolved is \<open>None\<close>. The mode of an \<open>open\<close> is an optional argument.\<close>

type_synonym 'r libc = "int \<Rightarrow> 'r \<times> int"
type_synonym open_function = "string option \<Rightarrow> u32 \<Rightarrow> u32 option \<Rightarrow> int libc"
type_synonym openat_function = "int \<Rightarrow> open_function"

definition retry_openat :: "environment \<Rightarrow> openat_function option \<Rightarrow> int \<Rightarrow> string option \<Rightarrow> u32 \<Rightarrow> int \<Rightarrow> int libc" where
  "retry_openat env function directory path flags result errno =
     (let saved_errno = errno in
      case (function, tgcompat_android_root_retry_flags env path flags saved_errno) of
        (Some f, Some retry_flags) \<Rightarrow> if result < 0 then f directory path retry_flags None errno else (result, saved_errno)
      | _ \<Rightarrow> (result, saved_errno))"

definition call_open :: "environment \<Rightarrow> open_function option \<Rightarrow> string option \<Rightarrow> u32 \<Rightarrow> u32 \<Rightarrow> int libc" where
  "call_open env function path flags mode errno =
     (let (m, errno) = mapped_open_path env path flags errno; mapped = pointer path m in
      case function of
        None \<Rightarrow> (-1, errno_code ENOSYS)
      | Some f \<Rightarrow>
          if mapped = None then (-1, errno)
          else if flags_have_mode flags then f mapped flags (Some mode) errno
          else f mapped flags None errno)"

definition call_openat :: "environment \<Rightarrow> openat_function option \<Rightarrow> int \<Rightarrow> string option \<Rightarrow> u32 \<Rightarrow> u32 \<Rightarrow> int libc" where
  "call_openat env function directory path flags mode errno =
     (let (m, errno) = mapped_open_path env path flags errno; mapped = pointer path m in
      case function of
        None \<Rightarrow> (-1, errno_code ENOSYS)
      | Some f \<Rightarrow>
          if mapped = None then (-1, errno)
          else
            let (result, errno) = (if flags_have_mode flags then f directory mapped flags (Some mode) errno
                                   else f directory mapped flags None errno)
            in retry_openat env function directory mapped flags result errno)"

definition call_checked_open :: "environment \<Rightarrow> (string option \<Rightarrow> u32 \<Rightarrow> int libc) option \<Rightarrow> string option \<Rightarrow> u32 \<Rightarrow> int libc" where
  "call_checked_open env checked_function path flags errno =
     (let (m, errno) = mapped_open_path env path flags errno; mapped = pointer path m in
      case checked_function of
        None \<Rightarrow> (-1, errno_code ENOSYS)
      | Some f \<Rightarrow> if mapped = None then (-1, errno) else f mapped flags errno)"

definition call_checked_openat ::
  "environment \<Rightarrow> (int \<Rightarrow> string option \<Rightarrow> u32 \<Rightarrow> int libc) option \<Rightarrow> openat_function option \<Rightarrow> int \<Rightarrow> string option \<Rightarrow> u32 \<Rightarrow> int libc" where
  "call_checked_openat env checked_function fallback_function directory path flags errno =
     (let (m, errno) = mapped_open_path env path flags errno; mapped = pointer path m in
      case checked_function of
        None \<Rightarrow> (-1, errno_code ENOSYS)
      | Some f \<Rightarrow>
          if mapped = None then (-1, errno)
          else
            let (result, errno) = f directory mapped flags errno
            in retry_openat env fallback_function directory mapped flags result errno)"

definition read_only_fopen_mode :: "string option \<Rightarrow> bool" where
  "read_only_fopen_mode mode = (case mode of None \<Rightarrow> False | Some m \<Rightarrow> m \<noteq> [] \<and> hd m = CHR ''r'' \<and> CHR ''+'' \<notin> set m)"

text \<open>A stream or a directory stream is \<open>None\<close> for the null pointer.\<close>

definition call_fopen ::
  "environment \<Rightarrow> (string option \<Rightarrow> string option \<Rightarrow> 's option libc) option \<Rightarrow> string option \<Rightarrow> string option \<Rightarrow> 's option libc" where
  "call_fopen env function path mode errno =
     (let (m, errno) = (if read_only_fopen_mode mode then tgcompat_android_root_rewrite_proc env path True PATH_MAX errno else (Path, errno));
          mapped = pointer path m in
      case function of
        None \<Rightarrow> (None, errno_code ENOSYS)
      | Some f \<Rightarrow> if mapped = None then (None, errno) else f mapped mode errno)"

definition opendir :: "environment \<Rightarrow> (string option \<Rightarrow> 's option libc) option \<Rightarrow> string option \<Rightarrow> 's option libc" where
  "opendir env real_opendir path errno =
     (let (m, errno) = tgcompat_android_root_rewrite_proc env path True PATH_MAX errno; mapped = pointer path m in
      case real_opendir of
        None \<Rightarrow> (None, errno_code ENOSYS)
      | Some f \<Rightarrow> if mapped = None then (None, errno) else f mapped errno)"

abbreviation (input) W_OK :: u32 where "W_OK \<equiv> 2"

definition access :: "environment \<Rightarrow> (string option \<Rightarrow> u32 \<Rightarrow> int libc) option \<Rightarrow> string option \<Rightarrow> u32 \<Rightarrow> int libc" where
  "access env real_access path mode errno =
     (let (m, errno) = (if mode AND W_OK = 0 then tgcompat_android_root_rewrite_proc env path True PATH_MAX errno else (Path, errno));
          mapped = pointer path m in
      case real_access of
        None \<Rightarrow> (-1, errno_code ENOSYS)
      | Some f \<Rightarrow> if mapped = None then (-1, errno) else f mapped mode errno)"

definition call_stat :: "environment \<Rightarrow> (string option \<Rightarrow> int libc) option \<Rightarrow> string option \<Rightarrow> int libc" where
  "call_stat env function path errno =
     (let (m, errno) = tgcompat_android_root_rewrite_proc env path True PATH_MAX errno; mapped = pointer path m in
      case function of
        None \<Rightarrow> (-1, errno_code ENOSYS)
      | Some f \<Rightarrow> if mapped = None then (-1, errno) else f mapped errno)"

text \<open>The functions the constructor resolves, and the functions the library exports.\<close>

record 's real_functions =
  real_open :: "open_function option"
  real_open64 :: "open_function option"
  real_openat :: "openat_function option"
  real_openat64 :: "openat_function option"
  real_open_2 :: "(string option \<Rightarrow> u32 \<Rightarrow> int libc) option"
  real_open64_2 :: "(string option \<Rightarrow> u32 \<Rightarrow> int libc) option"
  real_openat_2 :: "(int \<Rightarrow> string option \<Rightarrow> u32 \<Rightarrow> int libc) option"
  real_openat64_2 :: "(int \<Rightarrow> string option \<Rightarrow> u32 \<Rightarrow> int libc) option"
  real_fopen :: "(string option \<Rightarrow> string option \<Rightarrow> 's option libc) option"
  real_fopen64 :: "(string option \<Rightarrow> string option \<Rightarrow> 's option libc) option"
  real_stat :: "(string option \<Rightarrow> int libc) option"
  real_lstat :: "(string option \<Rightarrow> int libc) option"

definition shim_open :: "environment \<Rightarrow> 's real_functions \<Rightarrow> string option \<Rightarrow> u32 \<Rightarrow> u32 \<Rightarrow> int libc" where
  "shim_open env real path flags mode = call_open env (real_open real) path flags mode"

definition shim_open64 :: "environment \<Rightarrow> 's real_functions \<Rightarrow> string option \<Rightarrow> u32 \<Rightarrow> u32 \<Rightarrow> int libc" where
  "shim_open64 env real path flags mode = call_open env (real_open64 real) path flags mode"

definition shim_openat :: "environment \<Rightarrow> 's real_functions \<Rightarrow> int \<Rightarrow> string option \<Rightarrow> u32 \<Rightarrow> u32 \<Rightarrow> int libc" where
  "shim_openat env real directory path flags mode = call_openat env (real_openat real) directory path flags mode"

definition shim_openat64 :: "environment \<Rightarrow> 's real_functions \<Rightarrow> int \<Rightarrow> string option \<Rightarrow> u32 \<Rightarrow> u32 \<Rightarrow> int libc" where
  "shim_openat64 env real directory path flags mode = call_openat env (real_openat64 real) directory path flags mode"

definition shim_open_2 :: "environment \<Rightarrow> 's real_functions \<Rightarrow> string option \<Rightarrow> u32 \<Rightarrow> int libc" where
  "shim_open_2 env real path flags = call_checked_open env (real_open_2 real) path flags"

definition shim_open64_2 :: "environment \<Rightarrow> 's real_functions \<Rightarrow> string option \<Rightarrow> u32 \<Rightarrow> int libc" where
  "shim_open64_2 env real path flags = call_checked_open env (real_open64_2 real) path flags"

definition shim_openat_2 :: "environment \<Rightarrow> 's real_functions \<Rightarrow> int \<Rightarrow> string option \<Rightarrow> u32 \<Rightarrow> int libc" where
  "shim_openat_2 env real directory path flags = call_checked_openat env (real_openat_2 real) (real_openat real) directory path flags"

definition shim_openat64_2 :: "environment \<Rightarrow> 's real_functions \<Rightarrow> int \<Rightarrow> string option \<Rightarrow> u32 \<Rightarrow> int libc" where
  "shim_openat64_2 env real directory path flags = call_checked_openat env (real_openat64_2 real) (real_openat64 real) directory path flags"

definition shim_fopen :: "environment \<Rightarrow> 's real_functions \<Rightarrow> string option \<Rightarrow> string option \<Rightarrow> 's option libc" where
  "shim_fopen env real path mode = call_fopen env (real_fopen real) path mode"

definition shim_fopen64 :: "environment \<Rightarrow> 's real_functions \<Rightarrow> string option \<Rightarrow> string option \<Rightarrow> 's option libc" where
  "shim_fopen64 env real path mode = call_fopen env (real_fopen64 real) path mode"

definition shim_stat :: "environment \<Rightarrow> 's real_functions \<Rightarrow> string option \<Rightarrow> int libc" where
  "shim_stat env real path = call_stat env (real_stat real) path"

definition shim_lstat :: "environment \<Rightarrow> 's real_functions \<Rightarrow> string option \<Rightarrow> int libc" where
  "shim_lstat env real path = call_stat env (real_lstat real) path"

subsection \<open>Rewritten paths\<close>

text \<open>The paths the shim is about: \<open>/proc/stat\<close>, and the three network directories with everything below them.\<close>

definition below :: "string \<Rightarrow> string \<Rightarrow> string \<Rightarrow> bool" where
  "below p path rest \<longleftrightarrow> path = p @ rest \<and> (rest = [] \<or> hd rest = CHR ''/'')"

lemma suffix_after_spec:
  "suffix_after ps path = Some rest \<Longrightarrow> \<exists>p\<in>set ps. below p path rest"
proof (induction ps)
  case (Cons p ps)
  let ?c = "take (length p) path = p \<and> length p < length path \<and> path ! length p = CHR ''/''"
  show ?case
  proof (cases "path = p \<or> ?c")
    case True
    then have rest: "rest = drop (length p) path" using Cons.prems by (simp split: if_splits)
    have "take (length p) path = p" using True by auto
    then have "path = p @ rest" using append_take_drop_id [of "length p" path] unfolding rest by simp
    moreover have "rest = [] \<or> hd rest = CHR ''/''" using True unfolding rest by (auto simp: hd_drop_conv_nth)
    ultimately have "below p path rest" unfolding below_def by blast
    then show ?thesis by simp
  next
    case False
    then have "suffix_after ps path = Some rest" using Cons.prems by (simp split: if_splits)
    from Cons.IH [OF this] show ?thesis by simp
  qed
qed simp

lemma suffix_after_None:
  "suffix_after ps path = None \<longleftrightarrow> (\<forall>p\<in>set ps. \<forall>rest. \<not> below p path rest)"
proof (induction ps)
  case (Cons p ps)
  have "(\<exists>rest. below p path rest) \<longleftrightarrow> path = p \<or> take (length p) path = p \<and> length p < length path \<and> path ! length p = CHR ''/''" (is "?l \<longleftrightarrow> ?r")
  proof
    assume ?l
    then obtain rest where "path = p @ rest" "rest = [] \<or> hd rest = CHR ''/''" by (auto simp: below_def)
    then show ?r by (cases rest) (auto simp: nth_append)
  next
    assume ?r
    then have "suffix_after [p] path \<noteq> None" by auto
    then show ?l using suffix_after_spec [of "[p]" path] by fastforce
  qed
  with Cons.IH show ?case by auto
qed simp

text \<open>A path has at most one of the prefixes, so the order of the table does not matter.\<close>

definition net_suffix :: "string \<Rightarrow> string \<Rightarrow> bool" where
  "net_suffix path rest \<longleftrightarrow>
     below ''/proc/net'' path rest \<or> below ''/proc/self/net'' path rest \<or> below ''/proc/thread-self/net'' path rest"

lemma net_suffix_unique: "net_suffix path rest \<Longrightarrow> net_suffix path rest' \<Longrightarrow> rest = rest'"
  by (auto simp: net_suffix_def below_def)

lemma suffix_after_prefixes: "suffix_after prefixes path = Some rest \<longleftrightarrow> net_suffix path rest"
proof
  assume "suffix_after prefixes path = Some rest"
  from suffix_after_spec [OF this] show "net_suffix path rest" by (auto simp: prefixes_def net_suffix_def)
next
  assume net: "net_suffix path rest"
  then obtain rest' where r: "suffix_after prefixes path = Some rest'"
    using suffix_after_None [of prefixes path] by (cases "suffix_after prefixes path") (auto simp: prefixes_def net_suffix_def)
  from suffix_after_spec [OF r] have "net_suffix path rest'" by (auto simp: prefixes_def net_suffix_def)
  with net net_suffix_unique r show "suffix_after prefixes path = Some rest" by blast
qed

text \<open>A directory or a file the environment may name: an absolute path other than the root that does not end in a slash.\<close>

definition usable :: "string \<Rightarrow> bool" where
  "usable target \<longleftrightarrow> (\<exists>rest. target = CHR ''/'' # rest \<and> rest \<noteq> []) \<and> last target \<noteq> CHR ''/''"

text \<open>What the environment asks for: \<open>path\<close> is to be replaced by \<open>new\<close>.\<close>

definition redirected_to :: "environment \<Rightarrow> string \<Rightarrow> string \<Rightarrow> bool" where
  "redirected_to env path new \<longleftrightarrow>
     path = ''/proc/stat'' \<and> env ''TGCOMPAT_PROC_STAT'' = Some new \<and> usable new \<or>
     (\<exists>root rest. env ''TGCOMPAT_PROC_NET'' = Some root \<and> usable root \<and> net_suffix path rest \<and> new = root @ rest)"

text \<open>The new path, or the error when it does not fit.\<close>

definition put_path :: "string \<Rightarrow> bool \<Rightarrow> nat \<Rightarrow> int \<Rightarrow> mapping \<times> int" where
  "put_path target buffer n e = (if buffer \<and> length target < n then (Output target, e) else (Null, errno_code ENAMETOOLONG))"

lemma usable_iff: "usable target \<longleftrightarrow> \<not> (target = [] \<or> hd target \<noteq> CHR ''/'') \<and> \<not> (length target < 2 \<or> target ! (length target - 1) = CHR ''/'')"
  by (cases target) (auto simp: usable_def last_conv_nth Suc_le_eq nth_Cons')

lemma rewrite_stat_spec:
  "tgcompat_android_root_rewrite_proc_stat env (Some path) buffer n e =
     (case env ''TGCOMPAT_PROC_STAT'' of None \<Rightarrow> (Path, e)
      | Some target \<Rightarrow> if path = ''/proc/stat'' \<and> usable target then put_path target buffer n e else (Path, e))"
  unfolding tgcompat_android_root_rewrite_proc_stat_def usable_iff put_path_def Let_def
  by (cases "env ''TGCOMPAT_PROC_STAT''") auto

lemma rewrite_net_spec:
  "tgcompat_android_root_rewrite_proc_net env (Some path) buffer n e =
     (case (suffix_after prefixes path, env ''TGCOMPAT_PROC_NET'') of
        (Some rest, Some target) \<Rightarrow> if usable target then put_path (target @ rest) buffer n e else (Path, e)
      | _ \<Rightarrow> (Path, e))"
  unfolding tgcompat_android_root_rewrite_proc_net_def proc_net_suffix_def usable_iff put_path_def Let_def
  by (cases "suffix_after prefixes path"; cases "env ''TGCOMPAT_PROC_NET''") auto

lemma stat_not_net [simp]: "\<not> net_suffix ''/proc/stat'' rest"
  by (auto simp: net_suffix_def below_def)

lemma rewrite_redirected:
  assumes "redirected_to env path new"
  shows "tgcompat_android_root_rewrite_proc env (Some path) buffer n e = put_path new buffer n e"
  using assms unfolding redirected_to_def
proof (elim disjE conjE exE)
  assume "path = ''/proc/stat''" "env ''TGCOMPAT_PROC_STAT'' = Some new" "usable new"
  then show ?thesis by (simp add: tgcompat_android_root_rewrite_proc_def rewrite_stat_spec pointer_def put_path_def)
next
  fix root rest
  assume net: "env ''TGCOMPAT_PROC_NET'' = Some root" "usable root" "net_suffix path rest" "new = root @ rest"
  then have "path \<noteq> ''/proc/stat''" by auto
  moreover have "suffix_after prefixes path = Some rest" using net(3) by (simp add: suffix_after_prefixes)
  ultimately show ?thesis using net
    by (simp add: tgcompat_android_root_rewrite_proc_def rewrite_stat_spec rewrite_net_spec pointer_def split: option.split)
qed

lemma rewrite_unredirected:
  assumes "\<nexists>new. redirected_to env path new"
  shows "tgcompat_android_root_rewrite_proc env (Some path) buffer n e = (Path, e)"
proof -
  have "tgcompat_android_root_rewrite_proc_stat env (Some path) buffer n e = (Path, e)"
    using assms by (auto simp: rewrite_stat_spec redirected_to_def split: option.split)
  moreover have "tgcompat_android_root_rewrite_proc_net env (Some path) buffer n e = (Path, e)"
    using assms by (auto simp: rewrite_net_spec redirected_to_def suffix_after_prefixes split: option.split)
  ultimately show ?thesis by (simp add: tgcompat_android_root_rewrite_proc_def pointer_def)
qed

text \<open>C39. A path is rewritten exactly when the environment asks for it, and exactly as it asks. If the path is \<open>/proc/stat\<close> and the
  environment names a file for it, or the path is one of the three network directories or lies below one and the environment
  names a directory, the shim returns the file, or the directory followed by the rest of the path, provided it fits the
  buffer with its terminating zero, and otherwise null with \<open>ENAMETOOLONG\<close>. In all other cases, also for a null path, it returns the
  path it was given and leaves \<open>errno\<close> alone. Only an absolute path that does not end in a slash counts as named.\<close>

theorem android_root_rewrite_exact:
  "(\<forall>new. redirected_to env path new \<longrightarrow>
      tgcompat_android_root_rewrite_proc env (Some path) buffer n e =
        (if buffer \<and> length new < n then (Output new, e) else (Null, errno_code ENAMETOOLONG))) \<and>
   ((\<nexists>new. redirected_to env path new) \<longrightarrow> tgcompat_android_root_rewrite_proc env (Some path) buffer n e = (Path, e)) \<and>
   tgcompat_android_root_rewrite_proc env None buffer n e = (Path, e)"
proof (intro conjI allI impI)
  show "tgcompat_android_root_rewrite_proc env None buffer n e = (Path, e)"
    by (simp add: tgcompat_android_root_rewrite_proc_def tgcompat_android_root_rewrite_proc_stat_def pointer_def)
qed (simp_all add: rewrite_redirected rewrite_unredirected put_path_def)

definition example_environment :: environment where
  "example_environment = [''TGCOMPAT_PROC_NET'' \<mapsto> ''/data/net'', ''TGCOMPAT_ANDROID_ROOT_O_PATH'' \<mapsto> ''1'']"

theorem android_root_rewrite_exact_witness:
  "tgcompat_android_root_rewrite_proc example_environment (Some ''/proc/self/net/tcp'') True 4096 0 = (Output ''/data/net/tcp'', 0) \<and>
   tgcompat_android_root_rewrite_proc example_environment (Some ''/proc/self/net/tcp'') True 13 0 = (Null, 36) \<and>
   tgcompat_android_root_rewrite_proc example_environment (Some ''/proc/stat'') True 4096 0 = (Path, 0)"
proof -
  have "redirected_to example_environment ''/proc/self/net/tcp'' ''/data/net/tcp''"
    by (auto simp: redirected_to_def example_environment_def net_suffix_def below_def usable_def)
  with android_root_rewrite_exact [of example_environment "''/proc/self/net/tcp''" True 4096 0]
    android_root_rewrite_exact [of example_environment "''/proc/self/net/tcp''" True 13 0]
  have "tgcompat_android_root_rewrite_proc example_environment (Some ''/proc/self/net/tcp'') True 4096 0 = (Output ''/data/net/tcp'', 0)"
    "tgcompat_android_root_rewrite_proc example_environment (Some ''/proc/self/net/tcp'') True 13 0 = (Null, 36)" by force+
  moreover have "\<nexists>new. redirected_to example_environment ''/proc/stat'' new"
    by (simp add: redirected_to_def example_environment_def)
  with android_root_rewrite_exact [of example_environment "''/proc/stat''" True 4096 0]
  have "tgcompat_android_root_rewrite_proc example_environment (Some ''/proc/stat'') True 4096 0 = (Path, 0)" by blast
  ultimately show ?thesis by blast
qed

subsection \<open>Calls that pass through\<close>

text \<open>The flags by their bits: \<open>O_CREAT\<close> is bit 6, \<open>O_DIRECTORY\<close> bit 14, \<open>O_NOFOLLOW\<close> bit 15, \<open>O_CLOEXEC\<close> bit 19, \<open>O_PATH\<close> bit 21, and
  \<open>O_TMPFILE\<close> is bit 22 with bit 14. The two lowest bits are the access mode.\<close>

definition creates :: "u32 \<Rightarrow> bool" where
  "creates flags \<longleftrightarrow> bit flags 6 \<or> bit flags 14 \<and> bit flags 22"

definition opens_for_writing :: "u32 \<Rightarrow> bool" where
  "opens_for_writing flags \<longleftrightarrow> bit flags 0 \<or> bit flags 1 \<or> creates flags"

lemma flags_have_mode_iff: "flags_have_mode flags \<longleftrightarrow> creates flags"
proof -
  have "flags AND O_TMPFILE = O_TMPFILE \<longleftrightarrow> bit flags 14 \<and> bit flags 22"
  proof
    assume t: "flags AND O_TMPFILE = O_TMPFILE"
    have "bit (flags AND O_TMPFILE) 14" "bit (flags AND O_TMPFILE) 22" unfolding t by simp_all
    then show "bit flags 14 \<and> bit flags 22" by (simp add: bit_and_iff)
  next
    assume b: "bit flags 14 \<and> bit flags 22"
    have t: "(O_TMPFILE :: u32) = 2 ^ 14 OR 2 ^ 22" by simp
    have "n = 14 \<or> n = 22" if "bit (O_TMPFILE :: u32) n" for n
      using that unfolding t bit_or_iff bit_exp_iff by auto
    with b have sub: "bit flags n" if "bit (O_TMPFILE :: u32) n" for n using that by blast
    show "flags AND O_TMPFILE = O_TMPFILE" by (rule bit_word_eqI) (unfold bit_and_iff, use sub in blast)
  qed
  then show ?thesis using and_exp_eq_0_iff_not_bit [of flags 6] by (simp add: flags_have_mode_def creates_def)
qed

lemma access_mode_iff: "flags AND O_ACCMODE = O_RDONLY \<longleftrightarrow> \<not> bit flags 0 \<and> \<not> bit flags 1"
proof -
  have "flags AND 3 = (flags AND 2 ^ 0) OR (flags AND 2 ^ 1)" by (simp add: bit.conj_disj_distrib [symmetric])
  then show ?thesis
    using and_exp_eq_0_iff_not_bit [of flags 0] and_exp_eq_0_iff_not_bit [of flags 1] by (simp add: or_eq_0_iff)
qed

lemma read_only_open_iff: "read_only_open flags \<longleftrightarrow> \<not> opens_for_writing flags"
  by (auto simp: read_only_open_def opens_for_writing_def flags_have_mode_iff access_mode_iff)

text \<open>The path on which the real function is to be called.\<close>

definition reaches :: "environment \<Rightarrow> bool \<Rightarrow> string \<Rightarrow> string \<Rightarrow> bool" where
  "reaches env writing p q \<longleftrightarrow>
     (if writing then q = p
      else redirected_to env p q \<and> length q < 4096 \<or> (\<nexists>new. redirected_to env p new) \<and> q = p)"

lemma reaches_rewrite:
  assumes "reaches env False p q"
  shows "\<exists>m. tgcompat_android_root_rewrite_proc env (Some p) True PATH_MAX e = (m, e) \<and> pointer (Some p) m = Some q"
  using assms rewrite_redirected [of env p q True PATH_MAX e] rewrite_unredirected [of env p True PATH_MAX e]
  by (auto simp: reaches_def put_path_def pointer_def)

lemma reaches_open:
  assumes "reaches env (opens_for_writing flags) p q"
  shows "\<exists>m. mapped_open_path env (Some p) flags e = (m, e) \<and> pointer (Some p) m = Some q"
proof (cases "opens_for_writing flags")
  case True
  with assms show ?thesis by (simp add: mapped_open_path_def read_only_open_iff reaches_def pointer_def)
next
  case False
  with assms reaches_rewrite [of env p q e] show ?thesis by (simp add: mapped_open_path_def read_only_open_iff)
qed

text \<open>When an attempt to open the root of the process is made again, and what the flags then are: a path reference that keeps three of
  the flags of the caller.\<close>

definition root_refused :: "environment \<Rightarrow> string \<Rightarrow> u32 \<Rightarrow> int \<times> int \<Rightarrow> bool" where
  "root_refused env q flags attempt \<longleftrightarrow>
     env ''TGCOMPAT_ANDROID_ROOT_O_PATH'' = Some ''1'' \<and> (q = ''/proc/self/root'' \<or> q = ''/proc/self/root/'') \<and>
     bit flags 14 \<and> \<not> bit flags 21 \<and> \<not> bit flags 0 \<and> \<not> bit flags 1 \<and>
     fst attempt < 0 \<and> (snd attempt = errno_code EACCES \<or> snd attempt = errno_code EPERM)"

definition path_reference :: "u32 \<Rightarrow> u32 \<Rightarrow> bool" where
  "path_reference flags flags' \<longleftrightarrow> (\<forall>i<32. bit flags' i \<longleftrightarrow> i = 21 \<or> (i = 14 \<or> i = 15 \<or> i = 19) \<and> bit flags i)"

definition retried :: "environment \<Rightarrow> openat_function \<Rightarrow> int \<Rightarrow> string \<Rightarrow> u32 \<Rightarrow> int \<times> int \<Rightarrow> int \<times> int \<Rightarrow> bool" where
  "retried env f d q flags attempt outcome \<longleftrightarrow>
     (if root_refused env q flags attempt
      then \<exists>flags'. path_reference flags flags' \<and> outcome = f d (Some q) flags' None (snd attempt)
      else outcome = attempt)"

lemma path_reference_flags: "path_reference flags (O_PATH OR (flags AND (O_CLOEXEC OR O_DIRECTORY OR O_NOFOLLOW)))"
proof -
  have "(O_PATH :: u32) = 2 ^ 21" "(O_CLOEXEC OR O_DIRECTORY OR O_NOFOLLOW :: u32) = 2 ^ 19 OR (2 ^ 14 OR 2 ^ 15)" by simp_all
  then show ?thesis
    unfolding path_reference_def by (simp only: bit_or_iff bit_and_iff bit_exp_iff) auto
qed

lemma retry_flags_spec:
  "tgcompat_android_root_retry_flags env (Some q) flags error =
     (if root_refused env q flags (-1, error) then Some (O_PATH OR (flags AND (O_CLOEXEC OR O_DIRECTORY OR O_NOFOLLOW))) else None)"
proof -
  have "flags AND O_DIRECTORY = 0 \<longleftrightarrow> \<not> bit flags 14" "flags AND O_PATH = 0 \<longleftrightarrow> \<not> bit flags 21"
    using and_exp_eq_0_iff_not_bit [of flags 14] and_exp_eq_0_iff_not_bit [of flags 21] by simp_all
  then show ?thesis
    unfolding tgcompat_android_root_retry_flags_def root_refused_def Let_def enabled_def access_mode_iff by auto
qed

lemma retry_openat_spec: "retried env f d q flags attempt (retry_openat env (Some f) d (Some q) flags (fst attempt) (snd attempt))"
proof (cases "root_refused env q flags attempt")
  case True
  then have "root_refused env q flags (-1, snd attempt)" "fst attempt < 0" by (simp_all add: root_refused_def)
  with True path_reference_flags show ?thesis by (auto simp: retried_def retry_openat_def retry_flags_spec)
next
  case False
  then have "fst attempt < 0 \<Longrightarrow> \<not> root_refused env q flags (-1, snd attempt)" by (simp add: root_refused_def)
  with False show ?thesis by (simp add: retried_def retry_openat_def retry_flags_spec Let_def split: option.split)
qed

text \<open>The third argument of \<open>open\<close>.\<close>

definition mode_argument :: "u32 \<Rightarrow> u32 \<Rightarrow> u32 option" where
  "mode_argument flags mode = (if creates flags then Some mode else None)"

lemma opens_on_reached:
  assumes "reaches env (opens_for_writing flags) p q"
  shows "call_open env (Some f) (Some p) flags mode e = f (Some q) flags (mode_argument flags mode) e"
    "call_checked_open env (Some c) (Some p) flags e = c (Some q) flags e"
    "retried env g d q flags (g d (Some q) flags (mode_argument flags mode) e)
       (call_openat env (Some g) d (Some p) flags mode e)"
    "retried env g d q flags (h d (Some q) flags e) (call_checked_openat env (Some h) (Some g) d (Some p) flags e)"
proof -
  obtain m where m: "mapped_open_path env (Some p) flags e = (m, e)" "pointer (Some p) m = Some q" using reaches_open [OF assms] by blast
  show "call_open env (Some f) (Some p) flags mode e = f (Some q) flags (mode_argument flags mode) e"
    "call_checked_open env (Some c) (Some p) flags e = c (Some q) flags e"
    by (simp_all add: call_open_def call_checked_open_def m flags_have_mode_iff mode_argument_def)
  show "retried env g d q flags (g d (Some q) flags (mode_argument flags mode) e)
       (call_openat env (Some g) d (Some p) flags mode e)"
    using retry_openat_spec [of env g d q flags "g d (Some q) flags (mode_argument flags mode) e"]
    by (cases "creates flags") (simp_all add: call_openat_def mode_argument_def m flags_have_mode_iff case_prod_beta Let_def)
  show "retried env g d q flags (h d (Some q) flags e) (call_checked_openat env (Some h) (Some g) d (Some p) flags e)"
    using retry_openat_spec [of env g d q flags "h d (Some q) flags e"] by (simp add: call_checked_openat_def m case_prod_beta Let_def)
qed

lemma fopen_on_reached:
  assumes "reaches env (\<nexists>rest. fmode = Some (CHR ''r'' # rest) \<and> CHR ''+'' \<notin> set rest) p q"
  shows "call_fopen env (Some f) (Some p) fmode e = f (Some q) fmode e"
proof -
  have mode: "read_only_fopen_mode fmode \<longleftrightarrow> (\<exists>rest. fmode = Some (CHR ''r'' # rest) \<and> CHR ''+'' \<notin> set rest)"
    by (auto simp: read_only_fopen_mode_def neq_Nil_conv split: option.splits)
  show ?thesis
  proof (cases "read_only_fopen_mode fmode")
    case True
    with assms mode reaches_rewrite [of env p q e] show ?thesis by (auto simp: call_fopen_def)
  next
    case False
    with assms mode show ?thesis by (simp add: call_fopen_def reaches_def pointer_def)
  qed
qed

lemma access_on_reached:
  assumes "reaches env (bit amode 1) p q"
  shows "access env (Some f) (Some p) amode e = f (Some q) amode e"
proof -
  have mode: "amode AND W_OK = 0 \<longleftrightarrow> \<not> bit amode 1" using and_exp_eq_0_iff_not_bit [of amode 1] by simp
  show ?thesis
  proof (cases "bit amode 1")
    case True
    with assms mode show ?thesis by (simp add: access_def reaches_def pointer_def)
  next
    case False
    with assms mode reaches_rewrite [of env p q e] show ?thesis by (auto simp: access_def)
  qed
qed

lemma reads_on_reached:
  assumes "reaches env False p q"
  shows "opendir env (Some f) (Some p) e = f (Some q) e" "call_stat env (Some g) (Some p) e = g (Some q) e"
  using reaches_rewrite [OF assms, of e] by (auto simp: opendir_def call_stat_def)

lemmas shim_functions = shim_open_def shim_open64_def shim_openat_def shim_openat64_def shim_open_2_def shim_open64_2_def shim_openat_2_def
  shim_openat64_2_def shim_fopen_def shim_fopen64_def shim_stat_def shim_lstat_def

definition resolved :: "'s real_functions \<Rightarrow> bool" where
  "resolved real \<longleftrightarrow>
     real_open real \<noteq> None \<and> real_open64 real \<noteq> None \<and> real_openat real \<noteq> None \<and> real_openat64 real \<noteq> None \<and>
     real_open_2 real \<noteq> None \<and> real_open64_2 real \<noteq> None \<and> real_openat_2 real \<noteq> None \<and> real_openat64_2 real \<noteq> None \<and>
     real_fopen real \<noteq> None \<and> real_fopen64 real \<noteq> None \<and> real_stat real \<noteq> None \<and> real_lstat real \<noteq> None"


text \<open>A C library whose \<open>openat\<close> is refused with \<open>EACCES\<close> unless it asks for a path reference only, and whose other functions succeed.\<close>

definition example_openat :: openat_function where
  "example_openat d p flags mode e = (if flags AND 0x200000 = 0 then (-1, 13) else (8, e))"

definition example_real :: "string real_functions" where
  "example_real = \<lparr>real_open = Some (example_openat 0), real_open64 = Some (example_openat 0), real_openat = Some example_openat,
     real_openat64 = Some example_openat, real_open_2 = Some (\<lambda>p flags e. (3, e)), real_open64_2 = Some (\<lambda>p flags e. (3, e)),
     real_openat_2 = Some (\<lambda>d p flags e. (3, e)), real_openat64_2 = Some (\<lambda>d p flags e. (3, e)),
     real_fopen = Some (\<lambda>p mode e. (p, e)), real_fopen64 = Some (\<lambda>p mode e. (p, e)), real_stat = Some (\<lambda>p e. (0, e)), real_lstat = Some (\<lambda>p e. (0, e))\<rparr>"


text \<open>A null path never reaches the real function, and \<open>errno\<close> is not set.\<close>

lemma null_path_keeps_errno: "read_only_open flags \<Longrightarrow> call_open env (Some f) None flags mode e = (-1, e)"
  by (simp add: call_open_def mapped_open_path_def tgcompat_android_root_rewrite_proc_def tgcompat_android_root_rewrite_proc_stat_def pointer_def)

end
