(* ===== verification/Robust.thy ===== *)
theory Robust imports TgcPrelude begin

text \<open>
  The robust-list shim: the C part (\<open>robust_shim.c\<close>), which answers \<open>get_robust_list\<close> for the calling thread,
  and the assembly part (\<open>robust_shim_aarch64.S\<close>), the replacement of the variadic \<open>syscall\<close>, as a program of a small machine.
  The C function \<open>syscall\<close> is taken with the AArch64 call numbers.
  The real \<open>syscall\<close> of the C library is a parameter.
\<close>

unbundle bit_operations_syntax

subsection \<open>The synthetic robust list\<close>

record robust_list_head =
  list_next :: u64
  futex_offset :: u64
  list_op_pending :: u64

record pthread_compatible_robust_list =
  previous :: u64
  list_head :: robust_list_head

text \<open>The variables of a thread: its list, which lies at the address \<open>base\<close>, and \<open>errno\<close>. The last field
  is the log of what the shim stored through pointers of its caller.\<close>

record robust_thread =
  synthetic_list :: pthread_compatible_robust_list
  synthetic_list_initialized :: bool
  robust_errno :: int
  stores :: "(u64 \<times> u64) list"

record robust_flags =
  tgcompat_robust_list_enabled :: bool
  tgcompat_userfaultfd_enosys_enabled :: bool

definition initialize_robust_shim :: "(string \<Rightarrow> string option) \<Rightarrow> robust_flags" where
  "initialize_robust_shim env =
     \<lparr>tgcompat_robust_list_enabled = (env ''TGCOMPAT_ROBUST_LIST'' = Some ''1''),
      tgcompat_userfaultfd_enosys_enabled = (env ''TGCOMPAT_USERFAULTFD_ENOSYS'' = Some ''1'')\<rparr>"

text \<open>The head follows the pointer to the predecessor, 8 bytes into the structure; its first field is the list.\<close>

definition current_synthetic_head :: "u64 \<Rightarrow> robust_thread \<Rightarrow> u64 \<times> robust_thread" where
  "current_synthetic_head base th =
     (base + 8,
      if synthetic_list_initialized th then th
      else th\<lparr>synthetic_list := \<lparr>previous = base + 8,
                list_head = \<lparr>list_next = base + 8, futex_offset = - 32, list_op_pending = 0\<rparr>\<rparr>,
              synthetic_list_initialized := True\<rparr>)"

definition tgcompat_emulate_get_robust_list :: "u64 \<Rightarrow> u64 \<Rightarrow> u64 \<Rightarrow> u64 \<Rightarrow> robust_thread \<Rightarrow> int \<times> robust_thread" where
  "tgcompat_emulate_get_robust_list base process head len th =
     (let saved_errno = robust_errno th in
      if process \<noteq> 0 then (1, th)
      else if head = 0 \<or> len = 0 then (-1, th\<lparr>robust_errno := errno_code EFAULT\<rparr>)
      else
        let (h, th) = current_synthetic_head base th
        in (0, th\<lparr>stores := stores th @ [(head, h), (len, 24)], robust_errno := saved_errno\<rparr>))"

definition tgcompat_syscall_enosys :: "robust_thread \<Rightarrow> int \<times> robust_thread" where
  "tgcompat_syscall_enosys th = (-1, th\<lparr>robust_errno := errno_code ENOSYS\<rparr>)"

subsection \<open>The system call function in C\<close>

text \<open>The function behind the shim is a parameter: it gets the number and six arguments. \<open>None\<close> is the null pointer.\<close>

type_synonym syscall_function = "u64 \<Rightarrow> u64 list \<Rightarrow> robust_thread \<Rightarrow> int \<times> robust_thread"

abbreviation (input) PROTON_ARM64_USERFAULTFD_SYSCALL :: u64 where "PROTON_ARM64_USERFAULTFD_SYSCALL \<equiv> 374"
abbreviation (input) SYS_userfaultfd :: u64 where "SYS_userfaultfd \<equiv> 282"
abbreviation (input) SYS_get_robust_list :: u64 where "SYS_get_robust_list \<equiv> 100"

definition forward_syscall :: "syscall_function option \<Rightarrow> u64 \<Rightarrow> u64 list \<Rightarrow> robust_thread \<Rightarrow> int \<times> robust_thread" where
  "forward_syscall real number arguments th =
     (case real of
        None \<Rightarrow> (-1, th\<lparr>robust_errno := errno_code ENOSYS\<rparr>)
      | Some f \<Rightarrow> f number arguments th)"

definition shim_syscall ::
  "robust_flags \<Rightarrow> syscall_function option \<Rightarrow> u64 \<Rightarrow> u64 \<Rightarrow> u64 list \<Rightarrow> robust_thread \<Rightarrow> int \<times> robust_thread" where
  "shim_syscall flags real base number arguments th =
     (if tgcompat_userfaultfd_enosys_enabled flags \<and> (number = PROTON_ARM64_USERFAULTFD_SYSCALL \<or> number = SYS_userfaultfd)
      then (-1, th\<lparr>robust_errno := errno_code ENOSYS\<rparr>)
      else if tgcompat_robust_list_enabled flags \<and> number = SYS_get_robust_list then
        (let (result, th) = tgcompat_emulate_get_robust_list base (arguments ! 0) (arguments ! 1) (arguments ! 2) th
         in if result \<noteq> 1 then (result, th) else forward_syscall real number arguments th)
      else forward_syscall real number arguments th)"

subsection \<open>The system call function in AArch64 assembly\<close>

datatype asm_symbol = Userfaultfd_enosys_enabled | Robust_list_enabled | Real_syscall

datatype asm_target = Label nat | To_enosys | To_emulate

datatype instruction =
    Adrp nat asm_symbol
  | Ldrb nat nat asm_symbol
  | Ldr nat nat asm_symbol
  | Cbz nat asm_target
  | Cbnz nat asm_target
  | Cmp nat u64
  | B_eq asm_target
  | B_ne asm_target
  | B asm_target
  | Mov nat nat
  | Br nat

text \<open>The local labels 1 and 2 are the positions 7 and 17. A load names its target, its base register and the symbol
  whose low twelve bits are the offset.\<close>

definition syscall_code :: "instruction list" where
  "syscall_code =
     [Adrp 8 Userfaultfd_enosys_enabled,
      Ldrb 8 8 Userfaultfd_enosys_enabled,
      Cbz 8 (Label 7),
      Cmp 0 374,
      B_eq To_enosys,
      Cmp 0 282,
      B_eq To_enosys,
      Adrp 8 Robust_list_enabled,
      Ldrb 8 8 Robust_list_enabled,
      Cbz 8 (Label 17),
      Cmp 0 100,
      B_ne (Label 17),
      Cbnz 1 (Label 17),
      Mov 0 1,
      Mov 1 2,
      Mov 2 3,
      B To_emulate,
      Adrp 8 Real_syscall,
      Ldr 8 8 Real_syscall,
      Cbz 8 To_enosys,
      Br 8]"

record machine =
  regs :: "nat \<Rightarrow> u64"
  zero_flag :: bool

text \<open>How the code is left: a tail branch to one of the two C functions, or to an address, with the registers.\<close>

datatype asm_exit = Exit_enosys | Exit_emulate "nat \<Rightarrow> u64" | Exit_address u64 "nat \<Rightarrow> u64"

datatype asm_step = Next nat machine | Leave asm_exit

fun jump :: "asm_target \<Rightarrow> machine \<Rightarrow> asm_step" where
  "jump (Label n) m = Next n m"
| "jump To_enosys m = Leave Exit_enosys"
| "jump To_emulate m = Leave (Exit_emulate (regs m))"

text \<open>\<open>addr\<close> gives the address of a symbol, \<open>mem\<close> the byte at an address. \<open>adrp\<close> makes the address of the symbol's
  page of 4096 bytes; a load adds the low twelve bits of a symbol's address to its base register.\<close>

definition page :: "u64 \<Rightarrow> u64" where
  "page a = a AND NOT 0xFFF"

definition lo12 :: "u64 \<Rightarrow> u64" where
  "lo12 a = a AND 0xFFF"

definition load64 :: "(u64 \<Rightarrow> u8) \<Rightarrow> u64 \<Rightarrow> u64" where
  "load64 mem a = word_rcat (rev (map (\<lambda>i. mem (a + i)) [0, 1, 2, 3, 4, 5, 6, 7]))"

fun asm_execute :: "(asm_symbol \<Rightarrow> u64) \<Rightarrow> (u64 \<Rightarrow> u8) \<Rightarrow> instruction \<Rightarrow> nat \<Rightarrow> machine \<Rightarrow> asm_step" where
  "asm_execute addr mem (Adrp r s) pc m = Next (pc + 1) (m\<lparr>regs := (regs m)(r := page (addr s))\<rparr>)"
| "asm_execute addr mem (Ldrb r b s) pc m =
     Next (pc + 1) (m\<lparr>regs := (regs m)(r := ucast (mem (regs m b + lo12 (addr s))))\<rparr>)"
| "asm_execute addr mem (Ldr r b s) pc m =
     Next (pc + 1) (m\<lparr>regs := (regs m)(r := load64 mem (regs m b + lo12 (addr s)))\<rparr>)"
| "asm_execute addr mem (Cbz r t) pc m = (if regs m r = 0 then jump t m else Next (pc + 1) m)"
| "asm_execute addr mem (Cbnz r t) pc m = (if regs m r \<noteq> 0 then jump t m else Next (pc + 1) m)"
| "asm_execute addr mem (Cmp r w) pc m = Next (pc + 1) (m\<lparr>zero_flag := (regs m r = w)\<rparr>)"
| "asm_execute addr mem (B_eq t) pc m = (if zero_flag m then jump t m else Next (pc + 1) m)"
| "asm_execute addr mem (B_ne t) pc m = (if \<not> zero_flag m then jump t m else Next (pc + 1) m)"
| "asm_execute addr mem (B t) pc m = jump t m"
| "asm_execute addr mem (Mov r r') pc m = Next (pc + 1) (m\<lparr>regs := (regs m)(r := regs m r')\<rparr>)"
| "asm_execute addr mem (Br r) pc m = Leave (Exit_address (regs m r) (regs m))"

fun asm_run :: "nat \<Rightarrow> (asm_symbol \<Rightarrow> u64) \<Rightarrow> (u64 \<Rightarrow> u8) \<Rightarrow> instruction list \<Rightarrow> nat \<Rightarrow> machine \<Rightarrow> asm_exit option" where
  "asm_run 0 addr mem code pc m = None"
| "asm_run (Suc fuel) addr mem code pc m =
     (if length code \<le> pc then None
      else case asm_execute addr mem (code ! pc) pc m of Next pc' m' \<Rightarrow> asm_run fuel addr mem code pc' m' | Leave e \<Rightarrow> Some e)"

text \<open>What the place it branches to does.\<close>

definition asm_result :: "syscall_function option \<Rightarrow> u64 \<Rightarrow> asm_exit \<Rightarrow> robust_thread \<Rightarrow> int \<times> robust_thread" where
  "asm_result real base exit th =
     (case exit of
        Exit_enosys \<Rightarrow> tgcompat_syscall_enosys th
      | Exit_emulate r \<Rightarrow> tgcompat_emulate_get_robust_list base (r 0) (r 1) (r 2) th
      | Exit_address a r \<Rightarrow> (the real) (r 0) (map r [1, 2, 3, 4, 5, 6]) th)"

text \<open>The variables of the shim as they are stored.\<close>

definition stored :: "(asm_symbol \<Rightarrow> u64) \<Rightarrow> (u64 \<Rightarrow> u8) \<Rightarrow> robust_flags \<Rightarrow> syscall_function option \<Rightarrow> bool" where
  "stored addr mem flags real \<longleftrightarrow>
     mem (addr Userfaultfd_enosys_enabled) = (if tgcompat_userfaultfd_enosys_enabled flags then 1 else 0) \<and>
     mem (addr Robust_list_enabled) = (if tgcompat_robust_list_enabled flags then 1 else 0) \<and>
     (load64 mem (addr Real_syscall) = 0 \<longleftrightarrow> real = None)"

lemma page_lo12 [simp]: "page a + lo12 a = a"
proof -
  have "page a AND lo12 a = 0" by (simp add: page_def lo12_def and.assoc and.left_commute)
  then have "page a + lo12 a = page a OR lo12 a" by (rule disjunctive_add_eq_or)
  also have "\<dots> = a" unfolding page_def lo12_def by (rule bit_word_eqI) (auto simp: bit_simps)
  finally show ?thesis .
qed

lemma asm_run_step:
  "asm_run (numeral n) addr mem code pc m =
     (if length code \<le> pc then None
      else case asm_execute addr mem (code ! pc) pc m of Next pc' m' \<Rightarrow> asm_run (pred_numeral n) addr mem code pc' m' | Leave e \<Rightarrow> Some e)"
  by (simp add: numeral_eq_Suc)

definition asm_exit_of :: "u64 \<Rightarrow> robust_flags \<Rightarrow> machine \<Rightarrow> asm_exit" where
  "asm_exit_of real_syscall flags m =
     (if tgcompat_userfaultfd_enosys_enabled flags \<and> (regs m 0 = 374 \<or> regs m 0 = 282) then Exit_enosys
      else if tgcompat_robust_list_enabled flags \<and> regs m 0 = 100 \<and> regs m 1 = 0
      then Exit_emulate ((regs m)(8 := 1, 0 := regs m 1, 1 := regs m 2, 2 := regs m 3))
      else if real_syscall = 0 then Exit_enosys
      else Exit_address real_syscall ((regs m)(8 := real_syscall)))"

lemma asm_run_exit:
  assumes "stored addr mem flags real"
  shows "asm_run 21 addr mem syscall_code 0 m = Some (asm_exit_of (load64 mem (addr Real_syscall)) flags m)"
  using assms
  by (simp add: asm_run_step syscall_code_def stored_def asm_exit_of_def)

text \<open>C23. The assembly is the C function: for all contents of the registers, all addresses of the variables and all states of the shim,
  the AArch64 code ends within its 21 instructions, and what it branches to returns the same result and leaves the same state as the
  portable \<open>syscall\<close> does for the number in \<open>x0\<close> and the arguments in \<open>x1\<close> to \<open>x6\<close>; and when it passes a call on, it does so with
  every register but the scratch register \<open>x8\<close> as it found it.\<close>

theorem assembly_is_c:
  assumes "stored addr mem flags real"
  shows "\<exists>exit. asm_run 21 addr mem syscall_code 0 m = Some exit \<and>
    asm_result real base exit th = shim_syscall flags real base (regs m 0) (map (regs m) [1, 2, 3, 4, 5, 6]) th \<and>
    (\<forall>a r. exit = Exit_address a r \<longrightarrow> a = load64 mem (addr Real_syscall) \<and> (\<forall>i. i \<noteq> 8 \<longrightarrow> r i = regs m i))"
  using asm_run_exit [OF assms, of m] assms
  by (auto simp: asm_exit_of_def asm_result_def shim_syscall_def forward_syscall_def tgcompat_syscall_enosys_def
      tgcompat_emulate_get_robust_list_def current_synthetic_head_def stored_def Let_def split: option.splits)

definition example_flags :: robust_flags where
  "example_flags = initialize_robust_shim [''TGCOMPAT_ROBUST_LIST'' \<mapsto> ''1'', ''TGCOMPAT_USERFAULTFD_ENOSYS'' \<mapsto> ''0'']"

definition example_symbols :: "asm_symbol \<Rightarrow> u64" where
  "example_symbols s = (case s of Userfaultfd_enosys_enabled \<Rightarrow> 0x12009 | Robust_list_enabled \<Rightarrow> 0x12008 | Real_syscall \<Rightarrow> 0x12000)"

definition example_bytes :: "u64 \<Rightarrow> u8" where
  "example_bytes a = (if a = 0x12002 then 0x7F else if a = 0x12008 then 1 else 0)"

definition example_syscall :: syscall_function where
  "example_syscall number arguments th = (int (length arguments), th)"

definition example_machine :: machine where
  "example_machine = \<lparr>regs = (\<lambda>i. if i = 0 then 282 else of_nat i), zero_flag = False\<rparr>"

definition example_robust_thread :: robust_thread where
  "example_robust_thread = \<lparr>synthetic_list = \<lparr>previous = 0, list_head = \<lparr>list_next = 0, futex_offset = 0, list_op_pending = 0\<rparr>\<rparr>,
     synthetic_list_initialized = False, robust_errno = 5, stores = []\<rparr>"

theorem assembly_is_c_witness:
  "\<exists>exit. asm_run 21 example_symbols example_bytes syscall_code 0 example_machine = Some exit \<and>
     asm_result (Some example_syscall) 4096 exit example_robust_thread = (6, example_robust_thread) \<and>
     (\<forall>a r. exit = Exit_address a r \<longrightarrow> a = 0x7F0000)"
proof -
  have load: "load64 example_bytes (example_symbols Real_syscall) = 0x7F0000"
    by code_simp
  then have "stored example_symbols example_bytes example_flags (Some example_syscall)"
    by (simp add: stored_def example_symbols_def example_bytes_def example_flags_def initialize_robust_shim_def)
  from assembly_is_c [OF this, of example_machine 4096 example_robust_thread] load show ?thesis
    by (auto simp: shim_syscall_def example_flags_def initialize_robust_shim_def example_machine_def forward_syscall_def example_syscall_def)
qed

text \<open>The emulated call tells a thread about one list for all its life. It hands out the address of the head and the size of the kernel's
  structure and leaves \<open>errno\<close> alone; the first call makes the list an empty ring with the futex offset of the C library, its
  predecessor field directly before the head pointing to it too; every later call gives the same address and does not touch the
  list, whatever the program has linked into it.\<close>

lemma robust_list_is_stable:
  assumes "tgcompat_emulate_get_robust_list base 0 head len th = (0, th')"
  shows "stores th' = stores th @ [(head, base + 8), (len, 24)] \<and> robust_errno th' = robust_errno th \<and> synthetic_list_initialized th' \<and>
    (if synthetic_list_initialized th then synthetic_list th' = synthetic_list th
     else previous (synthetic_list th') = base + 8 \<and> list_next (list_head (synthetic_list th')) = base + 8 \<and>
       sint (futex_offset (list_head (synthetic_list th'))) = -32 \<and> list_op_pending (list_head (synthetic_list th')) = 0) \<and>
    (\<forall>l head' len'. head' \<noteq> 0 \<and> len' \<noteq> 0 \<longrightarrow>
      tgcompat_emulate_get_robust_list base 0 head' len' (th'\<lparr>synthetic_list := l\<rparr>) =
        (0, th'\<lparr>synthetic_list := l, stores := stores th' @ [(head', base + 8), (len', 24)]\<rparr>))"
  using assms
  by (auto simp: tgcompat_emulate_get_robust_list_def current_synthetic_head_def Let_def split: if_splits)

end
