(* ===== verification/Elf.thy ===== *)
theory Elf imports TgcPrelude begin

text \<open>
  The reader of ELF headers of the exec shim (\<open>read_exact_at\<close> and \<open>read_elf_interpreter\<close> of \<open>exec_shim.c\<close>), for a 64-bit AArch64 host.
  A file is its bytes and the way the calls of \<open>pread\<close> on it turn out; its bytes do not change while it is read. The machine
  checks are done on words, the specification \<open>elf_interpreter\<close> on unbounded numbers.
\<close>

unbundle bit_operations_syntax

subsection \<open>Reading a file\<close>

text \<open>A call of \<open>pread\<close> fails with an error number, or transfers some of the bytes that are there, at least one, or none
  at the end of the file. After the events given, every call transfers all it is asked for.\<close>

datatype pread_event = Fails int | Transfers nat

abbreviation (input) INT64_MAX :: nat where "INT64_MAX \<equiv> 9223372036854775807"

definition next_event :: "pread_event list \<Rightarrow> nat \<Rightarrow> pread_event" where
  "next_event events count = (case events of [] \<Rightarrow> Transfers count | e # _ \<Rightarrow> e)"

definition pread :: "u8 list \<Rightarrow> nat \<Rightarrow> nat \<Rightarrow> pread_event \<Rightarrow> int + u8 list" where
  "pread content count offset event =
     (case event of
        Fails e \<Rightarrow> Inl e
      | Transfers n \<Rightarrow> Inr (take (min count (max 1 n)) (drop offset content)))"

text \<open>The loop of \<open>read_exact_at\<close>; \<open>buffer\<close> is what it has consumed.\<close>

function read_loop :: "u8 list \<Rightarrow> nat \<Rightarrow> nat \<Rightarrow> u8 list \<Rightarrow> pread_event list \<Rightarrow> u8 list option \<times> pread_event list" where
  "read_loop content offset len buffer events =
     (if len \<le> length buffer then (Some buffer, events)
      else case pread content (len - length buffer) (offset + length buffer) (next_event events (len - length buffer)) of
        Inl e \<Rightarrow> if e = errno_code EINTR then read_loop content offset len buffer (tl events) else (None, tl events)
      | Inr bytes \<Rightarrow> if bytes = [] then (None, tl events) else read_loop content offset len (buffer @ bytes) (tl events))"
  by pat_completeness auto
termination
  by (relation "measure (\<lambda>(content, offset, len, buffer, events). length events + (len - length buffer))")
    (auto simp: pread_def next_event_def split: list.splits pread_event.splits)

declare read_loop.simps [simp del]

definition read_exact_at :: "u8 list \<Rightarrow> nat \<Rightarrow> int \<Rightarrow> pread_event list \<Rightarrow> u8 list option \<times> pread_event list" where
  "read_exact_at content len offset events =
     (if offset < 0 \<or> INT64_MAX < len \<or> INT64_MAX - len < nat offset then (None, events)
      else read_loop content (nat offset) len [] events)"

subsection \<open>The interpreter of an ELF file\<close>

text \<open>The structures are read as they lie in memory, on a little-endian host.\<close>

fun little_endian :: "u8 list \<Rightarrow> nat" where
  "little_endian [] = 0"
| "little_endian (b # bs) = unat b + 256 * little_endian bs"

definition field :: "u8 list \<Rightarrow> nat \<Rightarrow> nat \<Rightarrow> nat" where
  "field bytes offset width = little_endian (take width (drop offset bytes))"

definition e_machine :: "u8 list \<Rightarrow> u16" where "e_machine h = of_nat (field h 18 2)"
definition e_phoff :: "u8 list \<Rightarrow> u64" where "e_phoff h = of_nat (field h 32 8)"
definition e_phentsize :: "u8 list \<Rightarrow> u16" where "e_phentsize h = of_nat (field h 54 2)"
definition e_phnum :: "u8 list \<Rightarrow> u16" where "e_phnum h = of_nat (field h 56 2)"
definition p_type :: "u8 list \<Rightarrow> u32" where "p_type ph = of_nat (field ph 0 4)"
definition p_offset :: "u8 list \<Rightarrow> u64" where "p_offset ph = of_nat (field ph 8 8)"
definition p_filesz :: "u8 list \<Rightarrow> u64" where "p_filesz ph = of_nat (field ph 32 8)"

text \<open>A file as the calls \<open>open\<close>, \<open>fstat\<close> and \<open>pread\<close> show it.\<close>

record elf_file =
  fstat_answer :: int
  is_regular :: bool
  file_content :: "u8 list"
  file_events :: "pread_event list"

definition st_size :: "elf_file \<Rightarrow> u64" where
  "st_size f = of_nat (length (file_content f))"

datatype descriptor_event = Opened | Closed

definition header_rejected :: "u8 list \<Rightarrow> bool" where
  "header_rejected h \<longleftrightarrow>
     take 4 h \<noteq> [0x7f, 0x45, 0x4c, 0x46] \<or> h ! 4 \<noteq> 2 \<or> h ! 5 \<noteq> 1 \<or> e_machine h \<noteq> 183 \<or> e_phentsize h \<noteq> 56 \<or>
     e_phnum h = 0 \<or> 128 < e_phnum h"

definition table_rejected :: "u8 list \<Rightarrow> u64 \<Rightarrow> bool" where
  "table_rejected h file_size \<longleftrightarrow>
     of_nat INT64_MAX < e_phoff h \<or>
     (of_nat INT64_MAX - e_phoff h) div 56 < ucast (e_phnum h) \<or>
     file_size < e_phoff h + ucast (e_phnum h) * 56"

text \<open>The loop over the program headers; the list holds the indices still to come.\<close>

fun find_interpreter :: "elf_file \<Rightarrow> nat \<Rightarrow> u64 \<Rightarrow> nat list \<Rightarrow> pread_event list \<Rightarrow> u8 list option" where
  "find_interpreter f capacity phoff [] events = None"
| "find_interpreter f capacity phoff (index # rest) events =
     (case read_exact_at (file_content f) 56 (sint phoff + int (index * 56)) events of
        (None, events) \<Rightarrow> None
      | (Some ph, events) \<Rightarrow>
          if p_type ph \<noteq> 3 then find_interpreter f capacity phoff rest events
          else if p_filesz ph < 2 \<or> of_nat capacity < p_filesz ph \<or> of_nat INT64_MAX < p_offset ph \<or>
            st_size f < p_offset ph + p_filesz ph
          then None
          else case read_exact_at (file_content f) (unat (p_filesz ph)) (sint (p_offset ph)) events of
            (None, events) \<Rightarrow> None
          | (Some interpreter, events) \<Rightarrow> if interpreter ! (unat (p_filesz ph) - 1) \<noteq> 0 then None else Some interpreter)"

text \<open>\<open>None\<close> for the file is a failed \<open>open\<close>; \<open>None\<close> as result is \<open>false\<close>, otherwise the bytes written to \<open>interpreter\<close>.\<close>

definition read_elf_interpreter :: "elf_file option \<Rightarrow> nat \<Rightarrow> u8 list option \<times> descriptor_event list" where
  "read_elf_interpreter descriptor capacity =
     (case descriptor of
        None \<Rightarrow> (None, [])
      | Some f \<Rightarrow>
          if fstat_answer f \<noteq> 0 \<or> \<not> is_regular f then (None, [Opened, Closed])
          else case read_exact_at (file_content f) 64 0 (file_events f) of
            (None, events) \<Rightarrow> (None, [Opened, Closed])
          | (Some h, events) \<Rightarrow>
              if header_rejected h then (None, [Opened, Closed])
              else if table_rejected h (st_size f) then (None, [Opened, Closed])
              else (find_interpreter f capacity (e_phoff h) [0..<unat (e_phnum h)] events, [Opened, Closed]))"

subsection \<open>Reads under interruptions\<close>

definition undisturbed :: "pread_event list \<Rightarrow> bool" where
  "undisturbed events \<longleftrightarrow> (\<forall>e. Fails e \<in> set events \<longrightarrow> e = errno_code EINTR)"

lemma next_event_undisturbed: "undisturbed events \<Longrightarrow> next_event events n = Fails e \<Longrightarrow> e = errno_code EINTR"
  by (auto simp: undisturbed_def next_event_def split: list.splits)

lemma undisturbed_tl: "undisturbed events \<Longrightarrow> undisturbed (tl events)"
  by (cases events) (auto simp: undisturbed_def)

lemma pread_chunk:
  assumes "pread content count off event = Inr bytes" "0 < count" "off \<le> length content"
  shows "bytes = take (length bytes) (drop off content)" "length bytes \<le> count" "bytes = [] \<longleftrightarrow> off = length content"
  using assms by (auto simp: pread_def min_def max_def split: pread_event.splits if_splits)

text \<open>A read gives the bytes of the file at its place, or nothing; and it gives them when the file has them and no call fails for good.\<close>

lemma read_loop_spec:
  assumes "buffer = take (length buffer) (drop offset content)" "offset + length buffer \<le> length content" "length buffer \<le> len"
  shows "(fst (read_loop content offset len buffer events) = None \<or>
      offset + len \<le> length content \<and> fst (read_loop content offset len buffer events) = Some (take len (drop offset content))) \<and>
    (undisturbed events \<longrightarrow> undisturbed (snd (read_loop content offset len buffer events)) \<and>
      (offset + len \<le> length content \<longrightarrow> fst (read_loop content offset len buffer events) \<noteq> None))"
  using assms
proof (induction content offset len buffer events rule: read_loop.induct)
  case (1 content offset len buffer events)
  let ?answer = "pread content (len - length buffer) (offset + length buffer) (next_event events (len - length buffer))"
  consider "len = length buffer" | "length buffer < len" using "1.prems"(3) by linarith
  then show ?case
  proof cases
    case 1
    then show ?thesis using "1.prems" by (simp add: read_loop.simps)
  next
    case 2
    then have more: "\<not> len \<le> length buffer" by simp
    show ?thesis
    proof (cases ?answer)
      case (Inl e)
      then have failed: "next_event events (len - length buffer) = Fails e" by (simp add: pread_def split: pread_event.splits)
      show ?thesis
      proof (cases "e = errno_code EINTR")
        case True
        with Inl more "1.IH"(1) [OF more Inl] "1.prems" show ?thesis
          by (simp add: read_loop.simps [of content offset len buffer] undisturbed_tl)
      next
        case False
        then have "\<not> undisturbed events" using next_event_undisturbed failed by blast
        with False Inl more show ?thesis by (simp add: read_loop.simps [of content offset len buffer])
      qed
    next
      case (Inr bytes)
      note chunk = pread_chunk [OF Inr] 
      show ?thesis
      proof (cases "bytes = []")
        case True
        with chunk 2 "1.prems" have "offset + length buffer = length content" by simp
        with True Inr more 2 show ?thesis by (simp add: read_loop.simps [of content offset len buffer] undisturbed_tl)
      next
        case False
        have len: "length (buffer @ bytes) \<le> len" using chunk(2) 2 "1.prems" by simp
        have b: "bytes = take (length bytes) (drop (length buffer) (drop offset content))"
          using chunk(1) 2 "1.prems" by (simp add: add.commute)
        then have "length bytes \<le> length content - (offset + length buffer)" by (metis diff_diff_left drop_drop length_drop length_take min.cobounded1 min_def)
        then have fits: "offset + length (buffer @ bytes) \<le> length content" using "1.prems"(2) by simp
        have "buffer @ bytes = take (length (buffer @ bytes)) (drop offset content)"
          using b "1.prems"(1) by (metis length_append take_add)
        from "1.IH"(2) [OF more Inr False this fits len] show ?thesis
          using Inr False more by (simp add: read_loop.simps [of content offset len buffer] undisturbed_tl)
      qed
    qed
  qed
qed

lemma read_exact_at_cases:
  assumes "off + len \<le> length content" "length content \<le> INT64_MAX"
  obtains events' where "read_exact_at content len (int off) events = (Some (take len (drop off content)), events')"
      "undisturbed events \<Longrightarrow> undisturbed events'"
    | events' where "read_exact_at content len (int off) events = (None, events')" "\<not> undisturbed events"
proof -
  have "read_exact_at content len (int off) events = read_loop content off len [] events"
  proof -
    have "\<not> INT64_MAX < len" "\<not> INT64_MAX - len < off" using assms by linarith+
    then show ?thesis by (simp add: read_exact_at_def)
  qed
  moreover have "fst (read_loop content off len [] events) = None \<and> \<not> undisturbed events \<or>
      fst (read_loop content off len [] events) = Some (take len (drop off content)) \<and>
      (undisturbed events \<longrightarrow> undisturbed (snd (read_loop content off len [] events)))"
    using read_loop_spec [of "[]" off content len events] assms by auto
  ultimately show thesis using that by (cases "read_loop content off len [] events") auto
qed

lemma read_exact_at_beyond:
  assumes "off \<le> length content" "length content < off + len"
  shows "fst (read_exact_at content len (int off) events) = None"
  using read_loop_spec [of "[]" off content len events] assms by (auto simp: read_exact_at_def)

subsection \<open>What the reader finds\<close>

lemma little_endian_less: "little_endian bs < 256 ^ length bs"
proof (induction bs)
  case (Cons b bs)
  have "unat b < 256" by (rule order_less_le_trans [OF unsigned_less]) simp
  with Cons show ?case by simp
qed simp

lemma field_less: "field bytes offset width < 256 ^ width"
proof -
  have "field bytes offset width < 256 ^ length (take width (drop offset bytes))"
    unfolding field_def by (rule little_endian_less)
  also have "\<dots> \<le> 256 ^ width" by (rule power_increasing) simp_all
  finally show ?thesis .
qed

lemma field_slice: "a + w \<le> n \<Longrightarrow> field (take n (drop off bytes)) a w = field bytes (off + a) w"
  by (simp add: field_def drop_take min_def add.commute)

lemma unat_field [simp]:
  "unat (of_nat (field bytes off 2) :: u16) = field bytes off 2"
  "unat (of_nat (field bytes off 4) :: u32) = field bytes off 4"
  "unat (of_nat (field bytes off 8) :: u64) = field bytes off 8"
  using field_less [of bytes off 2] field_less [of bytes off 4] field_less [of bytes off 8]
  by (simp_all add: unat_of_nat)

lemma sint_small: "unat (w::u64) \<le> INT64_MAX \<Longrightarrow> sint w = int (unat w)"
proof -
  assume "unat w \<le> INT64_MAX"
  then have "int (unat w) \<le> int INT64_MAX" by (rule of_nat_mono)
  moreover have "- 9223372036854775808 \<le> int (unat w)" by linarith
  ultimately show ?thesis using sint_word_of_int_64 [of "int (unat w)"] unfolding in_i64_def by simp
qed

lemma unat_le_numeral: "(w::u64) \<le> of_nat n \<longleftrightarrow> unat w \<le> n" if "n \<le> INT64_MAX"
  using that by (simp add: word_le_nat_alt unat_of_nat)

text \<open>The interpreter a file names, in unbounded arithmetic: the bytes of the first program header of type 3, when they lie in the file,
  fit the buffer and end with a zero.\<close>

definition interpreter_at :: "u8 list \<Rightarrow> nat \<Rightarrow> nat \<Rightarrow> u8 list option" where
  "interpreter_at content capacity base =
     (let start = field content (base + 8) 8; n = field content (base + 32) 8
      in if 2 \<le> n \<and> n \<le> capacity \<and> start + n \<le> length content \<and> content ! (start + n - 1) = 0
         then Some (take n (drop start content)) else None)"

definition first_interpreter :: "u8 list \<Rightarrow> nat \<Rightarrow> nat \<Rightarrow> nat list \<Rightarrow> u8 list option" where
  "first_interpreter content capacity table indices =
     (case find (\<lambda>i. field content (table + i * 56) 4 = 3) indices of
        None \<Rightarrow> None | Some i \<Rightarrow> interpreter_at content capacity (table + i * 56))"

definition elf_interpreter :: "u8 list \<Rightarrow> nat \<Rightarrow> u8 list option" where
  "elf_interpreter content capacity =
     (let table = field content 32 8; n = field content 56 2
      in if 64 \<le> length content \<and> take 4 content = [0x7f, 0x45, 0x4c, 0x46] \<and> content ! 4 = 2 \<and> content ! 5 = 1 \<and>
           field content 18 2 = 183 \<and> field content 54 2 = 56 \<and> 0 < n \<and> n \<le> 128 \<and> table + n * 56 \<le> length content
         then first_interpreter content capacity table [0..<n] else None)"

lemma interpreter_accepted:
  assumes "length content \<le> INT64_MAX" "capacity \<le> INT64_MAX" "length ph = 56"
  shows "\<not> (p_filesz ph < 2 \<or> of_nat capacity < p_filesz ph \<or> of_nat INT64_MAX < p_offset ph \<or> of_nat (length content) < p_offset ph + p_filesz ph) \<longleftrightarrow>
    2 \<le> field ph 32 8 \<and> field ph 32 8 \<le> capacity \<and> field ph 8 8 + field ph 32 8 \<le> length content"
proof -
  have sz: "\<not> p_filesz ph < 2 \<longleftrightarrow> 2 \<le> field ph 32 8" "\<not> of_nat capacity < p_filesz ph \<longleftrightarrow> field ph 32 8 \<le> capacity"
    using assms by (simp_all add: p_filesz_def not_less unat_le_numeral word_le_nat_alt [of 2])
  have off: "\<not> of_nat INT64_MAX < p_offset ph \<longleftrightarrow> field ph 8 8 \<le> INT64_MAX"
    unfolding p_offset_def not_less by (subst unat_le_numeral) simp_all
  have sum: "\<not> of_nat (length content) < p_offset ph + p_filesz ph \<longleftrightarrow> field ph 8 8 + field ph 32 8 \<le> length content"
    if "field ph 8 8 \<le> INT64_MAX" "field ph 32 8 \<le> capacity"
  proof -
    have "unat (p_offset ph + p_filesz ph) = field ph 8 8 + field ph 32 8"
      using that assms by (simp add: p_offset_def p_filesz_def unat_word_ariths)
    then show ?thesis using assms by (simp add: not_less unat_le_numeral)
  qed
  have "field ph 8 8 + field ph 32 8 \<le> length content \<Longrightarrow> field ph 8 8 \<le> INT64_MAX" using assms(1) by linarith
  with sz off sum show ?thesis by blast
qed

lemma header_slice:
  "64 \<le> length content \<Longrightarrow> header_rejected (take 64 content) \<longleftrightarrow>
     \<not> (take 4 content = [0x7f, 0x45, 0x4c, 0x46] \<and> content ! 4 = 2 \<and> content ! 5 = 1 \<and> field content 18 2 = 183 \<and>
       field content 54 2 = 56 \<and> 0 < field content 56 2 \<and> field content 56 2 \<le> 128)"
  using field_slice [of 18 2 64 0 content] field_slice [of 54 2 64 0 content] field_slice [of 56 2 64 0 content]
  by (auto simp: header_rejected_def e_machine_def e_phentsize_def e_phnum_def word_unat_eq_iff word_less_nat_alt)

lemma table_accepted:
  assumes "64 \<le> length content" "length content \<le> INT64_MAX" "field content 56 2 \<le> 128"
  shows "table_rejected (take 64 content) (of_nat (length content)) \<longleftrightarrow> length content < field content 32 8 + field content 56 2 * 56"
proof -
  let ?h = "take 64 content" let ?n = "field content 56 2" let ?o = "field content 32 8"
  have o: "unat (e_phoff ?h) = ?o" using field_slice [of 32 8 64 0 content] by (simp add: e_phoff_def)
  have n: "unat (ucast (e_phnum ?h) :: u64) = ?n"
    using field_slice [of 56 2 64 0 content] order_le_less_trans [OF assms(3), of "2 ^ 64"]
    by (simp add: e_phnum_def unsigned_ucast_eq take_bit_nat_eq_self)
  show ?thesis
  proof (cases "?o \<le> INT64_MAX")
    case False
    then show ?thesis using o assms by (simp add: table_rejected_def word_less_nat_alt)
  next
    case True
    have quotient: "unat ((of_nat INT64_MAX - e_phoff ?h) div 56) = (INT64_MAX - ?o) div 56"
      using True o by (simp add: unat_div_distrib unat_sub word_le_nat_alt)
    have "unat (ucast (e_phnum ?h) * 56 :: u64) = ?n * 56"
      using n assms by (simp add: unat_word_ariths)
    then have sum: "unat (e_phoff ?h + ucast (e_phnum ?h) * 56) = ?o + ?n * 56"
      using o True assms by (simp add: unat_word_ariths)
    have size: "unat (of_nat (length content) :: u64) = length content" using assms by (simp add: unat_of_nat)
    have "(INT64_MAX - ?o) div 56 < ?n \<longleftrightarrow> INT64_MAX - ?o < ?n * 56" by (simp add: div_less_iff_less_mult)
    with True o n quotient sum size show ?thesis
      unfolding table_rejected_def word_less_nat_alt using assms by auto
  qed
qed

lemma find_interpreter_spec:
  assumes "length (file_content f) \<le> INT64_MAX" "capacity \<le> INT64_MAX"
    and "\<forall>i\<in>set indices. unat phoff + i * 56 + 56 \<le> length (file_content f)"
  shows "(undisturbed events \<longrightarrow> find_interpreter f capacity phoff indices events = first_interpreter (file_content f) capacity (unat phoff) indices) \<and>
    (find_interpreter f capacity phoff indices events = None \<or>
     find_interpreter f capacity phoff indices events = first_interpreter (file_content f) capacity (unat phoff) indices)"
  using assms(3)
proof (induction indices arbitrary: events)
  case (Cons i indices)
  let ?c = "file_content f" let ?base = "unat phoff + i * 56"
  let ?ph = "take 56 (drop ?base ?c)"
  have fits: "?base + 56 \<le> length ?c" using Cons.prems by simp
  then have small: "unat phoff \<le> INT64_MAX" using assms(1) by linarith
  have at: "sint phoff + int (i * 56) = int ?base" using sint_small [OF small] by simp
  have len: "length ?ph = 56" using fits by simp
  have type: "p_type ?ph = 3 \<longleftrightarrow> field ?c ?base 4 = 3"
    using field_slice [of 0 4 56 ?base ?c] by (simp add: p_type_def word_unat_eq_iff)
  have fields: "unat (p_filesz ?ph) = field ?c (?base + 32) 8" "unat (p_offset ?ph) = field ?c (?base + 8) 8"
    "field ?ph 32 8 = field ?c (?base + 32) 8" "field ?ph 8 8 = field ?c (?base + 8) 8"
    by (simp_all add: p_filesz_def p_offset_def field_slice)
  note accepted = interpreter_accepted [OF assms(1,2) len, unfolded fields]
  from read_exact_at_cases [OF fits assms(1), of events]
  show ?case
  proof cases
    case (1 events')
    show ?thesis
    proof (cases "p_type ?ph = 3")
      case False
      with 1 at type Cons.IH [of events'] Cons.prems show ?thesis by (simp add: first_interpreter_def del: of_nat_add of_nat_mult)
    next
      case True
      let ?n = "field ?c (?base + 32) 8" let ?s = "field ?c (?base + 8) 8"
      have step: "find_interpreter f capacity phoff (i # indices) events =
          (if \<not> (2 \<le> ?n \<and> ?n \<le> capacity \<and> ?s + ?n \<le> length ?c) then None
           else case read_exact_at ?c ?n (sint (p_offset ?ph)) events' of
             (None, events) \<Rightarrow> None
           | (Some interpreter, events) \<Rightarrow> if interpreter ! (?n - 1) \<noteq> 0 then None else Some interpreter)"
        using True by (simp add: at 1 st_size_def accepted [symmetric] fields del: of_nat_add of_nat_mult split: prod.split option.split)
      show ?thesis
      proof (cases "2 \<le> ?n \<and> ?n \<le> capacity \<and> ?s + ?n \<le> length ?c")
        case False
        with step True type show ?thesis by (auto simp: first_interpreter_def interpreter_at_def Let_def)
      next
        case ok: True
        then have "sint (p_offset ?ph) = int ?s" using sint_small [of "p_offset ?ph"] fields assms(1) by simp
        with step ok have step: "find_interpreter f capacity phoff (i # indices) events =
          (case read_exact_at ?c ?n (int ?s) events' of
             (None, events) \<Rightarrow> None
           | (Some interpreter, events) \<Rightarrow> if interpreter ! (?n - 1) \<noteq> 0 then None else Some interpreter)" by simp
        have "take ?n (drop ?s ?c) ! (?n - 1) = ?c ! (?s + ?n - 1)" using ok by simp
        then have spec: "first_interpreter ?c capacity (unat phoff) (i # indices) =
            (if take ?n (drop ?s ?c) ! (?n - 1) \<noteq> 0 then None else Some (take ?n (drop ?s ?c)))"
          using ok True type by (simp add: first_interpreter_def interpreter_at_def)
        have "?s + ?n \<le> length ?c" using ok by simp
        from read_exact_at_cases [OF this assms(1), of events'] show ?thesis
          by cases (use step spec 1(2) in \<open>auto simp del: find_interpreter.simps\<close>)
      qed
    qed
  next
    case (2 events')
    then show ?thesis by (simp add: at del: of_nat_add of_nat_mult)
  qed
qed (simp add: first_interpreter_def)

lemma find_in_table:
  assumes "length (file_content f) \<le> INT64_MAX" "capacity \<le> INT64_MAX"
    and "field (file_content f) 32 8 + field (file_content f) 56 2 * 56 \<le> length (file_content f)"
  shows "(undisturbed events \<longrightarrow>
      find_interpreter f capacity (e_phoff (take 64 (file_content f))) [0..<unat (e_phnum (take 64 (file_content f)))] events =
      first_interpreter (file_content f) capacity (field (file_content f) 32 8) [0..<field (file_content f) 56 2]) \<and>
    (find_interpreter f capacity (e_phoff (take 64 (file_content f))) [0..<unat (e_phnum (take 64 (file_content f)))] events = None \<or>
      find_interpreter f capacity (e_phoff (take 64 (file_content f))) [0..<unat (e_phnum (take 64 (file_content f)))] events =
      first_interpreter (file_content f) capacity (field (file_content f) 32 8) [0..<field (file_content f) 56 2])"
proof -
  let ?c = "file_content f"
  have o: "unat (e_phoff (take 64 ?c)) = field ?c 32 8" using field_slice [of 32 8 64 0 ?c] by (simp add: e_phoff_def)
  have n: "unat (e_phnum (take 64 ?c)) = field ?c 56 2" using field_slice [of 56 2 64 0 ?c] by (simp add: e_phnum_def)
  have "\<forall>i\<in>set [0..<field ?c 56 2]. unat (e_phoff (take 64 ?c)) + i * 56 + 56 \<le> length ?c"
  proof
    fix i assume "i \<in> set [0..<field ?c 56 2]"
    then have "i + 1 \<le> field ?c 56 2" by simp
    then have "(i + 1) * 56 \<le> field ?c 56 2 * 56" by (rule mult_le_mono1)
    then show "unat (e_phoff (take 64 ?c)) + i * 56 + 56 \<le> length ?c" using assms(3) by (simp add: o)
  qed
  from find_interpreter_spec [OF assms(1,2) this, of events, unfolded o] show ?thesis unfolding n .
qed

lemma read_elf_interpreter_spec:
  assumes "length (file_content f) \<le> INT64_MAX" "capacity \<le> INT64_MAX" "fstat_answer f = 0" "is_regular f"
  shows "(undisturbed (file_events f) \<longrightarrow> fst (read_elf_interpreter (Some f) capacity) = elf_interpreter (file_content f) capacity) \<and>
    (fst (read_elf_interpreter (Some f) capacity) = None \<or>
     fst (read_elf_interpreter (Some f) capacity) = elf_interpreter (file_content f) capacity)"
proof (cases "64 \<le> length (file_content f)")
  case False
  then have "fst (read_exact_at (file_content f) 64 0 (file_events f)) = None"
    using read_exact_at_beyond [of 0 "file_content f" 64 "file_events f"] by simp
  with False assms show ?thesis
    by (auto simp: read_elf_interpreter_def elf_interpreter_def split: prod.splits)
next
  case long: True
  let ?c = "file_content f"
  have fits: "0 + 64 \<le> length ?c" using long by simp
  from read_exact_at_cases [OF fits assms(1), of "file_events f"] show ?thesis
  proof cases
    case (1 events)
    then have read: "read_exact_at ?c 64 0 (file_events f) = (Some (take 64 ?c), events)" by simp
    show ?thesis
    proof (cases "header_rejected (take 64 ?c) \<or> length ?c < field ?c 32 8 + field ?c 56 2 * 56")
      case True
      with read long assms show ?thesis
        by (auto simp: read_elf_interpreter_def elf_interpreter_def Let_def header_slice [OF long] st_size_def table_accepted [OF long assms(1)])
    next
      case False
      then have ok: "\<not> header_rejected (take 64 ?c)" "\<not> table_rejected (take 64 ?c) (st_size f)"
        using header_slice [OF long] table_accepted [OF long assms(1)] by (auto simp: st_size_def)
      have spec: "elf_interpreter ?c capacity = first_interpreter ?c capacity (field ?c 32 8) [0..<field ?c 56 2]"
        using False long header_slice [OF long] by (simp add: elf_interpreter_def)
      have "(undisturbed events \<longrightarrow> find_interpreter f capacity (e_phoff (take 64 ?c)) [0..<unat (e_phnum (take 64 ?c))] events =
          elf_interpreter ?c capacity) \<and>
        (find_interpreter f capacity (e_phoff (take 64 ?c)) [0..<unat (e_phnum (take 64 ?c))] events = None \<or>
         find_interpreter f capacity (e_phoff (take 64 ?c)) [0..<unat (e_phnum (take 64 ?c))] events = elf_interpreter ?c capacity)"
        unfolding spec by (rule find_in_table [OF assms(1,2)]) (use False in simp)
      with read ok assms(3,4) 1(2) show ?thesis by (simp add: read_elf_interpreter_def)
    qed
  next
    case (2 events)
    then show ?thesis using assms by (simp add: read_elf_interpreter_def)
  qed
qed

lemma elf_interpreter_slice:
  assumes "elf_interpreter content capacity = Some bytes"
  shows "length bytes \<le> capacity" "0 \<in> set bytes"
    "\<exists>start. start + length bytes \<le> length content \<and> bytes = take (length bytes) (drop start content)"
proof -
  obtain base where base: "interpreter_at content capacity base = Some bytes"
    using assms by (auto simp: elf_interpreter_def first_interpreter_def Let_def split: if_splits option.splits)
  define start where "start = field content (base + 8) 8"
  define n where "n = field content (base + 32) 8"
  have b: "2 \<le> n" "n \<le> capacity" "start + n \<le> length content" "content ! (start + n - 1) = 0" "bytes = take n (drop start content)"
    using base by (auto simp: interpreter_at_def Let_def start_def n_def split: if_splits)
  then have len: "length bytes = n" by simp
  have "bytes ! (n - 1) = 0" using b by simp
  moreover have "n - 1 < length bytes" using len b(1) by simp
  ultimately show "0 \<in> set bytes" by (metis nth_mem)
  show "length bytes \<le> capacity" using len b by simp
  show "\<exists>start. start + length bytes \<le> length content \<and> bytes = take (length bytes) (drop start content)" using len b by auto
qed

text \<open>C17. The reader of ELF headers is exact and safe. For every regular file, whatever it holds and however the reads are cut up or interrupted,
  \<open>read_elf_interpreter\<close> finds what the file names, computed without bounds on the integers, so no check can be passed by an
  overflow; if a read fails for good it finds that or nothing. What it stores fits the buffer, lies in the file, and holds a terminator, and the
  descriptor is closed on every path.\<close>

theorem elf_interpreter_exact:
  assumes "length (file_content f) \<le> INT64_MAX" "capacity \<le> INT64_MAX" "fstat_answer f = 0" "is_regular f"
  shows "(undisturbed (file_events f) \<longrightarrow> fst (read_elf_interpreter (Some f) capacity) = elf_interpreter (file_content f) capacity) \<and>
    fst (read_elf_interpreter (Some f) capacity) \<in> {None, elf_interpreter (file_content f) capacity} \<and>
    (\<forall>bytes. fst (read_elf_interpreter (Some f) capacity) = Some bytes \<longrightarrow> length bytes \<le> capacity \<and> 0 \<in> set bytes \<and>
      (\<exists>start. start + length bytes \<le> length (file_content f) \<and> bytes = take (length bytes) (drop start (file_content f)))) \<and>
    snd (read_elf_interpreter (Some f) capacity) = [Opened, Closed]"
proof -
  have exact: "(undisturbed (file_events f) \<longrightarrow> fst (read_elf_interpreter (Some f) capacity) = elf_interpreter (file_content f) capacity) \<and>
    (fst (read_elf_interpreter (Some f) capacity) = None \<or>
     fst (read_elf_interpreter (Some f) capacity) = elf_interpreter (file_content f) capacity)"
    using read_elf_interpreter_spec [OF assms] .
  have "snd (read_elf_interpreter (Some f) capacity) = [Opened, Closed]"
    by (auto simp: read_elf_interpreter_def split: option.split prod.split)
  with exact show ?thesis using elf_interpreter_slice [of "file_content f" capacity] by auto
qed

text \<open>A small file: the header, one program header that names three bytes at offset 120, and the bytes.\<close>

definition example_elf :: "u8 list" where
  "example_elf =
     [0x7f, 0x45, 0x4c, 0x46, 2, 1, 1, 0] @ replicate 8 0 @ [3, 0, 183, 0] @ replicate 12 0 @ [64, 0, 0, 0, 0, 0, 0, 0] @
     replicate 14 0 @ [56, 0, 1, 0] @ replicate 6 0 @
     [3, 0, 0, 0, 4, 0, 0, 0, 120, 0, 0, 0, 0, 0, 0, 0] @ replicate 16 0 @ [3, 0, 0, 0, 0, 0, 0, 0] @ replicate 16 0 @
     [0x2f, 0x6c, 0]"

definition example_file :: elf_file where
  "example_file = \<lparr>fstat_answer = 0, is_regular = True, file_content = example_elf,
     file_events = [Transfers 5, Fails 4, Transfers 1, Fails 4, Fails 4]\<rparr>"

lemma example_interpreter: "elf_interpreter example_elf 4096 = Some [0x2f, 0x6c, 0]"
  by code_simp

theorem elf_interpreter_exact_witness:
  "fst (read_elf_interpreter (Some example_file) 4096) = Some [0x2f, 0x6c, 0] \<and>
   snd (read_elf_interpreter (Some example_file) 4096) = [Opened, Closed]"
proof -
  have "length (file_content example_file) \<le> INT64_MAX" by (simp add: example_file_def example_elf_def)
  moreover have "undisturbed (file_events example_file)" by (auto simp: undisturbed_def example_file_def)
  ultimately show ?thesis using elf_interpreter_exact [of example_file 4096] example_interpreter by (simp add: example_file_def)
qed
end
