(* ===== verification/ExecShim.thy ===== *)
theory ExecShim imports Elf "HOL-Library.Monad_Syntax" begin

text \<open>
  The exec shim (\<open>exec_shim.c\<close>) around the reader of ELF headers: the redirection of paths, the environments and command lines
  it builds, the search along \<open>PATH\<close>, and the functions of the exec and spawn families. Every store into a block the shim has allocated
  is checked, so a definition that returns \<open>None\<close> has stored out of bounds; every allocation and release is logged. The path a program
  passes is taken not to be one of the strings the redirections return, which the code tells apart by their addresses.
\<close>

unbundle bit_operations_syntax

subsection \<open>C strings, arrays and the heap\<close>

text \<open>A C string is the list of its characters before the terminator; \<open>char_at\<close> reads one of them, or the terminator.\<close>

abbreviation (input) NUL :: char where "NUL \<equiv> CHR 0x00"
abbreviation (input) SIZE_MAX :: nat where "SIZE_MAX \<equiv> 18446744073709551615"
abbreviation (input) PATH_MAX :: nat where "PATH_MAX \<equiv> 4096"

definition char_at :: "string \<Rightarrow> nat \<Rightarrow> char" where
  "char_at s i = (if i < length s then s ! i else NUL)"

definition c_string :: "string \<Rightarrow> string" where
  "c_string buffer = takeWhile (\<lambda>c. c \<noteq> NUL) buffer"

definition strncmp_equal :: "string \<Rightarrow> string \<Rightarrow> nat \<Rightarrow> bool" where
  "strncmp_equal s t n \<longleftrightarrow> take n s = take n t"

text \<open>Stores into a block of memory; \<open>None\<close> is a store beyond its end.\<close>

definition put_slot :: "'a list \<Rightarrow> nat \<Rightarrow> 'a \<Rightarrow> 'a list option" where
  "put_slot block i x = (if i < length block then Some (block[i := x]) else None)"

fun memcpy_at :: "'a list \<Rightarrow> nat \<Rightarrow> 'a list \<Rightarrow> 'a list option" where
  "memcpy_at block i [] = Some block"
| "memcpy_at block i (x # xs) = Option.bind (put_slot block i x) (\<lambda>block. memcpy_at block (i + 1) xs)"

text \<open>An array of pointers, as a callee reads it: up to the first null pointer.\<close>

definition c_array :: "string option list \<Rightarrow> string list" where
  "c_array slots = map the (takeWhile (\<lambda>p. p \<noteq> None) slots)"

text \<open>The blocks the shim allocates, and the log of what happens to them. The allocator is a parameter: for each block the error
  number it fails with, or 0, and what the fresh memory holds.\<close>

datatype block =
    Final_preload | Final_proc | Final_values
  | Filename_copy | Loader_argv | Original_path | Assignment | Loader_environment | Preload_assignment
  | Candidate nat | Arguments

datatype heap_event = Allocated block | Freed block

record allocator =
  refusal :: "block \<Rightarrow> int"
  garbage :: "block \<Rightarrow> nat \<Rightarrow> char"

definition allocates :: "allocator \<Rightarrow> block \<Rightarrow> bool" where
  "allocates heap b \<longleftrightarrow> refusal heap b = 0"

definition malloc_log :: "allocator \<Rightarrow> block \<Rightarrow> heap_event list" where
  "malloc_log heap b = (if allocates heap b then [Allocated b] else [])"

text \<open>\<open>free\<close> of a pointer that may be null; it keeps \<open>errno\<close>.\<close>

definition free_log :: "allocator \<Rightarrow> block \<Rightarrow> heap_event list" where
  "free_log heap b = (if allocates heap b then [Freed b] else [])"

subsection \<open>The environment\<close>

abbreviation (input) ld_preload_name :: string where "ld_preload_name \<equiv> ''LD_PRELOAD''"
abbreviation (input) proc_self_exe_name :: string where "proc_self_exe_name \<equiv> ''TGCOMPAT_PROC_SELF_EXE''"
abbreviation (input) shell_redirect_name :: string where "shell_redirect_name \<equiv> ''TGCOMPAT_EXEC_SHELL''"
abbreviation (input) path_from_name :: string where "path_from_name \<equiv> ''TGCOMPAT_EXEC_PATH_FROM''"
abbreviation (input) path_to_name :: string where "path_to_name \<equiv> ''TGCOMPAT_EXEC_PATH_TO''"
abbreviation (input) final_path_prefix_name :: string where "final_path_prefix_name \<equiv> ''TGCOMPAT_EXEC_FINAL_PATH_PREFIX''"
abbreviation (input) final_ld_preload_name :: string where "final_ld_preload_name \<equiv> ''TGCOMPAT_EXEC_FINAL_LD_PRELOAD''"
abbreviation (input) final_proc_self_exe_name :: string where "final_proc_self_exe_name \<equiv> ''TGCOMPAT_EXEC_FINAL_PROC_SELF_EXE''"

definition assigns :: "string \<Rightarrow> string \<Rightarrow> bool" where
  "assigns name entry \<longleftrightarrow> strncmp_equal entry name (length name) \<and> char_at entry (length name) = CHR ''=''"

fun find_assignment :: "string \<Rightarrow> string list \<Rightarrow> string option" where
  "find_assignment name [] = None"
| "find_assignment name (entry # entries) =
     (if assigns name entry then Some (drop (length name + 1) entry) else find_assignment name entries)"

text \<open>An environment is an array of strings; \<open>None\<close> is the null pointer.\<close>

definition environment_value :: "string list option \<Rightarrow> string \<Rightarrow> string option" where
  "environment_value envp name = (case envp of None \<Rightarrow> None | Some entries \<Rightarrow> find_assignment name entries)"

text \<open>What surrounds the shim: the environment of the process, the files and what \<open>realpath\<close> and \<open>access\<close> say of a path, and the allocator.\<close>

record exec_system =
  environ :: "string list option"
  open_file :: "string \<Rightarrow> elf_file option"
  realpath :: "string \<Rightarrow> int + string"
  is_executable :: "string \<Rightarrow> bool"
  heap :: allocator

definition configured_environment_value :: "exec_system \<Rightarrow> string list option \<Rightarrow> string \<Rightarrow> string option" where
  "configured_environment_value sys envp name =
     (let value = environment_value envp name in if value \<noteq> None then value else environment_value (environ sys) name)"

definition final_path_matches :: "exec_system \<Rightarrow> string option \<Rightarrow> string list option \<Rightarrow> bool" where
  "final_path_matches sys filename envp =
     (case (filename, configured_environment_value sys envp final_path_prefix_name) of
        (Some filename, Some prefix) \<Rightarrow>
          if char_at filename 0 \<noteq> CHR ''/'' \<or> char_at prefix 0 \<noteq> CHR ''/'' then False
          else 1 < length prefix \<and> char_at prefix (length prefix - 1) = CHR ''/'' \<and> strncmp_equal filename prefix (length prefix)
      | _ \<Rightarrow> False)"

text \<open>Building \<open>NAME=value\<close> in a block of \<open>strlen (name) + strlen (value) + 2\<close> bytes.\<close>

definition write_assignment :: "(nat \<Rightarrow> char) \<Rightarrow> string \<Rightarrow> string \<Rightarrow> string option" where
  "write_assignment junk name value =
     do {
       assignment \<leftarrow> memcpy_at (map junk [0..<length name + length value + 2]) 0 name;
       assignment \<leftarrow> put_slot assignment (length name) (CHR ''='');
       assignment \<leftarrow> memcpy_at assignment (length name + 1) (value @ [NUL]);
       Some (c_string assignment)
     }"

text \<open>The loop that copies the pointers of the entries that are not skipped.\<close>

fun keep_entries :: "(string \<Rightarrow> bool) \<Rightarrow> string list \<Rightarrow> string option list \<Rightarrow> nat \<Rightarrow> (string option list \<times> nat) option" where
  "keep_entries skip [] values out = Some (values, out)"
| "keep_entries skip (entry # entries) values out =
     (if skip entry then keep_entries skip entries values out
      else Option.bind (put_slot values out (Some entry)) (\<lambda>values. keep_entries skip entries values (out + 1)))"

text \<open>The results 0, -1 with \<open>errno\<close>, and 1 with what was built.\<close>

datatype 'a built = Not_built | Build_error int | Built 'a

record environment_override =
  final_values :: "string option list option"
  final_preload :: "string option"
  final_proc :: "string option"

definition no_override :: environment_override where
  "no_override = \<lparr>final_values = None, final_preload = None, final_proc = None\<rparr>"

definition last_refusal :: "allocator \<Rightarrow> block list \<Rightarrow> int" where
  "last_refusal h blocks = (case filter (\<lambda>b. \<not> allocates h b) (rev blocks) of [] \<Rightarrow> 0 | b # _ \<Rightarrow> refusal h b)"

definition build_final_environment ::
  "exec_system \<Rightarrow> string option \<Rightarrow> string list option \<Rightarrow> (environment_override built \<times> heap_event list) option" where
  "build_final_environment sys filename envp =
     (if \<not> final_path_matches sys filename envp then Some (Not_built, [])
      else
        let preload = configured_environment_value sys envp final_ld_preload_name;
            proc_self_exe = configured_environment_value sys envp final_proc_self_exe_name;
            replace = (proc_self_exe \<noteq> None)
        in case (preload, envp) of
          (Some preload, Some entries) \<Rightarrow>
            let keep_count = count_slots (\<lambda>e. \<not> assigns ld_preload_name e \<and> (\<not> replace \<or> \<not> assigns proc_self_exe_name e)) entries
            in if SIZE_MAX - 3 < length entries then Some (Build_error (errno_code E2BIG), [])
            else if SIZE_MAX - length ld_preload_name - 2 < length preload then Some (Build_error (errno_code E2BIG), [])
            else if replace \<and> SIZE_MAX - length proc_self_exe_name - 2 < length (the proc_self_exe) then Some (Build_error (errno_code E2BIG), [])
            else
              let blocks = [Final_preload] @ (if replace then [Final_proc] else []) @ [Final_values];
                  log = concat (map (malloc_log (heap sys)) blocks)
              in if \<not> list_all (allocates (heap sys)) blocks
                 then Some (Build_error (last_refusal (heap sys) blocks), log @ concat (map (free_log (heap sys)) (rev blocks)))
                 else do {
                   assignment \<leftarrow> write_assignment (garbage (heap sys) Final_preload) ld_preload_name preload;
                   proc_assignment \<leftarrow> (if replace
                     then map_option Some (write_assignment (garbage (heap sys) Final_proc) proc_self_exe_name (the proc_self_exe))
                     else Some None);
                   (values, out) \<leftarrow> keep_entries (\<lambda>e. assigns ld_preload_name e \<or> replace \<and> assigns proc_self_exe_name e) entries
                     (replicate (keep_count + (if replace then 3 else 2)) None) 0;
                   values \<leftarrow> put_slot values out (Some assignment);
                   (values, out) \<leftarrow> (if replace
                     then map_option (\<lambda>values. (values, out + 2)) (put_slot values (out + 1) proc_assignment) else Some (values, out + 1));
                   values \<leftarrow> put_slot values out None;
                   Some (Built \<lparr>final_values = Some values, final_preload = Some assignment, final_proc = proc_assignment\<rparr>, log)
                 }
        | _ \<Rightarrow> Some (Build_error (errno_code EINVAL), []))"

definition free_environment_override :: "environment_override \<Rightarrow> environment_override \<times> heap_event list" where
  "free_environment_override over =
     (no_override,
      (if final_preload over \<noteq> None then [Freed Final_preload] else []) @
      (if final_proc over \<noteq> None then [Freed Final_proc] else []) @
      (if final_values over \<noteq> None then [Freed Final_values] else []))"

subsection \<open>Redirection of the path\<close>

definition disabled_by_environment :: "string list option \<Rightarrow> bool" where
  "disabled_by_environment envp =
     (case environment_value envp ''TGCOMPAT_EXEC_DISABLE'' of
        None \<Rightarrow> False | Some value \<Rightarrow> char_at value 0 \<noteq> NUL \<and> value \<noteq> ''0'')"

text \<open>The redirections return a pointer, and the callers compare it with the one they passed.\<close>

datatype redirection = Same | To string

definition redirected :: "string option \<Rightarrow> redirection \<Rightarrow> string option" where
  "redirected filename r = (case r of Same \<Rightarrow> filename | To path \<Rightarrow> Some path)"

definition proper_path :: "string \<Rightarrow> bool" where
  "proper_path s \<longleftrightarrow> char_at s 0 = CHR ''/'' \<and> char_at s 1 \<noteq> NUL"

definition redirect_shell_path :: "exec_system \<Rightarrow> string option \<Rightarrow> string list option \<Rightarrow> redirection" where
  "redirect_shell_path sys filename envp =
     (if filename = None \<or> filename \<noteq> Some ''/bin/sh'' \<and> filename \<noteq> Some ''/usr/bin/sh'' then Same
      else
        let redirect = environment_value envp shell_redirect_name;
            redirect = (if redirect = None then environment_value (environ sys) shell_redirect_name else redirect)
        in case redirect of None \<Rightarrow> Same | Some path \<Rightarrow> if \<not> proper_path path then Same else To path)"

definition redirect_configured_path :: "exec_system \<Rightarrow> string option \<Rightarrow> string list option \<Rightarrow> redirection" where
  "redirect_configured_path sys filename envp =
     (case filename of
        None \<Rightarrow> Same
      | Some name \<Rightarrow>
          let from = environment_value envp path_from_name;
              to = environment_value envp path_to_name;
              (from, to) = (if from = None \<and> to = None
                then (environment_value (environ sys) path_from_name, environment_value (environ sys) path_to_name) else (from, to))
          in case (from, to) of
               (Some from, Some to) \<Rightarrow> if \<not> proper_path from \<or> \<not> proper_path to \<or> name \<noteq> from then Same else To to
             | _ \<Rightarrow> Same)"

definition default_interpreters :: "string list" where
  "default_interpreters = [''/lib/ld-linux-aarch64.so.1'', ''/lib64/ld-linux-aarch64.so.1'']"

definition interpreter_matches :: "string \<Rightarrow> string list option \<Rightarrow> bool" where
  "interpreter_matches interpreter envp =
     (case environment_value envp ''TGCOMPAT_EXEC_MATCH_INTERPRETER'' of
        Some override \<Rightarrow>
          if char_at override 0 \<noteq> NUL then interpreter = override
          else find_index (\<lambda>d. interpreter = d) default_interpreters \<noteq> None
      | None \<Rightarrow> find_index (\<lambda>d. interpreter = d) default_interpreters \<noteq> None)"

definition redirect_exec_path :: "exec_system \<Rightarrow> string option \<Rightarrow> string list option \<Rightarrow> redirection" where
  "redirect_exec_path sys filename envp =
     (let redirect = redirect_configured_path sys filename envp in
      if redirect \<noteq> Same then redirect
      else
        let redirect = redirect_shell_path sys filename envp in
        if redirect \<noteq> Same \<or> filename = None \<or> disabled_by_environment envp \<or> \<not> interpreter_matches (the filename) envp then redirect
        else case environment_value envp ''TGCOMPAT_LD_SO'' of
               None \<Rightarrow> Same
             | Some loader \<Rightarrow> if \<not> proper_path loader then Same else To loader)"

text \<open>The interpreter as the string in the buffer.\<close>

definition interpreter_string :: "u8 list \<Rightarrow> string" where
  "interpreter_string bytes = c_string (map (\<lambda>b. char_of (unat b)) bytes)"

definition should_wrap :: "exec_system \<Rightarrow> string option \<Rightarrow> string list option \<Rightarrow> bool" where
  "should_wrap sys filename envp =
     (case environment_value envp ''TGCOMPAT_LD_SO'' of
        None \<Rightarrow> False
      | Some loader \<Rightarrow>
          char_at loader 0 = CHR ''/'' \<and> \<not> disabled_by_environment envp \<and>
          (case fst (read_elf_interpreter (Option.bind filename (open_file sys)) PATH_MAX) of
             None \<Rightarrow> False
           | Some interpreter \<Rightarrow> interpreter_matches (interpreter_string interpreter) envp))"

subsection \<open>The command line of the loader\<close>

record loader_invocation =
  loader_arguments :: "string option list"
  loader_filename :: string
  loader_environment :: "string option list"
  loader_preload :: "string option"
  loader_assignment :: string

text \<open>What is stored in the blocks once they are all there.\<close>

definition fill_loader_invocation ::
  "allocator \<Rightarrow> string option \<Rightarrow> string option \<Rightarrow> string \<Rightarrow> string list \<Rightarrow> string list \<Rightarrow> nat \<Rightarrow> string option \<Rightarrow> string \<Rightarrow>
   loader_invocation option" where
  "fill_loader_invocation h loader library_path filename_copy argv entries keep_count override original_path =
     do {
       preload_assignment \<leftarrow> (if override \<noteq> None
         then map_option Some (write_assignment (garbage h Preload_assignment) ld_preload_name (the override)) else Some None);
       assignment \<leftarrow> write_assignment (garbage h Assignment) proc_self_exe_name original_path;
       (environment, out) \<leftarrow> keep_entries (\<lambda>e. assigns proc_self_exe_name e \<or> override \<noteq> None \<and> assigns ld_preload_name e) entries
         (replicate (keep_count + (if override \<noteq> None then 3 else 2)) None) 0;
       (environment, out) \<leftarrow> (if preload_assignment \<noteq> None
         then map_option (\<lambda>environment. (environment, out + 1)) (put_slot environment out preload_assignment)
         else Some (environment, out));
       environment \<leftarrow> put_slot environment out (Some assignment);
       environment \<leftarrow> put_slot environment (out + 1) None;
       loader_argv \<leftarrow> memcpy_at (replicate (length argv + 8) None) 0
         ([loader, Some ''--inhibit-cache'', Some ''--argv0'', Some (if argv \<noteq> [] then argv ! 0 else filename_copy)] @
          (case library_path of
             None \<Rightarrow> []
           | Some path \<Rightarrow> if char_at path 0 \<noteq> NUL then [Some ''--library-path'', Some path] else []) @
          [Some filename_copy] @ map Some (drop 1 argv) @ [None]);
       Some \<lparr>loader_arguments = loader_argv, loader_filename = filename_copy, loader_environment = environment,
         loader_preload = preload_assignment, loader_assignment = assignment\<rparr>
     }"

text \<open>The errors of the allocations that are followed at once by a return release what was allocated before.\<close>

definition build_loader_arguments ::
  "exec_system \<Rightarrow> string option \<Rightarrow> string list \<Rightarrow> string list option \<Rightarrow> (loader_invocation built \<times> heap_event list) option" where
  "build_loader_arguments sys filename argv envp =
     (let launch_filename = redirected filename (redirect_exec_path sys filename envp);
          loader = environment_value envp ''TGCOMPAT_LD_SO''
      in if \<not> should_wrap sys launch_filename envp then Some (Not_built, [])
      else if SIZE_MAX - 8 < length argv then Some (Build_error (errno_code E2BIG), [])
      else
        let override = environment_value envp ''TGCOMPAT_EXEC_LD_PRELOAD'';
            override = (if override = None then environment_value (environ sys) ''TGCOMPAT_EXEC_LD_PRELOAD'' else override);
            entries = (case envp of None \<Rightarrow> [] | Some entries \<Rightarrow> entries);
            keep_count = count_slots (\<lambda>e. \<not> assigns proc_self_exe_name e \<and> \<not> (override \<noteq> None \<and> assigns ld_preload_name e)) entries
        in if SIZE_MAX - 3 < length entries then Some (Build_error (errno_code E2BIG), [])
        else
          let library_path = environment_value envp ''TGCOMPAT_LIBRARY_PATH'' in
          if \<not> allocates (heap sys) Filename_copy then Some (Build_error (refusal (heap sys) Filename_copy), [])
          else if \<not> allocates (heap sys) Loader_argv
          then Some (Build_error (refusal (heap sys) Loader_argv), [Allocated Filename_copy, Freed Filename_copy])
          else
            let log = [Allocated Filename_copy, Allocated Loader_argv] in
            case realpath sys (the launch_filename) of
              Inl e \<Rightarrow> Some (Build_error e, log @ [Freed Filename_copy, Freed Loader_argv])
            | Inr original_path \<Rightarrow>
                let log = log @ [Allocated Original_path] in
                if SIZE_MAX - length proc_self_exe_name - 2 < length original_path
                then Some (Build_error (errno_code ENAMETOOLONG), log @ [Freed Original_path, Freed Filename_copy, Freed Loader_argv])
                else
                  let log = log @ malloc_log (heap sys) Assignment @ malloc_log (heap sys) Loader_environment in
                  if \<not> allocates (heap sys) Assignment \<or> \<not> allocates (heap sys) Loader_environment
                  then Some (Build_error (last_refusal (heap sys) [Assignment, Loader_environment]),
                         log @ free_log (heap sys) Loader_environment @ free_log (heap sys) Assignment @
                         [Freed Original_path, Freed Filename_copy, Freed Loader_argv])
                  else
                    let released = log @ [Freed Loader_environment, Freed Assignment, Freed Filename_copy, Freed Loader_argv] in
                    if override \<noteq> None \<and> SIZE_MAX - length ld_preload_name - 2 < length (the override)
                    then Some (Build_error (errno_code ENAMETOOLONG), released)
                    else if override \<noteq> None \<and> \<not> allocates (heap sys) Preload_assignment
                    then Some (Build_error (refusal (heap sys) Preload_assignment), released)
                    else map_option
                      (\<lambda>invocation. (Built invocation,
                         log @ (if override \<noteq> None then [Allocated Preload_assignment] else []) @ [Freed Original_path]))
                      (fill_loader_invocation (heap sys) loader library_path (the launch_filename) argv entries keep_count override original_path))"

definition free_loader_arguments :: "loader_invocation \<Rightarrow> heap_event list" where
  "free_loader_arguments invocation =
     [Freed Filename_copy, Freed Loader_argv] @ (if loader_preload invocation \<noteq> None then [Freed Preload_assignment] else []) @
     [Freed Assignment, Freed Loader_environment]"

subsection \<open>The exec functions\<close>

text \<open>The calls passed on to the C library, each with its path, its arguments and its environment, and the outcome of a function of the shim:
  the result, \<open>errno\<close>, the calls it made and what happened to the heap. The functions behind the shim are parameters, \<open>None\<close> when
  they are not found.\<close>

datatype exec_call = Execve "string option" "string list" "string list option" | Execvpe string "string list" "string list option"

record exec_outcome =
  exec_result :: int
  exec_errno :: int
  calls :: "exec_call list"
  heap_log :: "heap_event list"

type_synonym exec_function = "exec_call \<Rightarrow> int \<times> int"

definition fails_with :: "int \<Rightarrow> heap_event list \<Rightarrow> exec_outcome" where
  "fails_with e log = \<lparr>exec_result = -1, exec_errno = e, calls = [], heap_log = log\<rparr>"

definition passes_on :: "exec_function \<Rightarrow> exec_call \<Rightarrow> heap_event list \<Rightarrow> exec_outcome" where
  "passes_on real call log = \<lparr>exec_result = fst (real call), exec_errno = snd (real call), calls = [call], heap_log = log\<rparr>"

definition execve :: "exec_system \<Rightarrow> exec_function option \<Rightarrow> string option \<Rightarrow> string list \<Rightarrow> string list option \<Rightarrow> exec_outcome option" where
  "execve sys real filename argv envp =
     (case real of
        None \<Rightarrow> Some (fails_with (errno_code ENOSYS) [])
      | Some real \<Rightarrow> do {
          (wrap, log) \<leftarrow> build_loader_arguments sys filename argv envp;
          case wrap of
            Not_built \<Rightarrow> do {
              (final_result, final_log) \<leftarrow> build_final_environment sys filename envp;
              case final_result of
                Build_error e \<Rightarrow> Some (fails_with e (log @ final_log))
              | Not_built \<Rightarrow>
                  Some (passes_on real (Execve (redirected filename (redirect_exec_path sys filename envp)) argv envp)
                    (log @ final_log @ snd (free_environment_override no_override)))
              | Built over \<Rightarrow>
                  Some (passes_on real (Execve (redirected filename (redirect_exec_path sys filename envp)) argv
                      (map_option c_array (final_values over)))
                    (log @ final_log @ snd (free_environment_override over)))
            }
          | Build_error e \<Rightarrow> Some (fails_with e log)
          | Built invocation \<Rightarrow>
              Some (passes_on real (Execve (loader_arguments invocation ! 0) (c_array (loader_arguments invocation))
                  (Some (c_array (loader_environment invocation))))
                (log @ free_loader_arguments invocation))
        })"

definition execv :: "exec_system \<Rightarrow> exec_function option \<Rightarrow> string option \<Rightarrow> string list \<Rightarrow> exec_outcome option" where
  "execv sys real path argv = execve sys real path argv (environ sys)"

text \<open>The candidate for a directory of the given length, built in its block.\<close>

definition write_candidate :: "(nat \<Rightarrow> char) \<Rightarrow> string \<Rightarrow> nat \<Rightarrow> string \<Rightarrow> string option" where
  "write_candidate junk cursor directory_length file_name =
     (let block = map junk [0..<directory_length + length file_name + 2]
      in map_option c_string
        (if directory_length = 0 then memcpy_at block 0 (file_name @ [NUL])
         else do {
           block \<leftarrow> memcpy_at block 0 (take directory_length cursor);
           block \<leftarrow> put_slot block directory_length (CHR ''/'');
           memcpy_at block (directory_length + 1) (file_name @ [NUL])
         }))"

lemma find_index_shorter: "Some i = find_index P xs \<Longrightarrow> length xs - Suc i < length xs"
  by (metis diff_less find_index_SomeD(1) length_pos_if_in_set nth_mem zero_less_Suc)

text \<open>The loop over the directories of \<open>PATH\<close>; \<open>n\<close> numbers its rounds.\<close>

function search_path :: "exec_system \<Rightarrow> string \<Rightarrow> string list option \<Rightarrow> nat \<Rightarrow> string \<Rightarrow> (string option \<times> heap_event list) option" where
  "search_path sys file_name envp n cursor =
     (let separator = find_index (\<lambda>c. c = CHR '':'') cursor;
          directory_length = (case separator of Some i \<Rightarrow> i | None \<Rightarrow> length cursor)
      in if SIZE_MAX - length file_name - 2 < directory_length then Some (None, [])
      else if \<not> allocates (heap sys) (Candidate n) then Some (None, [])
      else case write_candidate (garbage (heap sys) (Candidate n)) cursor directory_length file_name of
        None \<Rightarrow> None
      | Some candidate \<Rightarrow>
          if is_executable sys candidate \<and> should_wrap sys (Some candidate) envp then Some (Some candidate, [Allocated (Candidate n)])
          else case separator of
            None \<Rightarrow> Some (None, [Allocated (Candidate n), Freed (Candidate n)])
          | Some i \<Rightarrow> map_option (\<lambda>(found, log). (found, [Allocated (Candidate n), Freed (Candidate n)] @ log))
              (search_path sys file_name envp (n + 1) (drop (i + 1) cursor)))"
  by pat_completeness auto
termination
  by (relation "measure (\<lambda>(sys, file_name, envp, n, cursor). length cursor)") (simp_all add: find_index_shorter)

declare search_path.simps [simp del]

definition find_matching_path :: "exec_system \<Rightarrow> string \<Rightarrow> string list option \<Rightarrow> (string option \<times> heap_event list) option" where
  "find_matching_path sys file_name envp =
     (if CHR ''/'' \<in> set file_name then
        Some (if should_wrap sys (Some file_name) envp \<and> allocates (heap sys) (Candidate 0)
              then (Some file_name, [Allocated (Candidate 0)]) else (None, []))
      else
        let path = (case environment_value (environ sys) ''PATH'' of None \<Rightarrow> ''/bin:/usr/bin'' | Some path \<Rightarrow> path)
        in search_path sys file_name envp 0 path)"

text \<open>The block of the candidate found is the last one allocated.\<close>

definition free_candidate :: "heap_event list \<Rightarrow> heap_event list" where
  "free_candidate log = (case last log of Allocated b \<Rightarrow> [Freed b] | Freed b \<Rightarrow> [])"

definition execvpe ::
  "exec_system \<Rightarrow> exec_function option \<Rightarrow> exec_function option \<Rightarrow> string \<Rightarrow> string list \<Rightarrow> string list option \<Rightarrow> exec_outcome option" where
  "execvpe sys real_execve real_execvpe file_name argv envp =
     (if CHR ''/'' \<in> set file_name then execve sys real_execve (Some file_name) argv envp
      else do {
        (candidate, log) \<leftarrow> find_matching_path sys file_name envp;
        case candidate of
          Some path \<Rightarrow> map_option (\<lambda>outcome. outcome\<lparr>heap_log := log @ heap_log outcome @ free_candidate log\<rparr>)
            (execve sys real_execve (Some path) argv envp)
        | None \<Rightarrow>
            (case real_execvpe of
               None \<Rightarrow> Some (fails_with (errno_code ENOSYS) log)
             | Some real \<Rightarrow> Some (passes_on real (Execvpe file_name argv envp) log))
      })"

definition execvp :: "exec_system \<Rightarrow> exec_function option \<Rightarrow> exec_function option \<Rightarrow> string \<Rightarrow> string list \<Rightarrow> exec_outcome option" where
  "execvp sys real_execve real_execvpe file_name argv = execvpe sys real_execve real_execvpe file_name argv (environ sys)"

subsection \<open>The variadic functions\<close>

text \<open>Variable arguments are the pointers in the order they are read; reading beyond them is a fault. The scan counts up to the null pointer.\<close>

fun scan_arguments :: "string option \<Rightarrow> string option list \<Rightarrow> nat \<Rightarrow> (int + nat) option" where
  "scan_arguments value source count =
     (if value = None then Some (Inr count)
      else if count = SIZE_MAX - 1 then Some (Inl (errno_code E2BIG))
      else case source of
        [] \<Rightarrow> None
      | value' # rest \<Rightarrow> scan_arguments value' rest (count + 1))"

fun copy_arguments :: "string option \<Rightarrow> string option list \<Rightarrow> nat \<Rightarrow> nat \<Rightarrow> string option list \<Rightarrow> string option list option" where
  "copy_arguments value source index 0 arguments = Some arguments"
| "copy_arguments value source index (Suc left) arguments =
     do {
       arguments \<leftarrow> put_slot arguments index value;
       case source of
         [] \<Rightarrow> None
       | value' # rest \<Rightarrow> copy_arguments value' rest (index + 1) left arguments
     }"

definition collect_variadic_arguments ::
  "exec_system \<Rightarrow> string option \<Rightarrow> string option list \<Rightarrow> ((int + string list) \<times> heap_event list) option" where
  "collect_variadic_arguments sys first source =
     do {
       scanned \<leftarrow> scan_arguments first source 0;
       case scanned of
         Inl e \<Rightarrow> Some (Inl e, [])
       | Inr count \<Rightarrow>
           if \<not> allocates (heap sys) Arguments then Some (Inl (refusal (heap sys) Arguments), [])
           else do {
             arguments \<leftarrow> copy_arguments first source 0 count (replicate (count + 1) None);
             arguments \<leftarrow> put_slot arguments count None;
             Some (Inr (c_array arguments), [Allocated Arguments])
           }
     }"

text \<open>The common shape of the three functions: collect, call, release.\<close>

definition with_arguments ::
  "exec_system \<Rightarrow> string option \<Rightarrow> string option list \<Rightarrow> (string list \<Rightarrow> exec_outcome option) \<Rightarrow> exec_outcome option" where
  "with_arguments sys first source call =
     do {
       (arguments, log) \<leftarrow> collect_variadic_arguments sys first source;
       case arguments of
         Inl e \<Rightarrow> Some (fails_with e log)
       | Inr argv \<Rightarrow> map_option (\<lambda>outcome. outcome\<lparr>heap_log := log @ heap_log outcome @ [Freed Arguments]\<rparr>) (call argv)
     }"

definition execl :: "exec_system \<Rightarrow> exec_function option \<Rightarrow> string option \<Rightarrow> string option \<Rightarrow> string option list \<Rightarrow> exec_outcome option" where
  "execl sys real path arg rest = with_arguments sys arg rest (\<lambda>argv. execve sys real path argv (environ sys))"

text \<open>The environment of \<open>execle\<close> is the argument after the null pointer.\<close>

definition execle ::
  "exec_system \<Rightarrow> exec_function option \<Rightarrow> string option \<Rightarrow> string option \<Rightarrow> string option list \<Rightarrow> string list option \<Rightarrow> exec_outcome option" where
  "execle sys real path arg rest environment = with_arguments sys arg rest (\<lambda>argv. execve sys real path argv environment)"

definition execlp ::
  "exec_system \<Rightarrow> exec_function option \<Rightarrow> exec_function option \<Rightarrow> string \<Rightarrow> string option \<Rightarrow> string option list \<Rightarrow> exec_outcome option" where
  "execlp sys real_execve real_execvpe file_name arg rest =
     with_arguments sys arg rest (\<lambda>argv. execvpe sys real_execve real_execvpe file_name argv (environ sys))"

subsection \<open>The spawn functions\<close>

text \<open>A spawn function gets the path, the arguments and the environment, and returns an error number or 0; the place for the process
  identifier, the file actions and the attributes are passed through unread and belong to the function.\<close>

record spawn_outcome =
  spawn_result :: int
  spawn_calls :: "exec_call list"
  spawn_log :: "heap_event list"

type_synonym spawn_function = "exec_call \<Rightarrow> int"

definition spawn_fails :: "int \<Rightarrow> heap_event list \<Rightarrow> spawn_outcome" where
  "spawn_fails e log = \<lparr>spawn_result = (if e \<noteq> 0 then e else errno_code ENOMEM), spawn_calls = [], spawn_log = log\<rparr>"

definition spawns :: "spawn_function \<Rightarrow> exec_call \<Rightarrow> heap_event list \<Rightarrow> spawn_outcome" where
  "spawns real call log = \<lparr>spawn_result = real call, spawn_calls = [call], spawn_log = log\<rparr>"

definition spawn_wrapped ::
  "exec_system \<Rightarrow> spawn_function \<Rightarrow> string option \<Rightarrow> string list \<Rightarrow> string list option \<Rightarrow> spawn_outcome option" where
  "spawn_wrapped sys real path argv envp =
     do {
       (wrap, log) \<leftarrow> build_loader_arguments sys path argv envp;
       case wrap of
         Build_error e \<Rightarrow> Some (spawn_fails e log)
       | Not_built \<Rightarrow> do {
           (final_result, final_log) \<leftarrow> build_final_environment sys path envp;
           case final_result of
             Build_error e \<Rightarrow> Some (spawn_fails e (log @ final_log))
           | Not_built \<Rightarrow>
               Some (spawns real (Execve (redirected path (redirect_exec_path sys path envp)) argv envp)
                 (log @ final_log @ snd (free_environment_override no_override)))
           | Built over \<Rightarrow>
               Some (spawns real (Execve (redirected path (redirect_exec_path sys path envp)) argv (map_option c_array (final_values over)))
                 (log @ final_log @ snd (free_environment_override over)))
         }
       | Built invocation \<Rightarrow>
           Some (spawns real (Execve (loader_arguments invocation ! 0) (c_array (loader_arguments invocation))
               (Some (c_array (loader_environment invocation))))
             (log @ free_loader_arguments invocation))
     }"

definition posix_spawn ::
  "exec_system \<Rightarrow> spawn_function option \<Rightarrow> string option \<Rightarrow> string list \<Rightarrow> string list option \<Rightarrow> spawn_outcome option" where
  "posix_spawn sys real path argv envp =
     (case real of
        None \<Rightarrow> Some (spawn_fails (errno_code ENOSYS) [])
      | Some real \<Rightarrow> spawn_wrapped sys real path argv envp)"

definition posix_spawnp ::
  "exec_system \<Rightarrow> spawn_function option \<Rightarrow> spawn_function option \<Rightarrow> string \<Rightarrow> string list \<Rightarrow> string list option \<Rightarrow> spawn_outcome option" where
  "posix_spawnp sys real_spawn real_spawnp file_name argv envp =
     (case real_spawnp of
        None \<Rightarrow> Some (spawn_fails (errno_code ENOSYS) [])
      | Some real_spawnp \<Rightarrow>
          if CHR ''/'' \<in> set file_name then
            (case real_spawn of
               None \<Rightarrow> Some (spawn_fails (errno_code ENOSYS) [])
             | Some real \<Rightarrow> spawn_wrapped sys real (Some file_name) argv envp)
          else do {
            (candidate, log) \<leftarrow> find_matching_path sys file_name envp;
            case candidate of
              None \<Rightarrow> Some (spawns real_spawnp (Execvpe file_name argv envp) log)
            | Some path \<Rightarrow>
                (case real_spawn of
                   None \<Rightarrow> Some (spawn_fails (errno_code ENOSYS) (log @ free_candidate log))
                 | Some real \<Rightarrow> map_option (\<lambda>outcome. outcome\<lparr>spawn_log := log @ spawn_log outcome @ free_candidate log\<rparr>)
                     (spawn_wrapped sys real (Some path) argv envp))
          })"

subsection \<open>Stores in bounds\<close>

lemma memcpy_at_eq:
  "i + length xs \<le> length block \<Longrightarrow> memcpy_at block i xs = Some (take i block @ xs @ drop (i + length xs) block)"
proof (induction xs arbitrary: block i)
  case (Cons x xs)
  then have "memcpy_at (block[i := x]) (i + 1) xs = Some (take (i + 1) (block[i := x]) @ xs @ drop (i + 1 + length xs) (block[i := x]))"
    by (intro Cons.IH) simp
  moreover have "take (i + 1) (block[i := x]) = take i block @ [x]"
    using Cons.prems by (simp add: take_Suc_conv_app_nth)
  ultimately show ?case using Cons.prems by (simp add: put_slot_def)
qed simp

lemma put_slot_eq: "i < length block \<Longrightarrow> put_slot block i x = Some (take i block @ x # drop (i + 1) block)"
  by (simp add: put_slot_def upd_conv_take_nth_drop)

lemma put_slot_append [simp]: "i = length xs \<Longrightarrow> put_slot (xs @ y # ys) i x = Some (xs @ x # ys)"
  by (simp add: put_slot_def)

lemma c_string_append [simp]: "NUL \<notin> set s \<Longrightarrow> c_string (s @ NUL # t) = s"
  by (auto simp: c_string_def takeWhile_append)

lemma c_array_append [simp]: "c_array (map Some xs @ None # ys) = xs"
  by (induction xs) (simp_all add: c_array_def)

lemma c_array_Cons [simp]: "c_array (Some x # xs) = x # c_array xs" "c_array (None # xs) = []"
  by (simp_all add: c_array_def)

lemma write_assignment_eq:
  assumes "NUL \<notin> set name" "NUL \<notin> set value"
  shows "write_assignment junk name value = Some (name @ ''='' @ value)"
proof -
  let ?b = "map junk [0..<length name + length value + 2]"
  define rest where "rest = drop (length name + 1) ?b"
  have rest: "length rest = length value + 1" by (simp add: rest_def)
  have "drop (length name) ?b = ?b ! length name # rest"
    unfolding rest_def by (simp del: upt_Suc add: Cons_nth_drop_Suc [symmetric])
  then have "memcpy_at ?b 0 name = Some (name @ ?b ! length name # rest)"
    by (simp add: memcpy_at_eq del: upt_Suc)
  moreover have "memcpy_at (name @ CHR ''='' # rest) (length name + 1) (value @ [NUL]) = Some ((name @ ''='' @ value) @ NUL # [])"
    using rest by (simp add: memcpy_at_eq)
  ultimately show ?thesis using assms c_string_append [of "name @ ''='' @ value" "[]"]
    by (simp add: write_assignment_def del: upt_Suc)
qed

lemma write_candidate_eq:
  assumes "NUL \<notin> set cursor" "NUL \<notin> set file_name" "n \<le> length cursor"
  shows "write_candidate junk cursor n file_name = Some (if n = 0 then file_name else take n cursor @ ''/'' @ file_name)"
proof (cases "n = 0")
  case True
  then show ?thesis using assms c_string_append [OF assms(2)] by (simp add: write_candidate_def memcpy_at_eq)
next
  case False
  let ?b = "map junk [0..<n + length file_name + 2]" let ?d = "take n cursor"
  define rest where "rest = drop (n + 1) ?b"
  have rest: "length rest = length file_name + 1" by (simp add: rest_def)
  have "drop n ?b = ?b ! n # rest" unfolding rest_def by (simp del: upt_Suc add: Cons_nth_drop_Suc [symmetric])
  then have first: "memcpy_at ?b 0 ?d = Some (?d @ ?b ! n # rest)" using assms by (simp add: memcpy_at_eq min_def del: upt_Suc)
  have "memcpy_at (?d @ CHR ''/'' # rest) (n + 1) (file_name @ [NUL]) = Some ((?d @ ''/'' @ file_name) @ NUL # [])"
    using rest assms by (simp add: memcpy_at_eq min_def)
  moreover have "NUL \<notin> set (?d @ ''/'' @ file_name)" using assms by (auto dest: in_set_takeD)
  ultimately show ?thesis using False first assms c_string_append [of "?d @ ''/'' @ file_name" "[]"]
    by (simp add: write_candidate_def Let_def del: upt_Suc)
qed

lemma keep_entries_eq:
  "length (filter (\<lambda>e. \<not> skip e) entries) \<le> n \<Longrightarrow>
   keep_entries skip entries (map Some kept @ replicate n None) (length kept) =
     Some (map Some (kept @ filter (\<lambda>e. \<not> skip e) entries) @ replicate (n - length (filter (\<lambda>e. \<not> skip e) entries)) None,
       length kept + length (filter (\<lambda>e. \<not> skip e) entries))"
proof (induction entries arbitrary: kept n)
  case (Cons e entries)
  show ?case
  proof (cases "skip e")
    case False
    with Cons.prems obtain m where m: "n = Suc m" by (cases n) simp_all
    with False Cons.prems Cons.IH [of m "kept @ [e]"] show ?thesis by simp
  qed (use Cons in simp)
qed simp

subsection \<open>The heap\<close>

text \<open>The blocks held after a log; \<open>None\<close> when a block is released that is not held, or allocated twice.\<close>

fun heap_run :: "block set \<Rightarrow> heap_event list \<Rightarrow> block set option" where
  "heap_run held [] = Some held"
| "heap_run held (Allocated b # log) = (if b \<in> held then None else heap_run (insert b held) log)"
| "heap_run held (Freed b # log) = (if b \<in> held then heap_run (held - {b}) log else None)"

fun event_block :: "heap_event \<Rightarrow> block" where
  "event_block (Allocated b) = b"
| "event_block (Freed b) = b"

text \<open>The blocks of the two constructions, as opposed to those of the functions that call them.\<close>

definition own_blocks :: "block set" where
  "own_blocks = {b. b \<noteq> Arguments \<and> (\<forall>k. b \<noteq> Candidate k)}"

definition stays_in :: "block set \<Rightarrow> heap_event list \<Rightarrow> bool" where
  "stays_in blocks log \<longleftrightarrow> event_block ` set log \<subseteq> blocks"

lemma heap_run_append [simp]: "heap_run held (log @ log') = Option.bind (heap_run held log) (\<lambda>held. heap_run held log')"
  by (induction held log rule: heap_run.induct) simp_all

lemma heap_run_frame:
  "heap_run held log = Some held' \<Longrightarrow> frame \<inter> event_block ` set log = {} \<Longrightarrow> heap_run (held \<union> frame) log = Some (held' \<union> frame)"
proof (induction held log rule: heap_run.induct)
  case (3 held b log)
  then have "(held \<union> frame) - {b} = (held - {b}) \<union> frame" by auto
  with 3 show ?case by (simp split: if_splits)
qed (simp_all split: if_splits)
subsection \<open>Environments\<close>

text \<open>The strings of an environment have no terminator inside, and it is smaller than half the address space.\<close>

definition clean :: "string list option \<Rightarrow> bool" where
  "clean envp \<longleftrightarrow>
     (\<forall>entries. envp = Some entries \<longrightarrow> length entries \<le> INT64_MAX \<and> (\<forall>e\<in>set entries. NUL \<notin> set e \<and> length e \<le> INT64_MAX))"

lemma environment_value_clean:
  assumes "clean envp" "environment_value envp name = Some v" shows "NUL \<notin> set v" "length v \<le> INT64_MAX"
proof -
  have "NUL \<notin> set v \<and> length v \<le> INT64_MAX"
    if "find_assignment name entries = Some v" "\<forall>e\<in>set entries. NUL \<notin> set e \<and> length e \<le> INT64_MAX" for entries
    using that by (induction entries) (auto split: if_splits dest: in_set_dropD)
  with assms show "NUL \<notin> set v" "length v \<le> INT64_MAX" by (auto simp: clean_def environment_value_def split: option.splits)
qed

lemma configured_value_clean:
  assumes "clean (environ sys)" "clean envp" "configured_environment_value sys envp name = Some v"
  shows "NUL \<notin> set v" "length v \<le> INT64_MAX"
  using assms by (auto simp: configured_environment_value_def Let_def environment_value_clean split: if_splits)

lemma assigns_iff: "assigns name e \<longleftrightarrow> (\<exists>v. e = name @ ''='' @ v)"
proof
  assume "assigns name e"
  then have e: "take (length name) e = name" "length name < length e" "e ! length name = CHR ''=''"
    by (auto simp: assigns_def strncmp_equal_def char_at_def split: if_splits)
  have "e = take (length name) e @ e ! length name # drop (length name + 1) e" using e(2) by (simp add: Cons_nth_drop_Suc)
  with e show "\<exists>v. e = name @ ''='' @ v" by auto
qed (auto simp: assigns_def strncmp_equal_def char_at_def)

lemma assigns_eq [simp]:
  assumes "CHR ''='' \<notin> set name" "CHR ''='' \<notin> set name'"
  shows "assigns name (name' @ CHR ''='' # v) \<longleftrightarrow> name = name'"
proof -
  have first: "takeWhile (\<lambda>c. c \<noteq> CHR ''='') (n @ CHR ''='' # v) = n" if "CHR ''='' \<notin> set n" for n v
    using that by (auto simp: takeWhile_append)
  show ?thesis using first [OF assms(1)] first [OF assms(2)] by (auto simp: assigns_iff) metis
qed

lemma find_assignment_kept:
  "(\<And>e. skip e \<Longrightarrow> \<not> assigns name e) \<Longrightarrow>
   find_assignment name (filter (\<lambda>e. \<not> skip e) entries @ added) =
     (case find_assignment name entries of None \<Rightarrow> find_assignment name added | Some v \<Rightarrow> Some v)"
  by (induction entries) auto

lemma find_assignment_skipped:
  "(\<And>e. assigns name e \<Longrightarrow> skip e) \<Longrightarrow> find_assignment name (filter (\<lambda>e. \<not> skip e) entries @ added) = find_assignment name added"
  by (induction entries) auto

lemma different_names: "assigns name e \<Longrightarrow> assigns name' e \<Longrightarrow> CHR ''='' \<notin> set name \<Longrightarrow> CHR ''='' \<notin> set name' \<Longrightarrow> name = name'"
  by (auto simp: assigns_iff [of name'])

text \<open>An environment built from another: some names dropped, some assignments added at the end. The first list names them with their values.\<close>

definition overridden :: "(string \<times> string) list \<Rightarrow> string list \<Rightarrow> string list" where
  "overridden changes entries =
     filter (\<lambda>e. \<not> (\<exists>(name, v)\<in>set changes. assigns name e)) entries @ map (\<lambda>(name, v). name @ CHR ''='' # v) changes"

lemma find_assignment_map:
  "CHR ''='' \<notin> set name \<Longrightarrow> \<forall>n\<in>fst ` set changes. CHR ''='' \<notin> set n \<Longrightarrow>
   find_assignment name (map (\<lambda>(name, v). name @ CHR ''='' # v) changes) = map_of changes name"
  by (induction changes) auto

text \<open>Looking a name up in it gives the new value of a changed name and the old value of every other one.\<close>

lemma overridden_value:
  assumes "CHR ''='' \<notin> set name" "\<forall>n\<in>fst ` set changes. CHR ''='' \<notin> set n"
  shows "environment_value (Some (overridden changes entries)) name =
    (case map_of changes name of Some v \<Rightarrow> Some v | None \<Rightarrow> environment_value (Some entries) name)"
proof (cases "map_of changes name")
  case None
  have kept: "\<not> assigns name e" if changed: "\<exists>(n, v)\<in>set changes. assigns n e" for e
  proof
    assume "assigns name e"
    from changed obtain n v where n: "(n, v) \<in> set changes" "assigns n e" by blast
    then have "CHR ''='' \<notin> set n" using assms(2) by force
    with n(2) \<open>assigns name e\<close> assms(1) have "n = name" using different_names by blast
    with n(1) None show False by (metis map_of_eq_None_iff fst_conv image_eqI)
  qed
  show ?thesis
    unfolding environment_value_def overridden_def option.case
    by (subst find_assignment_kept [OF kept], assumption)
      (use None assms in \<open>simp add: find_assignment_map split: option.split\<close>)
next
  case (Some v)
  have skipped: "\<exists>(n, v)\<in>set changes. assigns n e" if "assigns name e" for e
    using that map_of_SomeD [OF Some] by blast
  show ?thesis
    unfolding environment_value_def overridden_def option.case
    by (subst find_assignment_skipped [OF skipped], assumption) (use Some assms in \<open>simp add: find_assignment_map\<close>)
qed
lemma put_slot_append_later [simp]:
  "i = Suc (length xs) \<Longrightarrow> put_slot (xs @ a # y # ys) i x = Some (xs @ a # x # ys)"
  "i = Suc (Suc (length xs)) \<Longrightarrow> put_slot (xs @ a # b # y # ys) i x = Some (xs @ a # b # x # ys)"
  by (simp_all add: put_slot_def list_update_append)

lemma keep_entries_fresh:
  assumes "\<And>e. P e \<longleftrightarrow> \<not> skip e"
  shows "keep_entries skip entries (replicate (count_slots P entries + k) None) 0 =
    Some (map Some (filter P entries) @ replicate k None, count_slots P entries)"
proof -
  have "filter P entries = filter (\<lambda>e. \<not> skip e) entries" using assms by (intro filter_cong) simp_all
  then show ?thesis using keep_entries_eq [of skip entries "count_slots P entries + k" "[]"] by (simp add: count_slots_def)
qed

subsection \<open>The environment of a final path\<close>

text \<open>The changes to the environment: the preload list, and the path of the executable when one is configured.\<close>

definition final_changes :: "string \<Rightarrow> string option \<Rightarrow> (string \<times> string) list" where
  "final_changes preload proc = (ld_preload_name, preload) # (case proc of None \<Rightarrow> [] | Some p \<Rightarrow> [(proc_self_exe_name, p)])"

definition final_log :: "string option \<Rightarrow> heap_event list" where
  "final_log proc = [Allocated Final_preload] @ (if proc \<noteq> None then [Allocated Final_proc] else []) @ [Allocated Final_values]"

definition final_override :: "string \<Rightarrow> string option \<Rightarrow> string list \<Rightarrow> environment_override" where
  "final_override preload proc entries =
     \<lparr>final_values = Some (map Some (overridden (final_changes preload proc) entries) @ [None]),
      final_preload = Some (ld_preload_name @ ''='' @ preload),
      final_proc = map_option (\<lambda>p. proc_self_exe_name @ ''='' @ p) proc\<rparr>"

lemma final_built:
  assumes "final_path_matches sys filename (Some entries)"
    and "configured_environment_value sys (Some entries) final_ld_preload_name = Some preload"
    and "configured_environment_value sys (Some entries) final_proc_self_exe_name = proc"
    and "clean (environ sys)" "clean (Some entries)"
    and "allocates (heap sys) Final_preload" "proc \<noteq> None \<longrightarrow> allocates (heap sys) Final_proc" "allocates (heap sys) Final_values"
  shows "build_final_environment sys filename (Some entries) = Some (Built (final_override preload proc entries), final_log proc)"
proof (cases proc)
  case None
  have sizes: "length entries \<le> SIZE_MAX - 3" "length preload \<le> SIZE_MAX - 12"
    using assms(5) configured_value_clean(2) [OF assms(4,5,2)] by (auto simp: clean_def)
  have "NUL \<notin> set preload" using configured_value_clean(1) [OF assms(4,5,2)] .
  then have w: "write_assignment junk ld_preload_name preload = Some (ld_preload_name @ ''='' @ preload)" for junk
    by (intro write_assignment_eq) simp_all
  show ?thesis
    using None assms sizes keep_entries_fresh [of "\<lambda>e. \<not> assigns ld_preload_name e" "assigns ld_preload_name" entries 2]
    by (simp add: build_final_environment_def w final_override_def final_log_def overridden_def final_changes_def malloc_log_def
        numeral_2_eq_2 count_slots_def)
next
  case (Some p)
  have sizes: "length entries \<le> SIZE_MAX - 3" "length preload \<le> SIZE_MAX - 12" "length p \<le> SIZE_MAX - 24"
    using assms(3,5) Some configured_value_clean(2) [OF assms(4,5,2)] configured_value_clean(2) [OF assms(4,5), of final_proc_self_exe_name p]
    by (auto simp: clean_def)
  have "NUL \<notin> set preload" "NUL \<notin> set p"
    using configured_value_clean(1) [OF assms(4,5)] assms(2,3) Some by blast+
  then have w: "write_assignment junk ld_preload_name preload = Some (ld_preload_name @ ''='' @ preload)"
    "write_assignment junk proc_self_exe_name p = Some (proc_self_exe_name @ ''='' @ p)" for junk
    by (intro write_assignment_eq; simp)+
  show ?thesis
    using Some assms sizes keep_entries_fresh [of "\<lambda>e. \<not> assigns ld_preload_name e \<and> \<not> assigns proc_self_exe_name e"
        "\<lambda>e. assigns ld_preload_name e \<or> assigns proc_self_exe_name e" entries 3]
    by (simp add: build_final_environment_def w final_override_def final_log_def overridden_def final_changes_def malloc_log_def
        numeral_3_eq_3 count_slots_def)
qed

definition final_blocks :: "string option \<Rightarrow> block list" where
  "final_blocks proc = [Final_preload] @ (if proc \<noteq> None then [Final_proc] else []) @ [Final_values]"

lemma final_refused:
  assumes "final_path_matches sys filename (Some entries)"
    and "configured_environment_value sys (Some entries) final_ld_preload_name = Some preload"
    and "configured_environment_value sys (Some entries) final_proc_self_exe_name = proc"
    and "clean (environ sys)" "clean (Some entries)" "\<not> list_all (allocates (heap sys)) (final_blocks proc)"
  shows "build_final_environment sys filename (Some entries) =
    Some (Build_error (last_refusal (heap sys) (final_blocks proc)),
      concat (map (malloc_log (heap sys)) (final_blocks proc)) @ concat (map (free_log (heap sys)) (rev (final_blocks proc))))"
proof -
  have "length entries \<le> SIZE_MAX - 3" "length preload \<le> SIZE_MAX - 12" "proc \<noteq> None \<longrightarrow> length (the proc) \<le> SIZE_MAX - 24"
    using assms(3,5) configured_value_clean(2) [OF assms(4,5,2)] configured_value_clean(2) [OF assms(4,5), of final_proc_self_exe_name "the proc"]
    by (auto simp: clean_def)
  with assms show ?thesis by (auto simp: build_final_environment_def final_blocks_def Let_def)
qed

lemma refused_block:
  "\<not> list_all (allocates h) blocks \<Longrightarrow> \<exists>b\<in>set blocks. refusal h b \<noteq> 0 \<and> last_refusal h blocks = refusal h b"
proof -
  assume "\<not> list_all (allocates h) blocks"
  then obtain b bs where "filter (\<lambda>b. \<not> allocates h b) (rev blocks) = b # bs"
    by (cases "filter (\<lambda>b. \<not> allocates h b) (rev blocks)") (auto simp: list_all_iff filter_empty_conv)
  moreover from this have "b \<in> set blocks \<and> \<not> allocates h b" by (metis list.set_intros(1) mem_Collect_eq set_filter set_rev)
  ultimately show ?thesis by (auto simp: last_refusal_def allocates_def)
qed

lemma refused_released:
  "distinct blocks \<Longrightarrow> heap_run {} (concat (map (malloc_log h) blocks) @ concat (map (free_log h) (rev blocks))) = Some {}"
proof -
  have "held \<inter> set blocks = {} \<Longrightarrow> distinct blocks \<Longrightarrow>
      heap_run held (concat (map (malloc_log h) blocks) @ concat (map (free_log h) (rev blocks))) = Some held" for held
  proof (induction blocks arbitrary: held)
    case (Cons b blocks)
    show ?case
    proof (cases "allocates h b")
      case True
      define log where "log = concat (map (malloc_log h) blocks) @ concat (map (free_log h) (rev blocks))"
      have "heap_run (insert b held) log = Some (insert b held)"
        unfolding log_def using Cons.prems by (intro Cons.IH) auto
      moreover have "concat (map (malloc_log h) (b # blocks)) @ concat (map (free_log h) (rev (b # blocks))) = Allocated b # log @ [Freed b]"
        using True by (simp add: malloc_log_def [of h b] free_log_def [of h b] log_def)
      moreover have "insert b held - {b} = held" using Cons.prems by auto
      ultimately show ?thesis using Cons.prems by simp
    next
      case False
      with Cons show ?thesis by (simp add: malloc_log_def free_log_def)
    qed
  qed simp
  then show "distinct blocks \<Longrightarrow> ?thesis" by blast
qed

text \<open>The three ways the construction ends.\<close>

lemma build_final_cases:
  assumes "clean (environ sys)" "clean envp"
  obtains (no) "\<not> final_path_matches sys filename envp" "build_final_environment sys filename envp = Some (Not_built, [])"
    | (invalid) "final_path_matches sys filename envp" "envp = None \<or> configured_environment_value sys envp final_ld_preload_name = None"
        "build_final_environment sys filename envp = Some (Build_error (errno_code EINVAL), [])"
    | (refused) b log where "final_path_matches sys filename envp" "refusal (heap sys) b \<noteq> 0"
        "build_final_environment sys filename envp = Some (Build_error (refusal (heap sys) b), log)" "heap_run {} log = Some {}"
        "stays_in own_blocks log"
    | (built) entries preload where "final_path_matches sys filename envp" "envp = Some entries"
        "configured_environment_value sys envp final_ld_preload_name = Some preload"
        "build_final_environment sys filename envp =
          Some (Built (final_override preload (configured_environment_value sys envp final_proc_self_exe_name) entries),
            final_log (configured_environment_value sys envp final_proc_self_exe_name))"
proof (cases "final_path_matches sys filename envp")
  case False
  then show ?thesis by (intro no) (simp_all add: build_final_environment_def)
next
  case matches: True
  show ?thesis
  proof (cases "envp = None \<or> configured_environment_value sys envp final_ld_preload_name = None")
    case True
    with matches show ?thesis by (intro invalid) (auto simp: build_final_environment_def Let_def split: option.splits)
  next
    case False
    then obtain entries preload where ok: "envp = Some entries" "configured_environment_value sys envp final_ld_preload_name = Some preload"
      by (auto simp: not_None_eq)
    define proc where "proc = configured_environment_value sys envp final_proc_self_exe_name"
    show ?thesis
    proof (cases "list_all (allocates (heap sys)) (final_blocks proc)")
      case True
      then show ?thesis using final_built [of sys filename entries preload proc] matches ok assms
        by (intro built [of entries preload]) (auto simp: final_blocks_def proc_def split: if_splits)
    next
      case False
      from refused_block [OF this] obtain b where b: "refusal (heap sys) b \<noteq> 0" "last_refusal (heap sys) (final_blocks proc) = refusal (heap sys) b"
        by blast
      show ?thesis
      proof (rule refused [of b])
        show "heap_run {} (concat (map (malloc_log (heap sys)) (final_blocks proc)) @ concat (map (free_log (heap sys)) (rev (final_blocks proc)))) = Some {}"
          by (rule refused_released) (simp add: final_blocks_def)
        show "stays_in own_blocks (concat (map (malloc_log (heap sys)) (final_blocks proc)) @ concat (map (free_log (heap sys)) (rev (final_blocks proc))))"
          by (auto simp: stays_in_def own_blocks_def final_blocks_def malloc_log_def free_log_def split: if_splits)
      qed (use matches ok b final_refused [of sys filename entries preload proc] False assms in \<open>simp_all add: proc_def\<close>)
    qed
  qed
qed

text \<open>C19. The environment of a final path. The construction never stores out of bounds, whatever the environment. It does nothing when the path is not
  a final one; it fails only for a missing environment or preload list, or with the error of the allocator, and then holds no memory;
  otherwise the new environment gives \<open>LD_PRELOAD\<close> the configured list, the path of the executable its configured value if there is one, and
  every other name the value the program gave it, and releasing it releases all that was allocated.\<close>

theorem final_environment_exact:
  assumes "clean (environ sys)" "clean envp"
  shows "\<exists>result log. build_final_environment sys filename envp = Some (result, log) \<and>
    (case result of
       Not_built \<Rightarrow> \<not> final_path_matches sys filename envp \<and> log = []
     | Build_error e \<Rightarrow> final_path_matches sys filename envp \<and> heap_run {} log = Some {} \<and>
         (e = errno_code EINVAL \<and> (envp = None \<or> configured_environment_value sys envp final_ld_preload_name = None) \<or>
          (\<exists>b. refusal (heap sys) b = e \<and> e \<noteq> 0))
     | Built over \<Rightarrow> final_path_matches sys filename envp \<and>
         heap_run {} (log @ snd (free_environment_override over)) = Some {} \<and>
         (let child = map_option c_array (final_values over);
              proc = configured_environment_value sys envp final_proc_self_exe_name
          in environment_value child ld_preload_name = configured_environment_value sys envp final_ld_preload_name \<and>
             environment_value child ld_preload_name \<noteq> None \<and>
             environment_value child proc_self_exe_name = (if proc \<noteq> None then proc else environment_value envp proc_self_exe_name) \<and>
             (\<forall>name. CHR ''='' \<notin> set name \<and> name \<noteq> ld_preload_name \<and> name \<noteq> proc_self_exe_name \<longrightarrow>
               environment_value child name = environment_value envp name)))"
  using assms
proof (cases rule: build_final_cases [of sys envp filename])
  case (built entries preload)
  define proc where "proc = configured_environment_value sys envp final_proc_self_exe_name"
  have child: "map_option c_array (final_values (final_override preload proc entries)) = Some (overridden (final_changes preload proc) entries)"
    by (simp add: final_override_def)
  have look: "environment_value (Some (overridden (final_changes preload proc) entries)) name =
      (case map_of (final_changes preload proc) name of Some v \<Rightarrow> Some v | None \<Rightarrow> environment_value envp name)"
    if "CHR ''='' \<notin> set name" for name
    using that overridden_value [of name "final_changes preload proc" entries] built(2) by (auto simp: final_changes_def split: option.splits)
  have released: "heap_run {} (final_log proc @ snd (free_environment_override (final_override preload proc entries))) = Some {}"
    by (cases proc) (auto simp: final_log_def free_environment_override_def final_override_def)
  show ?thesis
    unfolding built(4) proc_def [symmetric]
    using built(1,3) released look
    by (simp add: child final_changes_def Let_def split: option.split) 
qed auto

definition example_heap :: allocator where
  "example_heap = \<lparr>refusal = (\<lambda>b. 0), garbage = (\<lambda>b i. CHR ''?'')\<rparr>"

definition example_exec :: exec_system where
  "example_exec = \<lparr>environ = Some [''PATH=/a:/x''], open_file = (\<lambda>p. if p = ''/x/prog'' then Some example_file else None),
     realpath = (\<lambda>p. if p = ''/x/prog'' then Inr ''/data/x/prog'' else Inl 2), is_executable = (\<lambda>p. p = ''/a/prog'' \<or> p = ''/x/prog''), heap = example_heap\<rparr>"

definition example_final :: "string list" where
  "example_final = [''HOME=/h'', ''LD_PRELOAD=old'', ''TGCOMPAT_EXEC_FINAL_PATH_PREFIX=/x/'', ''TGCOMPAT_EXEC_FINAL_LD_PRELOAD=new'']"

lemma example_exec_clean: "clean (environ example_exec)" "clean (Some example_final)"
  by (simp_all add: clean_def example_exec_def example_final_def)

lemma example_final_matches: "final_path_matches example_exec (Some ''/x/prog'') (Some example_final)"
  by code_simp

lemma example_final_value:
  "configured_environment_value example_exec (Some example_final) ''TGCOMPAT_EXEC_FINAL_LD_PRELOAD'' = Some ''new''"
  "configured_environment_value example_exec (Some example_final) ''TGCOMPAT_EXEC_FINAL_PROC_SELF_EXE'' = None"
  "environment_value (Some example_final) ''HOME'' = Some ''/h''"
  by code_simp+

definition example_over :: environment_override where
  "example_over = final_override ''new'' None example_final"

lemma example_final_run:
  "build_final_environment example_exec (Some ''/x/prog'') (Some example_final) = Some (Built example_over, final_log None)"
  unfolding example_over_def
  by (rule final_built [OF example_final_matches example_final_value(1,2) example_exec_clean])
    (simp_all add: allocates_def example_exec_def example_heap_def)

theorem final_environment_exact_witness:
  "build_final_environment example_exec (Some ''/x/prog'') (Some example_final) = Some (Built example_over, final_log None) \<and>
     heap_run {} (final_log None @ snd (free_environment_override example_over)) = Some {} \<and>
     environment_value (map_option c_array (final_values example_over)) ''LD_PRELOAD'' = Some ''new'' \<and>
     environment_value (map_option c_array (final_values example_over)) ''HOME'' = Some ''/h''"
  using final_environment_exact [OF example_exec_clean, of "Some ''/x/prog''", unfolded example_final_run] example_final_run example_final_value
  by (simp add: Let_def del: heap_run_append)
subsection \<open>The command line of the loader\<close>

text \<open>The strings \<open>realpath\<close> returns are proper strings.\<close>

definition clean_paths :: "exec_system \<Rightarrow> bool" where
  "clean_paths sys \<longleftrightarrow> (\<forall>p q. realpath sys p = Inr q \<longrightarrow> NUL \<notin> set q \<and> length q \<le> INT64_MAX)"

definition preload_override :: "exec_system \<Rightarrow> string list option \<Rightarrow> string option" where
  "preload_override sys envp = configured_environment_value sys envp ''TGCOMPAT_EXEC_LD_PRELOAD''"

definition entries_of :: "string list option \<Rightarrow> string list" where
  "entries_of envp = (case envp of None \<Rightarrow> [] | Some entries \<Rightarrow> entries)"

definition loader_changes :: "string option \<Rightarrow> string \<Rightarrow> (string \<times> string) list" where
  "loader_changes override original = (case override of None \<Rightarrow> [] | Some p \<Rightarrow> [(ld_preload_name, p)]) @ [(proc_self_exe_name, original)]"

definition library_words :: "string option \<Rightarrow> string list" where
  "library_words path = (case path of None \<Rightarrow> [] | Some path \<Rightarrow> if path = [] then [] else [''--library-path'', path])"

definition loader_words :: "string \<Rightarrow> string option \<Rightarrow> string \<Rightarrow> string list \<Rightarrow> string list" where
  "loader_words loader library path argv =
     [loader, ''--inhibit-cache'', ''--argv0'', (if argv = [] then path else hd argv)] @ library_words library @ [path] @ tl argv"

definition loader_invocation_of ::
  "exec_system \<Rightarrow> string list option \<Rightarrow> string \<Rightarrow> string \<Rightarrow> string \<Rightarrow> string list \<Rightarrow> loader_invocation" where
  "loader_invocation_of sys envp loader path original argv =
     (let words = loader_words loader (environment_value envp ''TGCOMPAT_LIBRARY_PATH'') path argv;
          override = preload_override sys envp
      in \<lparr>loader_arguments = map Some words @ replicate (length argv + 8 - length words) None,
          loader_filename = path,
          loader_environment = map Some (overridden (loader_changes override original) (entries_of envp)) @ [None],
          loader_preload = map_option (\<lambda>p. ld_preload_name @ ''='' @ p) override,
          loader_assignment = proc_self_exe_name @ ''='' @ original\<rparr>)"

definition loader_log :: "string option \<Rightarrow> heap_event list" where
  "loader_log override =
     [Allocated Filename_copy, Allocated Loader_argv, Allocated Original_path, Allocated Assignment, Allocated Loader_environment] @
     (if override \<noteq> None then [Allocated Preload_assignment] else []) @ [Freed Original_path]"

lemma loader_words_length: "length (loader_words loader library path argv) \<le> length argv + 7"
  by (cases argv) (simp_all add: loader_words_def library_words_def split: option.split)

lemma char_at_0 [simp]: "NUL \<notin> set s \<Longrightarrow> char_at s 0 = NUL \<longleftrightarrow> s = []"
  by (cases s) (auto simp: char_at_def)

lemma should_wrap_someD:
  assumes "should_wrap sys filename envp"
  obtains path loader where "filename = Some path" "environment_value envp ''TGCOMPAT_LD_SO'' = Some loader"
  using assms by (cases filename) (auto simp: should_wrap_def read_elf_interpreter_def split: option.splits)

lemma loader_argv_eq:
  assumes "length words \<le> n"
  shows "memcpy_at (replicate (Suc n) None) 0 (map Some words @ [None]) = Some (map Some words @ replicate (Suc n - length words) None)"
  using assms by (simp add: memcpy_at_eq Suc_diff_le del: replicate_Suc) simp

lemma loader_words_eq:
  assumes "clean envp" "environment_value envp ''TGCOMPAT_LIBRARY_PATH'' = library"
  shows "[Some loader, Some ''--inhibit-cache'', Some ''--argv0'', Some (if argv \<noteq> [] then argv ! 0 else path)] @
      (case library of None \<Rightarrow> [] | Some p \<Rightarrow> if char_at p 0 \<noteq> NUL then [Some ''--library-path'', Some p] else []) @
      [Some path] @ map Some (drop 1 argv) @ [None] = map Some (loader_words loader library path argv) @ [None]"
  using assms environment_value_clean(1) [of envp "''TGCOMPAT_LIBRARY_PATH''"]
  by (cases argv) (auto simp: loader_words_def library_words_def split: option.split)

lemma wrapping_sizes:
  assumes "clean (environ sys)" "clean envp" "clean_paths sys" "realpath sys path = Inr original" "length argv \<le> INT64_MAX"
  shows "\<not> SIZE_MAX - 8 < length argv" "\<not> SIZE_MAX - 3 < length (entries_of envp)"
    "\<not> SIZE_MAX - length proc_self_exe_name - 2 < length original" "NUL \<notin> set original"
    "preload_override sys envp = Some p \<Longrightarrow> NUL \<notin> set p \<and> \<not> SIZE_MAX - length ld_preload_name - 2 < length p"
proof -
  show "\<not> SIZE_MAX - 8 < length argv" using assms(5) by simp
  show "\<not> SIZE_MAX - 3 < length (entries_of envp)" using assms(2) by (auto simp: entries_of_def clean_def split: option.splits)
  have "NUL \<notin> set original \<and> length original \<le> INT64_MAX" using assms(3,4) unfolding clean_paths_def by blast
  then show "NUL \<notin> set original" "\<not> SIZE_MAX - length proc_self_exe_name - 2 < length original" by simp_all
  show "NUL \<notin> set p \<and> \<not> SIZE_MAX - length ld_preload_name - 2 < length p" if "preload_override sys envp = Some p"
    using configured_value_clean [OF assms(1,2) that [unfolded preload_override_def]] by simp
qed

definition loader_blocks :: "block list" where
  "loader_blocks = [Filename_copy, Loader_argv, Assignment, Loader_environment]"

lemma fill_loader_eq:
  assumes "NUL \<notin> set original" "\<forall>p. preload_override sys envp = Some p \<longrightarrow> NUL \<notin> set p" "clean envp"
  shows "fill_loader_invocation h (Some loader) (environment_value envp ''TGCOMPAT_LIBRARY_PATH'') path argv (entries_of envp)
      (count_slots (\<lambda>e. \<not> assigns proc_self_exe_name e \<and> \<not> (preload_override sys envp \<noteq> None \<and> assigns ld_preload_name e)) (entries_of envp))
      (preload_override sys envp) original =
    Some (loader_invocation_of sys envp loader path original argv)"
proof -
  define library where "library = environment_value envp ''TGCOMPAT_LIBRARY_PATH''"
  define entries where "entries = entries_of envp"
  let ?words = "loader_words loader library path argv"
  have a: "write_assignment junk proc_self_exe_name original = Some (proc_self_exe_name @ ''='' @ original)" for junk
    using assms(1) by (intro write_assignment_eq) simp_all
  have argv: "memcpy_at (replicate (length argv + 8) None) 0
      ([Some loader, Some ''--inhibit-cache'', Some ''--argv0'', Some (if argv \<noteq> [] then argv ! 0 else path)] @
       (case library of None \<Rightarrow> [] | Some p \<Rightarrow> if char_at p 0 \<noteq> NUL then [Some ''--library-path'', Some p] else []) @
       [Some path] @ map Some (drop 1 argv) @ [None]) =
     Some (map Some ?words @ replicate (length argv + 8 - length ?words) None)"
    using loader_argv_eq [OF loader_words_length [of loader library path argv]]
    unfolding loader_words_eq [OF assms(3) library_def [symmetric]] by (simp add: add.commute)
  show ?thesis
  proof (cases "preload_override sys envp")
    case None
    have k: "keep_entries (\<lambda>e. assigns proc_self_exe_name e \<or> False) entries
        (replicate (count_slots (\<lambda>e. \<not> assigns proc_self_exe_name e \<and> \<not> False) entries + 2) None) 0 =
      Some (map Some (filter (\<lambda>e. \<not> assigns proc_self_exe_name e \<and> \<not> False) entries) @ replicate 2 None,
        count_slots (\<lambda>e. \<not> assigns proc_self_exe_name e \<and> \<not> False) entries)"
      by (rule keep_entries_fresh) simp
    show ?thesis
      unfolding fill_loader_invocation_def library_def [symmetric] entries_def [symmetric] argv a
      using k by (simp add: None loader_invocation_of_def library_def [symmetric] entries_def [symmetric] overridden_def
          loader_changes_def Let_def numeral_2_eq_2 count_slots_def)
  next
    case (Some p)
    have w: "write_assignment junk ld_preload_name p = Some (ld_preload_name @ ''='' @ p)" for junk
      using assms(2) Some by (intro write_assignment_eq) simp_all
    have k: "keep_entries (\<lambda>e. assigns proc_self_exe_name e \<or> assigns ld_preload_name e) entries
        (replicate (count_slots (\<lambda>e. \<not> assigns proc_self_exe_name e \<and> \<not> assigns ld_preload_name e) entries + 3) None) 0 =
      Some (map Some (filter (\<lambda>e. \<not> assigns proc_self_exe_name e \<and> \<not> assigns ld_preload_name e) entries) @ replicate 3 None,
        count_slots (\<lambda>e. \<not> assigns proc_self_exe_name e \<and> \<not> assigns ld_preload_name e) entries)"
      by (rule keep_entries_fresh) simp
    have f: "filter (\<lambda>e. \<not> assigns ld_preload_name e \<and> \<not> assigns proc_self_exe_name e) entries =
        filter (\<lambda>e. \<not> assigns proc_self_exe_name e \<and> \<not> assigns ld_preload_name e) entries"
      by (rule filter_cong) auto
    show ?thesis
      unfolding fill_loader_invocation_def library_def [symmetric] entries_def [symmetric] argv a
      using k by (simp add: Some w f loader_invocation_of_def library_def [symmetric] entries_def [symmetric] overridden_def
          loader_changes_def Let_def numeral_3_eq_3 count_slots_def)
  qed
qed

text \<open>For a program that is wrapped, with the checks of lengths decided and the blocks filled.\<close>

definition leak_log :: "heap_event list" where
  "leak_log = [Allocated Filename_copy, Allocated Loader_argv, Allocated Original_path, Allocated Assignment, Allocated Loader_environment,
     Freed Loader_environment, Freed Assignment, Freed Filename_copy, Freed Loader_argv]"

lemma build_loader_wrapped:
  assumes clean: "clean (environ sys)" "clean envp" "clean_paths sys" "length argv \<le> INT64_MAX"
    and wrap: "should_wrap sys (Some path) envp" "redirected filename (redirect_exec_path sys filename envp) = Some path"
      "environment_value envp ''TGCOMPAT_LD_SO'' = Some loader"
  shows "build_loader_arguments sys filename argv envp =
    (if \<not> allocates (heap sys) Filename_copy then Some (Build_error (refusal (heap sys) Filename_copy), [])
     else if \<not> allocates (heap sys) Loader_argv
     then Some (Build_error (refusal (heap sys) Loader_argv), [Allocated Filename_copy, Freed Filename_copy])
     else case realpath sys path of
       Inl e \<Rightarrow> Some (Build_error e, [Allocated Filename_copy, Allocated Loader_argv, Freed Filename_copy, Freed Loader_argv])
     | Inr original \<Rightarrow>
         if \<not> allocates (heap sys) Assignment \<or> \<not> allocates (heap sys) Loader_environment
         then Some (Build_error (last_refusal (heap sys) [Assignment, Loader_environment]),
           [Allocated Filename_copy, Allocated Loader_argv, Allocated Original_path] @ malloc_log (heap sys) Assignment @
           malloc_log (heap sys) Loader_environment @ free_log (heap sys) Loader_environment @ free_log (heap sys) Assignment @
           [Freed Original_path, Freed Filename_copy, Freed Loader_argv])
         else if preload_override sys envp \<noteq> None \<and> \<not> allocates (heap sys) Preload_assignment
         then Some (Build_error (refusal (heap sys) Preload_assignment), leak_log)
         else Some (Built (loader_invocation_of sys envp loader path original argv), loader_log (preload_override sys envp)))"
proof -
  have o: "(if environment_value envp ''TGCOMPAT_EXEC_LD_PRELOAD'' = None then environment_value (environ sys) ''TGCOMPAT_EXEC_LD_PRELOAD''
      else environment_value envp ''TGCOMPAT_EXEC_LD_PRELOAD'') = preload_override sys envp"
    by (simp add: preload_override_def configured_environment_value_def Let_def)
  have lengths: "\<not> SIZE_MAX - 8 < length argv" "\<not> SIZE_MAX - 3 < length (entries_of envp)"
    using clean by (auto simp: entries_of_def clean_def split: option.splits)
  note eq = build_loader_arguments_def [of sys filename argv envp, unfolded Let_def o wrap(2) option.sel entries_of_def [symmetric]]
  show ?thesis
  proof (cases "realpath sys path")
    case (Inl e)
    with lengths wrap show ?thesis unfolding eq by simp
  next
    case (Inr original)
    note sizes = wrapping_sizes [OF clean(1,2,3) Inr clean(4)]
    have "\<not> (preload_override sys envp \<noteq> None \<and> SIZE_MAX - length ld_preload_name - 2 < length (the (preload_override sys envp)))"
      using sizes(5) by auto
    moreover have "\<forall>p. preload_override sys envp = Some p \<longrightarrow> NUL \<notin> set p" using sizes(5) by blast
    note filled = fill_loader_eq [OF sizes(4) this clean(2), of "heap sys" loader path argv]
    ultimately show ?thesis
      unfolding eq using Inr lengths wrap sizes(3) filled
      by (cases "preload_override sys envp") (simp_all add: leak_log_def loader_log_def malloc_log_def)
  qed
qed

text \<open>The ways the construction ends.\<close>

lemma build_loader_cases:
  assumes clean: "clean (environ sys)" "clean envp" "clean_paths sys" "length argv \<le> INT64_MAX"
  obtains (no) "\<not> should_wrap sys (redirected filename (redirect_exec_path sys filename envp)) envp"
        "build_loader_arguments sys filename argv envp = Some (Not_built, [])"
    | (failed) e log where "(\<exists>b. refusal (heap sys) b = e \<and> e \<noteq> 0) \<or>
          realpath sys (the (redirected filename (redirect_exec_path sys filename envp))) = Inl e"
        "build_loader_arguments sys filename argv envp = Some (Build_error e, log)" "heap_run {} log = Some {}" "stays_in own_blocks log"
    | (leaked) "preload_override sys envp \<noteq> None" "refusal (heap sys) Preload_assignment \<noteq> 0"
        "build_loader_arguments sys filename argv envp = Some (Build_error (refusal (heap sys) Preload_assignment), leak_log)"
    | (built) path loader original where "should_wrap sys (Some path) envp"
        "redirected filename (redirect_exec_path sys filename envp) = Some path"
        "environment_value envp ''TGCOMPAT_LD_SO'' = Some loader" "realpath sys path = Inr original"
        "build_loader_arguments sys filename argv envp =
           Some (Built (loader_invocation_of sys envp loader path original argv), loader_log (preload_override sys envp))"
proof (cases "should_wrap sys (redirected filename (redirect_exec_path sys filename envp)) envp")
  case False
  then show ?thesis by (intro no) (simp_all add: build_loader_arguments_def)
next
  case wrap: True
  from should_wrap_someD [OF wrap] obtain path loader
    where path: "redirected filename (redirect_exec_path sys filename envp) = Some path"
      and loader: "environment_value envp ''TGCOMPAT_LD_SO'' = Some loader" .
  let ?h = "heap sys"
  note eq = build_loader_wrapped [OF clean wrap [unfolded path] path loader]
  consider "\<not> allocates ?h Filename_copy" | "allocates ?h Filename_copy" "\<not> allocates ?h Loader_argv"
    | "allocates ?h Filename_copy" "allocates ?h Loader_argv" by blast
  then show ?thesis
  proof cases
    case 1
    then show ?thesis by (intro failed [OF _ eq [simplified if_P [OF 1]]]) (auto simp: allocates_def stays_in_def)
  next
    case 2
    with eq show ?thesis by (intro failed) (auto simp: allocates_def stays_in_def own_blocks_def)
  next
    case 3
    show ?thesis
    proof (cases "realpath sys path")
      case (Inl e)
      with 3 eq path show ?thesis by (intro failed [of e]) (auto simp: stays_in_def own_blocks_def)
    next
      case (Inr original)
      show ?thesis
      proof (cases "list_all (allocates ?h) [Assignment, Loader_environment]")
        case False
        from refused_block [OF this] obtain b where b: "refusal ?h b \<noteq> 0" "last_refusal ?h [Assignment, Loader_environment] = refusal ?h b"
          by blast
        with 3 Inr False eq show ?thesis by (intro failed [of "refusal ?h b"]) (auto simp: malloc_log_def free_log_def stays_in_def own_blocks_def)
      next
        case True
        with 3 Inr eq show ?thesis
          by (cases "preload_override sys envp \<noteq> None \<and> \<not> allocates ?h Preload_assignment")
            (auto simp: allocates_def intro: leaked built [OF wrap [unfolded path] path loader Inr])
      qed
    qed
  qed
qed

lemma leak_log_run: "heap_run {} leak_log = Some {Original_path}"
  by (auto simp: leak_log_def)
lemma c_array_fill: "c_array (map Some xs @ replicate n None) = xs"
  by (cases n) (simp_all, induction xs, simp_all add: c_array_def)

text \<open>C18. A wrapped program is started the way its caller asked. The construction never stores out of bounds. It does nothing exactly when the
  program is not one to wrap, and fails only with the error of the allocator or of \<open>realpath\<close>. Otherwise the loader gets
  its options, the library path if one is set, the path of the program and the arguments of the caller in their order, with the caller's
  \<open>argv[0]\<close>; in the environment the real path of the program is recorded, the preload list is replaced exactly if an override is configured,
  and every other name has the value the caller gave it.\<close>

theorem loader_invocation_exact:
  assumes "clean (environ sys)" "clean envp" "clean_paths sys" "length argv \<le> INT64_MAX"
  shows "\<exists>result log. build_loader_arguments sys filename argv envp = Some (result, log) \<and>
    (case result of
       Not_built \<Rightarrow> \<not> should_wrap sys (redirected filename (redirect_exec_path sys filename envp)) envp
     | Build_error e \<Rightarrow> (\<exists>b. refusal (heap sys) b = e \<and> e \<noteq> 0) \<or>
         realpath sys (the (redirected filename (redirect_exec_path sys filename envp))) = Inl e
     | Built invocation \<Rightarrow> (\<exists>path loader original.
         should_wrap sys (Some path) envp \<and> redirected filename (redirect_exec_path sys filename envp) = Some path \<and>
         environment_value envp ''TGCOMPAT_LD_SO'' = Some loader \<and> realpath sys path = Inr original \<and>
         c_array (loader_arguments invocation) =
           [loader, ''--inhibit-cache'', ''--argv0'', (if argv = [] then path else hd argv)] @
           (case environment_value envp ''TGCOMPAT_LIBRARY_PATH'' of
              None \<Rightarrow> [] | Some p \<Rightarrow> if p = [] then [] else [''--library-path'', p]) @ [path] @ tl argv \<and>
         (let child = Some (c_array (loader_environment invocation));
              override = configured_environment_value sys envp ''TGCOMPAT_EXEC_LD_PRELOAD''
          in environment_value child proc_self_exe_name = Some original \<and>
             environment_value child ld_preload_name = (if override \<noteq> None then override else environment_value envp ld_preload_name) \<and>
             (\<forall>name. CHR ''='' \<notin> set name \<and> name \<noteq> ld_preload_name \<and> name \<noteq> proc_self_exe_name \<longrightarrow>
               environment_value child name = environment_value envp name))))"
  using assms
proof (cases rule: build_loader_cases [of sys envp argv filename])
  case (built path loader original)
  let ?i = "loader_invocation_of sys envp loader path original argv"
  define override where "override = configured_environment_value sys envp ''TGCOMPAT_EXEC_LD_PRELOAD''"
  have o: "preload_override sys envp = override" by (simp add: preload_override_def override_def)
  have args: "c_array (loader_arguments ?i) = loader_words loader (environment_value envp ''TGCOMPAT_LIBRARY_PATH'') path argv"
    by (simp add: loader_invocation_of_def Let_def c_array_fill)
  have env: "c_array (loader_environment ?i) = overridden (loader_changes override original) (entries_of envp)"
    by (simp add: loader_invocation_of_def Let_def o)
  obtain entries where entries: "envp = Some entries" using built(3) by (cases envp) (simp_all add: environment_value_def)
  have look: "environment_value (Some (overridden (loader_changes override original) (entries_of envp))) name =
      (case map_of (loader_changes override original) name of Some v \<Rightarrow> Some v | None \<Rightarrow> environment_value envp name)"
    if "CHR ''='' \<notin> set name" for name
    using that overridden_value [of name "loader_changes override original" entries] entries
    by (auto simp: loader_changes_def entries_of_def split: option.splits)
  show ?thesis
    unfolding built(5) override_def [symmetric]
    using built(1-4) look
    by (auto simp: args env loader_words_def library_words_def loader_changes_def Let_def split: option.splits)
qed auto

definition example_wrap :: "string list" where
  "example_wrap = [''TGCOMPAT_LD_SO=/ld'', ''LD_PRELOAD=old'', ''TGCOMPAT_EXEC_MATCH_INTERPRETER=/l'', ''HOME=/h'', ''TGCOMPAT_EXEC_LD_PRELOAD=new'']"

lemma example_wraps: "should_wrap example_exec (Some ''/x/prog'') (Some example_wrap)"
proof -
  have "fst (read_elf_interpreter (Some example_file) 4096) = Some [0x2f, 0x6c, 0]"
    using read_elf_interpreter_spec [of example_file 4096] example_interpreter
    by (simp add: example_file_def example_elf_def undisturbed_def)
  moreover have "environment_value (Some example_wrap) ''TGCOMPAT_LD_SO'' = Some ''/ld''"
    "environment_value (Some example_wrap) ''TGCOMPAT_EXEC_DISABLE'' = None"
    "environment_value (Some example_wrap) ''TGCOMPAT_EXEC_MATCH_INTERPRETER'' = Some ''/l''"
    by code_simp+
  moreover have "interpreter_string [0x2f, 0x6c, 0] = ''/l''" by code_simp
  ultimately show ?thesis
    by (simp add: should_wrap_def example_exec_def disabled_by_environment_def interpreter_matches_def char_at_def)
qed

lemma example_wrap_clean: "clean (environ example_exec)" "clean (Some example_wrap)" "clean_paths example_exec"
  by (simp_all add: clean_def clean_paths_def example_exec_def example_wrap_def)

lemma example_wrap_path:
  "redirected (Some ''/x/prog'') (redirect_exec_path example_exec (Some ''/x/prog'') (Some example_wrap)) = Some ''/x/prog''"
  "environment_value (Some example_wrap) ''TGCOMPAT_LD_SO'' = Some ''/ld''"
  "environment_value (Some example_wrap) ''HOME'' = Some ''/h''"
  "environment_value (Some example_wrap) ''TGCOMPAT_LIBRARY_PATH'' = None"
  "configured_environment_value example_exec (Some example_wrap) ''TGCOMPAT_EXEC_LD_PRELOAD'' = Some ''new''"
  by code_simp+

definition example_invocation :: loader_invocation where
  "example_invocation = loader_invocation_of example_exec (Some example_wrap) ''/ld'' ''/x/prog'' ''/data/x/prog'' [''prog'', ''-v'']"

lemma example_wrap_run:
  "build_loader_arguments example_exec (Some ''/x/prog'') [''prog'', ''-v''] (Some example_wrap) =
     Some (Built example_invocation, loader_log (preload_override example_exec (Some example_wrap)))"
  unfolding example_invocation_def
  by (subst build_loader_wrapped [OF example_wrap_clean _ example_wraps example_wrap_path(1,2)])
    (simp_all add: allocates_def example_exec_def example_heap_def)

theorem loader_invocation_exact_witness:
  "\<exists>log. build_loader_arguments example_exec (Some ''/x/prog'') [''prog'', ''-v''] (Some example_wrap) = Some (Built example_invocation, log) \<and>
     c_array (loader_arguments example_invocation) = [''/ld'', ''--inhibit-cache'', ''--argv0'', ''prog'', ''/x/prog'', ''-v''] \<and>
     environment_value (Some (c_array (loader_environment example_invocation))) ''TGCOMPAT_PROC_SELF_EXE'' = Some ''/data/x/prog'' \<and>
     environment_value (Some (c_array (loader_environment example_invocation))) ''LD_PRELOAD'' = Some ''new'' \<and>
     environment_value (Some (c_array (loader_environment example_invocation))) ''HOME'' = Some ''/h''"
proof -
  have real: "realpath example_exec ''/x/prog'' = Inr ''/data/x/prog''" by (simp add: example_exec_def)
  have "length [''prog'', ''-v''] \<le> INT64_MAX" by simp
  from loader_invocation_exact [OF example_wrap_clean this, of "Some ''/x/prog''", unfolded example_wrap_run]
  show ?thesis using example_wrap_run example_wrap_path real by (auto simp: Let_def)
qed

subsection \<open>Transparency\<close>

text \<open>No variable of the shim is set, neither for the child nor for the caller.\<close>

definition unconfigured :: "exec_system \<Rightarrow> string list option \<Rightarrow> bool" where
  "unconfigured sys envp \<longleftrightarrow>
     (\<forall>name. take 9 name = ''TGCOMPAT_'' \<longrightarrow> environment_value envp name = None \<and> environment_value (environ sys) name = None)"

lemma unconfigured_value:
  "unconfigured sys envp \<Longrightarrow> take 9 name = ''TGCOMPAT_'' \<Longrightarrow> environment_value envp name = None"
  "unconfigured sys envp \<Longrightarrow> take 9 name = ''TGCOMPAT_'' \<Longrightarrow> environment_value (environ sys) name = None"
  by (simp_all add: unconfigured_def)

lemma unconfigured_same: "unconfigured sys envp \<Longrightarrow> redirect_exec_path sys filename envp = Same"
  by (simp add: redirect_exec_path_def redirect_configured_path_def redirect_shell_path_def unconfigured_value split: option.split)

lemma unconfigured_unwrapped: "unconfigured sys envp \<Longrightarrow> \<not> should_wrap sys filename envp"
  by (simp add: should_wrap_def unconfigured_value)

lemma unconfigured_final: "unconfigured sys envp \<Longrightarrow> \<not> final_path_matches sys filename envp"
  by (simp add: final_path_matches_def configured_environment_value_def unconfigured_value split: option.split)

lemma unconfigured_builds:
  assumes "unconfigured sys envp"
  shows "build_loader_arguments sys filename argv envp = Some (Not_built, [])"
    "build_final_environment sys filename envp = Some (Not_built, [])"
  using unconfigured_unwrapped [OF assms] unconfigured_final [OF assms]
  by (simp_all add: build_loader_arguments_def build_final_environment_def)
subsection \<open>The search along the path\<close>

text \<open>The directories of a path, separated by colons, and the candidate for each.\<close>

fun directories :: "string \<Rightarrow> string list" where
  "directories [] = [[]]"
| "directories (c # cs) = (if c = CHR '':'' then [] # directories cs else (c # hd (directories cs)) # tl (directories cs))"

definition candidate_in :: "string \<Rightarrow> string \<Rightarrow> string" where
  "candidate_in file_name directory = (if directory = [] then file_name else directory @ ''/'' @ file_name)"

definition first_wrapped :: "exec_system \<Rightarrow> string \<Rightarrow> string list option \<Rightarrow> string \<Rightarrow> string option" where
  "first_wrapped sys file_name envp path =
     find (\<lambda>c. is_executable sys c \<and> should_wrap sys (Some c) envp) (map (candidate_in file_name) (directories path))"

lemma directories_not_Nil [simp]: "directories cs \<noteq> []"
  by (cases cs) simp_all

lemma directories_split:
  "directories cursor = (case find_index (\<lambda>c. c = CHR '':'') cursor of
     None \<Rightarrow> [cursor] | Some i \<Rightarrow> take i cursor # directories (drop (i + 1) cursor))"
  by (induction cursor) (auto split: option.splits)

lemma search_path_spec:
  assumes "NUL \<notin> set cursor" "NUL \<notin> set file_name" "length file_name + length cursor \<le> SIZE_MAX - 2"
  shows "\<exists>found log. search_path sys file_name envp n cursor = Some (found, log) \<and>
    (found = None \<or> found = first_wrapped sys file_name envp cursor) \<and>
    ((\<forall>k. allocates (heap sys) (Candidate k)) \<longrightarrow> found = first_wrapped sys file_name envp cursor) \<and>
    stays_in (range Candidate) log \<and>
    (case found of None \<Rightarrow> heap_run {} log = Some {}
     | Some c \<Rightarrow> \<exists>k. log \<noteq> [] \<and> last log = Allocated (Candidate k) \<and> heap_run {} log = Some {Candidate k})"
  using assms
proof (induction sys file_name envp n cursor rule: search_path.induct)
  case (1 sys file_name envp n cursor)
  define len where "len = (case find_index (\<lambda>c. c = CHR '':'') cursor of Some i \<Rightarrow> i | None \<Rightarrow> length cursor)"
  have len: "len \<le> length cursor"
    unfolding len_def by (auto split: option.split dest!: find_index_SomeD(1))
  have small: "\<not> SIZE_MAX - length file_name - 2 < len" using "1.prems"(3) len by linarith
  define c where "c = candidate_in file_name (take len cursor)"
  have written: "write_candidate (garbage (heap sys) (Candidate n)) cursor len file_name = Some c"
    using write_candidate_eq [OF "1.prems"(1,2) len] len by (auto simp: c_def candidate_in_def)
  have first: "first_wrapped sys file_name envp cursor =
      (if is_executable sys c \<and> should_wrap sys (Some c) envp then Some c
       else case find_index (\<lambda>c. c = CHR '':'') cursor of None \<Rightarrow> None | Some i \<Rightarrow> first_wrapped sys file_name envp (drop (i + 1) cursor))"
    unfolding first_wrapped_def by (subst directories_split) (auto simp: c_def len_def split: option.split)
  note step = search_path.simps [of sys file_name envp n cursor, unfolded Let_def, folded len_def]
  show ?case
  proof (cases "allocates (heap sys) (Candidate n)")
    case False
    then show ?thesis using small by (auto simp: step stays_in_def)
  next
    case granted: True
    show ?thesis
    proof (cases "is_executable sys c \<and> should_wrap sys (Some c) envp")
      case True
      with granted small written first show ?thesis by (auto simp: step stays_in_def)
    next
      case False
      show ?thesis
      proof (cases "find_index (\<lambda>c. c = CHR '':'') cursor")
        case None
        with False granted small written first show ?thesis by (auto simp: step stays_in_def)
      next
        case (Some i)
        have "NUL \<notin> set (drop (i + 1) cursor)" using "1.prems"(1) by (auto dest: in_set_dropD)
        moreover have "length file_name + length (drop (i + 1) cursor) \<le> SIZE_MAX - 2" using "1.prems"(3) by simp
        ultimately obtain found log where IH: "search_path sys file_name envp (n + 1) (drop (i + 1) cursor) = Some (found, log)"
          "found = None \<or> found = first_wrapped sys file_name envp (drop (i + 1) cursor)"
          "(\<forall>k. allocates (heap sys) (Candidate k)) \<longrightarrow> found = first_wrapped sys file_name envp (drop (i + 1) cursor)"
          "stays_in (range Candidate) log"
          "case found of None \<Rightarrow> heap_run {} log = Some {}
           | Some c \<Rightarrow> \<exists>k. log \<noteq> [] \<and> last log = Allocated (Candidate k) \<and> heap_run {} log = Some {Candidate k}"
          using "1.IH" [OF refl refl small [unfolded len_def] granted [THEN not_not [THEN iffD2]] written [unfolded len_def] False Some] "1.prems"(2)
          by blast
        have "search_path sys file_name envp n cursor = Some (found, [Allocated (Candidate n), Freed (Candidate n)] @ log)"
          using small granted written False Some IH(1) by (simp add: step)
        moreover have "first_wrapped sys file_name envp cursor = first_wrapped sys file_name envp (drop (i + 1) cursor)"
          using False Some by (auto simp: first)
        ultimately show ?thesis using IH(2-) by (auto simp: stays_in_def split: option.splits)
      qed
    qed
  qed
qed

definition path_of :: "exec_system \<Rightarrow> string" where
  "path_of sys = (case environment_value (environ sys) ''PATH'' of None \<Rightarrow> ''/bin:/usr/bin'' | Some path \<Rightarrow> path)"

lemma path_of_clean:
  assumes "clean (environ sys)" shows "NUL \<notin> set (path_of sys)" "length (path_of sys) \<le> INT64_MAX"
  using environment_value_clean [OF assms, of "''PATH''"] by (auto simp: path_of_def split: option.splits)

text \<open>C21. The search along \<open>PATH\<close> is exact: for a name without a slash it returns the first candidate, in the order of the directories, that is executable
  and is a program to wrap, and nothing if there is none or memory runs out. It never stores beyond a candidate's block, ends for
  every path, and holds the block of the candidate it returns and no other.\<close>

theorem path_search_exact:
  assumes "clean (environ sys)" "NUL \<notin> set file_name" "CHR ''/'' \<notin> set file_name" "length file_name < INT64_MAX"
  shows "\<exists>found log. find_matching_path sys file_name envp = Some (found, log) \<and>
    (let wanted = find (\<lambda>c. is_executable sys c \<and> should_wrap sys (Some c) envp) (map (candidate_in file_name) (directories (path_of sys)))
     in (found = None \<or> found = wanted) \<and> ((\<forall>k. allocates (heap sys) (Candidate k)) \<longrightarrow> found = wanted)) \<and>
    (if found = None then heap_run {} log = Some {}
     else \<exists>k. heap_run {} log = Some {Candidate k} \<and> free_candidate log = [Freed (Candidate k)])"
proof -
  have "length file_name + length (path_of sys) \<le> SIZE_MAX - 2" using path_of_clean(2) [OF assms(1)] assms(4) by simp
  from search_path_spec [OF path_of_clean(1) [OF assms(1)] assms(2) this, of sys envp 0]
  obtain found log where run: "search_path sys file_name envp 0 (path_of sys) = Some (found, log)"
    "found = None \<or> found = first_wrapped sys file_name envp (path_of sys)"
    "(\<forall>k. allocates (heap sys) (Candidate k)) \<longrightarrow> found = first_wrapped sys file_name envp (path_of sys)"
    "case found of None \<Rightarrow> heap_run {} log = Some {}
     | Some c \<Rightarrow> \<exists>k. log \<noteq> [] \<and> last log = Allocated (Candidate k) \<and> heap_run {} log = Some {Candidate k}" by blast
  have "find_matching_path sys file_name envp = search_path sys file_name envp 0 (path_of sys)"
    using assms(3) by (simp add: find_matching_path_def path_of_def)
  with run show ?thesis
    by (cases found) (auto simp: first_wrapped_def free_candidate_def Let_def)
qed

lemma example_directories: "directories (path_of example_exec) = [''/a'', ''/x'']"
  by code_simp

lemma example_not_wrapped: "\<not> should_wrap example_exec (Some ''/a/prog'') (Some example_wrap)"
  by (simp add: should_wrap_def example_exec_def read_elf_interpreter_def split: option.split)

lemma example_candidates: "candidate_in ''prog'' ''/a'' = ''/a/prog''" "candidate_in ''prog'' ''/x'' = ''/x/prog''"
  by code_simp+

lemma example_executable: "is_executable example_exec ''/a/prog''" "is_executable example_exec ''/x/prog''" "allocates (heap example_exec) b"
  by (simp_all add: example_exec_def allocates_def example_heap_def)

lemma example_first: "first_wrapped example_exec ''prog'' (Some example_wrap) (path_of example_exec) = Some ''/x/prog''"
  by (simp add: first_wrapped_def example_directories example_candidates example_executable example_wraps example_not_wrapped)

theorem path_search_exact_witness:
  "\<exists>log. find_matching_path example_exec ''prog'' (Some example_wrap) = Some (Some ''/x/prog'', log)"
  using path_search_exact [OF example_wrap_clean(1), of "''prog''" "Some example_wrap", folded first_wrapped_def, unfolded example_first]
  by (auto simp: example_executable Let_def)

text \<open>The search passes over executable files that are not to be wrapped: with \<open>PATH=/a:/x\<close>, the program \<open>/a/prog\<close> is found first by the rules
  of \<open>execvp\<close>, and the loader is started for \<open>/x/prog\<close>.\<close>

lemma path_order_ignored:
  "is_executable example_exec ''/a/prog'' \<and> map (candidate_in ''prog'') (directories (path_of example_exec)) = [''/a/prog'', ''/x/prog''] \<and>
   (\<exists>log. find_matching_path example_exec ''prog'' (Some example_wrap) = Some (Some ''/x/prog'', log))"
proof -
  have "NUL \<notin> set (path_of example_exec)" "length ''prog'' + length (path_of example_exec) \<le> SIZE_MAX - 2" "NUL \<notin> set ''prog''"
    using path_of_clean [OF example_wrap_clean(1)] by simp_all
  from search_path_spec [OF this(1,3,2), of example_exec "Some example_wrap" 0, unfolded example_first]
  have "\<exists>log. search_path example_exec ''prog'' (Some example_wrap) 0 (path_of example_exec) = Some (Some ''/x/prog'', log)"
    by (auto simp: example_executable)
  moreover have "find_matching_path example_exec ''prog'' (Some example_wrap) =
      search_path example_exec ''prog'' (Some example_wrap) 0 (path_of example_exec)"
    by (simp add: find_matching_path_def path_of_def)
  ultimately show ?thesis by (simp add: example_directories example_candidates example_executable)
qed
subsection \<open>Variadic arguments\<close>

text \<open>The arguments before the null pointer.\<close>

definition variadic :: "string option \<Rightarrow> string option list \<Rightarrow> string list" where
  "variadic first rest = map the (takeWhile (\<lambda>p. p \<noteq> None) (first # rest))"

lemma scan_arguments_eq:
  assumes "None \<in> set (value # source)" "count + length (takeWhile (\<lambda>p. p \<noteq> None) (value # source)) < SIZE_MAX"
  shows "scan_arguments value source count = Some (Inr (count + length (takeWhile (\<lambda>p. p \<noteq> None) (value # source))))"
  using assms
proof (induction source arbitrary: "value" count)
  case Nil
  then show ?case by (cases "value") simp_all
next
  case (Cons v source)
  show ?case
  proof (cases "value")
    case None
    then show ?thesis by simp
  next
    case (Some a)
    with Cons.prems have "None \<in> set (v # source)" "count + 1 + length (takeWhile (\<lambda>p. p \<noteq> None) (v # source)) < SIZE_MAX" by simp_all
    from Cons.IH [OF this] Some Cons.prems show ?thesis by simp
  qed
qed

lemma copy_arguments_eq:
  "value # source = map Some args @ None # others \<Longrightarrow>
   copy_arguments value source (length pre) (length args) (map Some pre @ replicate (length args + 1) None) = Some (map Some (pre @ args) @ [None])"
proof (induction args arbitrary: "value" source pre)
  case (Cons a args)
  then have v: "value = Some a" and source: "source = map Some args @ None # others" by simp_all
  then obtain v source' where s: "source = v # source'" "v # source' = map Some args @ None # others" by (cases args) auto
  have "map Some pre @ Some a # replicate (length args + 1) None = map Some (pre @ [a]) @ replicate (length args + 1) None" by simp
  with Cons.IH [OF s(2), of "pre @ [a]"] v s(1) show ?case by simp
qed simp

lemma variadic_split:
  assumes "None \<in> set (first # rest)"
  obtains others where "first # rest = map Some (variadic first rest) @ None # others"
proof -
  let ?l = "first # rest"
  have "map Some (variadic first rest) = takeWhile (\<lambda>p. p \<noteq> None) ?l"
    unfolding variadic_def map_map by (rule map_idI) (auto dest: set_takeWhileD)
  moreover have "dropWhile (\<lambda>p. p \<noteq> None) ?l \<noteq> []" using assms by (metis (mono_tags) dropWhile_eq_Nil_conv)
  then have "dropWhile (\<lambda>p. p \<noteq> None) ?l = None # tl (dropWhile (\<lambda>p. p \<noteq> None) ?l)"
    by (metis (mono_tags, lifting) hd_dropWhile list.exhaust_sel)
  ultimately show thesis using that by (metis (mono_tags) takeWhile_dropWhile_id)
qed

lemma collect_eq:
  assumes "None \<in> set (first # rest)" "length (variadic first rest) < SIZE_MAX"
  shows "collect_variadic_arguments sys first rest =
    (if allocates (heap sys) Arguments then Some (Inr (variadic first rest), [Allocated Arguments])
     else Some (Inl (refusal (heap sys) Arguments), []))"
proof -
  obtain others where split: "first # rest = map Some (variadic first rest) @ None # others" by (rule variadic_split [OF assms(1)])
  have "scan_arguments first rest 0 = Some (Inr (length (variadic first rest)))"
    using scan_arguments_eq [of first rest 0] assms by (simp add: variadic_def)
  moreover have "copy_arguments first rest 0 (length (variadic first rest)) (replicate (length (variadic first rest) + 1) None) =
      Some (map Some (variadic first rest) @ [None])"
    using copy_arguments_eq [OF split, of "[]"] by simp
  ultimately show ?thesis by (simp add: collect_variadic_arguments_def)
qed

subsection \<open>Memory\<close>

lemma stays_in_simps [simp]:
  "stays_in S []" "stays_in S (e # log) \<longleftrightarrow> event_block e \<in> S \<and> stays_in S log"
  "stays_in S (log @ log') \<longleftrightarrow> stays_in S log \<and> stays_in S log'"
  by (auto simp: stays_in_def)

lemma heap_run_around:
  assumes "heap_run {} log = Some held" "stays_in S log" "b \<notin> S" "held \<subseteq> S"
  shows "heap_run {b} (log @ [Freed b]) = Some held"
proof -
  have "heap_run ({} \<union> {b}) log = Some (held \<union> {b})"
    using assms by (intro heap_run_frame) (auto simp: stays_in_def)
  moreover have "insert b held - {b} = held" using assms by auto
  ultimately show ?thesis by simp
qed

text \<open>All memory is released; or, on a failure without a call, the block of the real path is left.\<close>

definition memory_returned :: "exec_system \<Rightarrow> heap_event list \<Rightarrow> bool \<Rightarrow> bool" where
  "memory_returned sys log failed \<longleftrightarrow> heap_run {} log = Some {} \<or>
     failed \<and> refusal (heap sys) Preload_assignment \<noteq> 0 \<and> heap_run {} log = Some {Original_path}"

lemma memory_returned_around:
  assumes "memory_returned sys log failed" "stays_in S log" "b \<notin> S" "Original_path \<in> S" "heap_run {} before = Some {b}"
  shows "memory_returned sys (before @ log @ [Freed b]) failed"
proof -
  have "heap_run {b} (log @ [Freed b]) = Some held" if "heap_run {} log = Some held" "held \<subseteq> {Original_path}" for held
    using that assms by (intro heap_run_around [of log held S]) auto
  with assms show ?thesis by (fastforce simp: memory_returned_def)
qed

lemma loader_released: "heap_run {} (loader_log override @ free_loader_arguments (loader_invocation_of sys envp loader path original argv)) = Some {}"
  if "override = preload_override sys envp"
  using that by (cases "preload_override sys envp") (auto simp: loader_log_def free_loader_arguments_def loader_invocation_of_def Let_def)

lemma final_released: "heap_run {} (final_log proc @ snd (free_environment_override (final_override preload proc entries))) = Some {}"
  by (cases proc) (auto simp: final_log_def free_environment_override_def final_override_def)

lemma logs_stay:
  "stays_in own_blocks leak_log" "stays_in own_blocks (loader_log override)" "stays_in own_blocks (free_loader_arguments i)"
  "stays_in own_blocks (final_log proc)" "stays_in own_blocks (snd (free_environment_override over))"
  by (simp_all add: leak_log_def loader_log_def free_loader_arguments_def final_log_def free_environment_override_def own_blocks_def)
text \<open>What the callers of the constructions need of them.\<close>

lemma built_loader_returns:
  assumes "clean (environ sys)" "clean envp" "clean_paths sys" "length argv \<le> INT64_MAX"
  obtains (no) "build_loader_arguments sys filename argv envp = Some (Not_built, [])"
    | (failed) e log where "build_loader_arguments sys filename argv envp = Some (Build_error e, log)"
        "memory_returned sys log True" "stays_in own_blocks log"
    | (built) invocation log where "build_loader_arguments sys filename argv envp = Some (Built invocation, log)"
        "heap_run {} (log @ free_loader_arguments invocation) = Some {}" "stays_in own_blocks (log @ free_loader_arguments invocation)"
  using assms
proof (cases rule: build_loader_cases [of sys envp argv filename])
  case (failed e log)
  then show ?thesis by (intro that(2)) (auto simp: memory_returned_def)
next
  case leaked
  then show ?thesis by (intro that(2)) (auto simp: memory_returned_def leak_log_run logs_stay)
next
  case (built path loader original)
  show ?thesis by (rule that(3) [OF built(5) loader_released [OF refl]]) (simp add: logs_stay)
qed (use that(1) in blast)

lemma built_final_returns:
  assumes "clean (environ sys)" "clean envp"
  obtains (no) "build_final_environment sys filename envp = Some (Not_built, [])"
    | (failed) e log where "build_final_environment sys filename envp = Some (Build_error e, log)"
        "heap_run {} log = Some {}" "stays_in own_blocks log"
    | (built) over log where "build_final_environment sys filename envp = Some (Built over, log)"
        "heap_run {} (log @ snd (free_environment_override over)) = Some {}" "stays_in own_blocks (log @ snd (free_environment_override over))"
  using assms
proof (cases rule: build_final_cases [of sys envp filename])
  case (built entries preload)
  show ?thesis by (rule that(3) [OF built(4) final_released]) (simp add: logs_stay)
next
  case (refused b log)
  then show ?thesis by (intro that(2))
next
  case invalid
  show ?thesis by (rule that(2) [OF invalid(3)]) simp_all
qed (use that(1) in blast)

lemma no_override_free [simp]: "snd (free_environment_override no_override) = []"
  by (simp add: free_environment_override_def no_override_def)

lemma execve_returns:
  assumes "clean (environ sys)" "clean envp" "clean_paths sys" "length argv \<le> INT64_MAX"
  shows "\<exists>oc. execve sys real filename argv envp = Some oc \<and> length (calls oc) \<le> 1 \<and>
    memory_returned sys (heap_log oc) (exec_result oc = -1 \<and> calls oc = []) \<and> stays_in own_blocks (heap_log oc)"
proof (cases real)
  case None
  then show ?thesis by (simp add: execve_def fails_with_def memory_returned_def)
next
  case (Some f)
  show ?thesis using assms
  proof (cases rule: built_loader_returns [of sys envp argv filename])
    case no
    show ?thesis using assms(1,2)
      by (cases rule: built_final_returns [of sys envp filename])
        (use Some no in \<open>simp_all add: execve_def fails_with_def passes_on_def memory_returned_def\<close>)
  next
    case (failed e log)
    then show ?thesis using Some by (simp add: execve_def fails_with_def)
  next
    case (built invocation log)
    then show ?thesis using Some by (simp add: execve_def passes_on_def memory_returned_def)
  qed
qed

lemma spawn_wrapped_returns:
  assumes "clean (environ sys)" "clean envp" "clean_paths sys" "length argv \<le> INT64_MAX"
  shows "\<exists>oc. spawn_wrapped sys real path argv envp = Some oc \<and> length (spawn_calls oc) \<le> 1 \<and>
    memory_returned sys (spawn_log oc) (spawn_result oc \<noteq> 0 \<and> spawn_calls oc = []) \<and> stays_in own_blocks (spawn_log oc)"
  using assms
proof (cases rule: built_loader_returns [of sys envp argv path])
  case no
  show ?thesis using assms(1,2)
    by (cases rule: built_final_returns [of sys envp path])
      (use no in \<open>simp_all add: spawn_wrapped_def spawn_fails_def spawns_def memory_returned_def\<close>)
next
  case (failed e log)
  then show ?thesis by (simp add: spawn_wrapped_def spawn_fails_def)
next
  case (built invocation log)
  then show ?thesis by (simp add: spawn_wrapped_def spawns_def memory_returned_def)
qed

text \<open>The search, for a caller.\<close>

lemma search_returns:
  assumes "clean (environ sys)" "NUL \<notin> set file_name" "length file_name < INT64_MAX" "CHR ''/'' \<notin> set file_name"
  obtains (none) log where "find_matching_path sys file_name envp = Some (None, log)" "heap_run {} log = Some {}" "stays_in (range Candidate) log"
    | (found) path log k where "find_matching_path sys file_name envp = Some (Some path, log)" "heap_run {} log = Some {Candidate k}"
        "free_candidate log = [Freed (Candidate k)]" "stays_in (range Candidate) log"
proof -
  have "length file_name + length (path_of sys) \<le> SIZE_MAX - 2" using path_of_clean(2) [OF assms(1)] assms(3) by simp
  from search_path_spec [OF path_of_clean(1) [OF assms(1)] assms(2) this, of sys envp 0]
  obtain found log where run: "search_path sys file_name envp 0 (path_of sys) = Some (found, log)" "stays_in (range Candidate) log"
    "case found of None \<Rightarrow> heap_run {} log = Some {}
     | Some c \<Rightarrow> \<exists>k. log \<noteq> [] \<and> last log = Allocated (Candidate k) \<and> heap_run {} log = Some {Candidate k}" by blast
  have "find_matching_path sys file_name envp = search_path sys file_name envp 0 (path_of sys)"
    using assms(4) by (simp add: find_matching_path_def path_of_def)
  with run show thesis using none found by (cases found) (auto simp: free_candidate_def)
qed

definition caller_blocks :: "block set" where
  "caller_blocks = {b. b \<noteq> Arguments}"

lemma stays_in_mono: "stays_in S log \<Longrightarrow> S \<subseteq> S' \<Longrightarrow> stays_in S' log"
  by (auto simp: stays_in_def)

lemma blocks_mono [simp]: "own_blocks \<subseteq> caller_blocks" "range Candidate \<subseteq> caller_blocks" "Candidate k \<in> caller_blocks"
  "Original_path \<in> own_blocks" "Original_path \<in> caller_blocks" "Candidate k \<notin> own_blocks" "Arguments \<notin> caller_blocks"
  by (auto simp: own_blocks_def caller_blocks_def)

lemma execvpe_returns:
  assumes clean: "clean (environ sys)" "clean envp" "clean_paths sys" "length argv \<le> INT64_MAX"
    and name: "NUL \<notin> set file_name" "length file_name < INT64_MAX"
  shows "\<exists>oc. execvpe sys real_execve real_execvpe file_name argv envp = Some oc \<and> length (calls oc) \<le> 1 \<and>
    memory_returned sys (heap_log oc) (exec_result oc = -1 \<and> calls oc = []) \<and> stays_in caller_blocks (heap_log oc)"
proof (cases "CHR ''/'' \<in> set file_name")
  case True
  then show ?thesis using execve_returns [OF clean, of real_execve "Some file_name"] stays_in_mono [of own_blocks _ caller_blocks]
    by (auto simp: execvpe_def)
next
  case False
  show ?thesis using clean(1) name False
  proof (cases rule: search_returns [of sys file_name envp])
    case (none log)
    then show ?thesis using False stays_in_mono [of "range Candidate" log caller_blocks]
      by (simp add: execvpe_def fails_with_def passes_on_def memory_returned_def split: option.split)
  next
    case (found path log k)
    from execve_returns [OF clean, of real_execve "Some path"] obtain oc where
      oc: "execve sys real_execve (Some path) argv envp = Some oc" "length (calls oc) \<le> 1"
        "memory_returned sys (heap_log oc) (exec_result oc = -1 \<and> calls oc = [])" "stays_in own_blocks (heap_log oc)" by blast
    have "memory_returned sys (log @ heap_log oc @ [Freed (Candidate k)]) (exec_result oc = -1 \<and> calls oc = [])"
      by (rule memory_returned_around [OF oc(3,4)]) (simp_all add: found(2))
    then show ?thesis using False found oc stays_in_mono [of own_blocks "heap_log oc" caller_blocks] stays_in_mono [of "range Candidate" log caller_blocks]
      by (simp add: execvpe_def)
  qed
qed

lemma posix_spawnp_returns:
  assumes clean: "clean (environ sys)" "clean envp" "clean_paths sys" "length argv \<le> INT64_MAX"
    and name: "NUL \<notin> set file_name" "length file_name < INT64_MAX"
  shows "\<exists>oc. posix_spawnp sys real_spawn real_spawnp file_name argv envp = Some oc \<and> length (spawn_calls oc) \<le> 1 \<and>
    memory_returned sys (spawn_log oc) (spawn_result oc \<noteq> 0 \<and> spawn_calls oc = [])"
proof (cases real_spawnp)
  case None
  then show ?thesis by (simp add: posix_spawnp_def spawn_fails_def memory_returned_def)
next
  case (Some real_p)
  show ?thesis
  proof (cases "CHR ''/'' \<in> set file_name")
    case True
    then show ?thesis using Some spawn_wrapped_returns [OF clean]
      by (cases real_spawn) (auto simp: posix_spawnp_def spawn_fails_def memory_returned_def)
  next
    case False
    show ?thesis using clean(1) name False
    proof (cases rule: search_returns [of sys file_name envp])
      case (none log)
      then show ?thesis using Some False by (simp add: posix_spawnp_def spawns_def memory_returned_def)
    next
      case (found path log k)
      show ?thesis
      proof (cases real_spawn)
        case None
        then show ?thesis using Some False found by (simp add: posix_spawnp_def spawn_fails_def memory_returned_def)
      next
        case real: (Some real)
        from spawn_wrapped_returns [OF clean, of real "Some path"] obtain oc where
          oc: "spawn_wrapped sys real (Some path) argv envp = Some oc" "length (spawn_calls oc) \<le> 1"
            "memory_returned sys (spawn_log oc) (spawn_result oc \<noteq> 0 \<and> spawn_calls oc = [])" "stays_in own_blocks (spawn_log oc)" by blast
        have "memory_returned sys (log @ spawn_log oc @ [Freed (Candidate k)]) (spawn_result oc \<noteq> 0 \<and> spawn_calls oc = [])"
          by (rule memory_returned_around [OF oc(3,4)]) (simp_all add: found(2))
        then show ?thesis using Some real False found oc by (simp add: posix_spawnp_def)
      qed
    qed
  qed
qed

lemma with_arguments_returns:
  assumes "None \<in> set (first # rest)" "length (variadic first rest) < SIZE_MAX"
    and call: "\<exists>oc. call (variadic first rest) = Some oc \<and> length (calls oc) \<le> 1 \<and>
      memory_returned sys (heap_log oc) (exec_result oc = -1 \<and> calls oc = []) \<and> stays_in caller_blocks (heap_log oc)"
  shows "\<exists>oc. with_arguments sys first rest call = Some oc \<and> length (calls oc) \<le> 1 \<and>
    memory_returned sys (heap_log oc) (exec_result oc = -1 \<and> calls oc = [])"
proof (cases "allocates (heap sys) Arguments")
  case False
  then show ?thesis using collect_eq [OF assms(1,2), of sys] by (simp add: with_arguments_def fails_with_def memory_returned_def)
next
  case True
  from call obtain oc where oc: "call (variadic first rest) = Some oc" "length (calls oc) \<le> 1"
    "memory_returned sys (heap_log oc) (exec_result oc = -1 \<and> calls oc = [])" "stays_in caller_blocks (heap_log oc)" by blast
  have "memory_returned sys ([Allocated Arguments] @ heap_log oc @ [Freed Arguments]) (exec_result oc = -1 \<and> calls oc = [])"
    by (rule memory_returned_around [OF oc(3,4)]) simp_all
  then show ?thesis using True oc collect_eq [OF assms(1,2), of sys] by (simp add: with_arguments_def)
qed

text \<open>C20. The shim gives back its memory and makes at most one call. For every environment, every list of arguments and every behaviour of the allocator,
  the functions that collect variable arguments, search the path and build command lines end without a store out of bounds; no block is
  released twice or while it is not held; and when they return everything is released, with one exception: if the block for
  \<open>LD_PRELOAD\<close> is refused, the call fails and the block of the real path is left.\<close>

theorem exec_memory_returned:
  assumes "clean (environ sys)" "clean envp" "clean_paths sys"
    and "NUL \<notin> set file_name" "length file_name < INT64_MAX"
    and "None \<in> set (first # rest)" "length (variadic first rest) \<le> INT64_MAX"
  shows "(\<exists>oc. execlp sys real_execve real_execvpe file_name first rest = Some oc \<and> length (calls oc) \<le> 1 \<and>
      memory_returned sys (heap_log oc) (exec_result oc = -1 \<and> calls oc = [])) \<and>
    (\<exists>oc. execle sys real_execve path first rest envp = Some oc \<and> length (calls oc) \<le> 1 \<and>
      memory_returned sys (heap_log oc) (exec_result oc = -1 \<and> calls oc = [])) \<and>
    (\<exists>oc. posix_spawnp sys real_spawn real_spawnp file_name (variadic first rest) envp = Some oc \<and> length (spawn_calls oc) \<le> 1 \<and>
      memory_returned sys (spawn_log oc) (spawn_result oc \<noteq> 0 \<and> spawn_calls oc = []))"
proof (intro conjI)
  have small: "length (variadic first rest) < SIZE_MAX" using assms(7) by simp
  show "\<exists>oc. execlp sys real_execve real_execvpe file_name first rest = Some oc \<and> length (calls oc) \<le> 1 \<and>
      memory_returned sys (heap_log oc) (exec_result oc = -1 \<and> calls oc = [])"
    unfolding execlp_def
    by (rule with_arguments_returns [OF assms(6) small]) (rule execvpe_returns [OF assms(1,1,3,7,4,5)])
  have "\<exists>oc. execve sys real_execve path (variadic first rest) envp = Some oc \<and> length (calls oc) \<le> 1 \<and>
      memory_returned sys (heap_log oc) (exec_result oc = -1 \<and> calls oc = []) \<and> stays_in caller_blocks (heap_log oc)"
    using execve_returns [OF assms(1,2,3,7), of real_execve path] stays_in_mono [of own_blocks _ caller_blocks] by auto
  then show "\<exists>oc. execle sys real_execve path first rest envp = Some oc \<and> length (calls oc) \<le> 1 \<and>
      memory_returned sys (heap_log oc) (exec_result oc = -1 \<and> calls oc = [])"
    unfolding execle_def by (rule with_arguments_returns [OF assms(6) small])
  show "\<exists>oc. posix_spawnp sys real_spawn real_spawnp file_name (variadic first rest) envp = Some oc \<and> length (spawn_calls oc) \<le> 1 \<and>
      memory_returned sys (spawn_log oc) (spawn_result oc \<noteq> 0 \<and> spawn_calls oc = [])"
    by (rule posix_spawnp_returns [OF assms(1,2,3,7,4,5)])
qed

theorem exec_memory_returned_witness:
  "\<exists>oc. execle example_exec (Some (\<lambda>call. (-1, 2))) (Some ''/x/prog'') (Some ''prog'') [Some ''-v'', None] (Some example_wrap) = Some oc \<and>
     heap_run {} (heap_log oc) = Some {}"
proof -
  have "None \<in> set (Some ''prog'' # [Some ''-v'', None])" "length (variadic (Some ''prog'') [Some ''-v'', None]) \<le> INT64_MAX"
    by (simp_all add: variadic_def)
  from exec_memory_returned [OF example_wrap_clean _ _ this, of "''prog''" "Some (\<lambda>call. (-1, 2))" None "Some ''/x/prog''" None None]
  show ?thesis by (auto simp: memory_returned_def example_exec_def example_heap_def)
qed

text \<open>The exception occurs: a wrapped program with a configured preload list, when only that block is refused.\<close>

lemma original_path_leaks:
  assumes "clean (environ sys)" "clean envp" "clean_paths sys" "length argv \<le> INT64_MAX"
    and "should_wrap sys (Some path) envp" "redirected filename (redirect_exec_path sys filename envp) = Some path"
      "environment_value envp ''TGCOMPAT_LD_SO'' = Some loader" "realpath sys path = Inr original"
    and "list_all (allocates (heap sys)) loader_blocks" "preload_override sys envp \<noteq> None" "\<not> allocates (heap sys) Preload_assignment"
  shows "\<exists>oc. execve sys (Some real) filename argv envp = Some oc \<and> exec_result oc = -1 \<and> heap_run {} (heap_log oc) = Some {Original_path}"
  using build_loader_wrapped [OF assms(1-7)] assms(8-)
  by (simp add: execve_def fails_with_def loader_blocks_def leak_log_run)

text \<open>A name that is searched along the path and not wrapped goes to the C library as it is.\<close>

lemma unwrapped_find:
  assumes "clean (environ sys)" "NUL \<notin> set file_name" "length file_name < INT64_MAX" "CHR ''/'' \<notin> set file_name"
    and "\<And>c. \<not> should_wrap sys (Some c) envp"
  shows "\<exists>log. find_matching_path sys file_name envp = Some (None, log) \<and> heap_run {} log = Some {} \<and> stays_in (range Candidate) log"
proof -
  have "first_wrapped sys file_name envp (path_of sys) = None" using assms(5) by (simp add: first_wrapped_def find_None_iff)
  moreover have "length file_name + length (path_of sys) \<le> SIZE_MAX - 2" using path_of_clean(2) [OF assms(1)] assms(3) by simp
  ultimately obtain log where "search_path sys file_name envp 0 (path_of sys) = Some (None, log)" "heap_run {} log = Some {}" "stays_in (range Candidate) log"
    using search_path_spec [OF path_of_clean(1) [OF assms(1)] assms(2), of sys envp 0] by fastforce
  then show ?thesis using assms(4) by (auto simp: find_matching_path_def path_of_def)
qed

lemma unwrapped_search:
  assumes "clean (environ sys)" "NUL \<notin> set file_name" "length file_name < INT64_MAX" "CHR ''/'' \<notin> set file_name"
    and "\<And>c. \<not> should_wrap sys (Some c) envp"
  shows "\<exists>log. execvpe sys real_execve (Some real) file_name argv envp = Some (passes_on real (Execvpe file_name argv envp) log) \<and>
    heap_run {} log = Some {} \<and> stays_in (range Candidate) log"
  using unwrapped_find [OF assms] assms(4) by (auto simp: execvpe_def)

text \<open>The redirection of the shell covers \<open>execve\<close> of \<open>/bin/sh\<close>, but not a search that finds \<open>/bin/sh\<close>.\<close>

lemma shell_search_not_redirected:
  fixes sys :: exec_system
  defines "envp \<equiv> Some [''TGCOMPAT_EXEC_SHELL=/g/sh'']"
  assumes "environ sys = Some [''PATH=/bin'']" "is_executable sys ''/bin/sh''"
  shows "redirected (Some ''/bin/sh'') (redirect_exec_path sys (Some ''/bin/sh'') envp) = Some ''/g/sh''"
    "\<exists>log. execvpe sys real_execve (Some real) ''sh'' argv envp = Some (passes_on real (Execvpe ''sh'' argv envp) log)"
proof -
  have e: "environment_value envp ''TGCOMPAT_EXEC_SHELL'' = Some ''/g/sh''" "environment_value envp ''TGCOMPAT_EXEC_PATH_FROM'' = None"
    "environment_value envp ''TGCOMPAT_EXEC_PATH_TO'' = None" "environment_value envp ''TGCOMPAT_LD_SO'' = None"
    "environment_value (Some [''PATH=/bin'']) ''TGCOMPAT_EXEC_PATH_FROM'' = None" "proper_path ''/g/sh''"
    unfolding envp_def by code_simp+
  show "redirected (Some ''/bin/sh'') (redirect_exec_path sys (Some ''/bin/sh'') envp) = Some ''/g/sh''"
    by (simp add: redirect_exec_path_def redirect_configured_path_def redirect_shell_path_def redirected_def e assms(2))
  have "clean (environ sys)" by (simp add: assms(2) clean_def)
  then show "\<exists>log. execvpe sys real_execve (Some real) ''sh'' argv envp = Some (passes_on real (Execvpe ''sh'' argv envp) log)"
    using unwrapped_search [of sys "''sh''" envp real_execve real argv] by (auto simp: should_wrap_def e)
qed

text \<open>A run that is exactly one call of the C library: its result and error are returned, and of the blocks named, the only ones it
  allocates, all are released.\<close>

definition exec_is_call :: "exec_function \<Rightarrow> exec_call \<Rightarrow> block set \<Rightarrow> exec_outcome option \<Rightarrow> bool" where
  "exec_is_call real call blocks outcome \<longleftrightarrow>
     (\<exists>log. outcome = Some \<lparr>exec_result = fst (real call), exec_errno = snd (real call), calls = [call], heap_log = log\<rparr> \<and>
        heap_run {} log = Some {} \<and> stays_in blocks log)"

definition spawn_is_call :: "spawn_function \<Rightarrow> exec_call \<Rightarrow> block set \<Rightarrow> spawn_outcome option \<Rightarrow> bool" where
  "spawn_is_call real call blocks outcome \<longleftrightarrow>
     (\<exists>log. outcome = Some \<lparr>spawn_result = real call, spawn_calls = [call], spawn_log = log\<rparr> \<and>
        heap_run {} log = Some {} \<and> stays_in blocks log)"

lemma unconfigured_environ: "unconfigured sys envp \<Longrightarrow> unconfigured sys (environ sys)"
  by (simp add: unconfigured_def)

lemma unconfigured_execve:
  assumes "unconfigured sys envp"
  shows "exec_is_call real (Execve filename argv envp) {} (execve sys (Some real) filename argv envp)"
    "spawn_is_call spawn (Execve filename argv envp) {} (spawn_wrapped sys spawn filename argv envp)"
  using unconfigured_builds [OF assms] unconfigured_same [OF assms]
  by (simp_all add: exec_is_call_def spawn_is_call_def execve_def spawn_wrapped_def passes_on_def spawns_def redirected_def)

text \<open>The call a function that searches the path is asked for, and the blocks of the search.\<close>

definition search_call :: "string \<Rightarrow> string list \<Rightarrow> string list option \<Rightarrow> exec_call" where
  "search_call name argv envp = (if CHR ''/'' \<in> set name then Execve (Some name) argv envp else Execvpe name argv envp)"

definition search_blocks :: "string \<Rightarrow> block set" where
  "search_blocks name = (if CHR ''/'' \<in> set name then {} else range Candidate)"

lemma unconfigured_execvpe:
  assumes "unconfigured sys envp" "clean (environ sys)" "NUL \<notin> set name" "length name < INT64_MAX"
  shows "exec_is_call (if CHR ''/'' \<in> set name then real else real_p) (search_call name argv envp) (search_blocks name)
      (execvpe sys (Some real) (Some real_p) name argv envp)"
    "spawn_is_call (if CHR ''/'' \<in> set name then spawn else spawn_p) (search_call name argv envp) (search_blocks name)
      (posix_spawnp sys (Some spawn) (Some spawn_p) name argv envp)"
proof -
  note plain = unconfigured_execve [OF assms(1)]
  obtain log where log: "CHR ''/'' \<notin> set name \<Longrightarrow>
      find_matching_path sys name envp = Some (None, log) \<and> heap_run {} log = Some {} \<and> stays_in (range Candidate) log"
    using unwrapped_find [OF assms(2-4) _ unconfigured_unwrapped [OF assms(1)]] by blast
  show "exec_is_call (if CHR ''/'' \<in> set name then real else real_p) (search_call name argv envp) (search_blocks name)
      (execvpe sys (Some real) (Some real_p) name argv envp)"
    using plain(1) [of real "Some name" argv] log
    by (cases "CHR ''/'' \<in> set name") (simp_all add: execvpe_def search_call_def search_blocks_def exec_is_call_def passes_on_def)
  show "spawn_is_call (if CHR ''/'' \<in> set name then spawn else spawn_p) (search_call name argv envp) (search_blocks name)
      (posix_spawnp sys (Some spawn) (Some spawn_p) name argv envp)"
    using plain(2) [of spawn "Some name" argv] log
    by (cases "CHR ''/'' \<in> set name") (simp_all add: posix_spawnp_def search_call_def search_blocks_def spawn_is_call_def spawns_def)
qed

lemma with_arguments_is_call:
  assumes "None \<in> set (first # rest)" "length (variadic first rest) < SIZE_MAX" "allocates (heap sys) Arguments"
    and "exec_is_call real call blocks (f (variadic first rest))" "Arguments \<notin> blocks"
  shows "exec_is_call real call (insert Arguments blocks) (with_arguments sys first rest f)"
proof -
  from assms(4) obtain log where log: "f (variadic first rest) = Some \<lparr>exec_result = fst (real call), exec_errno = snd (real call), calls = [call], heap_log = log\<rparr>"
    "heap_run {} log = Some {}" "stays_in blocks log" by (auto simp: exec_is_call_def)
  have "heap_run {Arguments} (log @ [Freed Arguments]) = Some {}" by (rule heap_run_around [OF log(2,3) assms(5)]) simp
  moreover have "stays_in (insert Arguments blocks) log" by (rule stays_in_mono [OF log(3)]) blast
  ultimately show ?thesis
    using collect_eq [OF assms(1,2), of sys] assms(3) log(1) by (auto simp: exec_is_call_def with_arguments_def stays_in_def)
qed

text \<open>C22. The shim is transparent unless it is configured. When none of its variables is set, for the child or for the caller, each of the
  nine functions makes exactly the call it was asked for, with the same path or name, arguments and environment, and returns what it
  returns. The functions that take a path and an array touch no memory. Those that take variable arguments allocate and release
  the array they pass on; those that search the path for a name without a slash allocate candidates and release them before the search is
  left to the C library.\<close>

theorem exec_transparent:
  assumes "unconfigured sys envp" "clean (environ sys)" "NUL \<notin> set name" "length name < INT64_MAX"
    and "None \<in> set (first # rest)" "length (variadic first rest) < SIZE_MAX" "allocates (heap sys) Arguments"
  shows "exec_is_call real (Execve path argv envp) {} (execve sys (Some real) path argv envp) \<and>
    exec_is_call real (Execve path argv (environ sys)) {} (execv sys (Some real) path argv) \<and>
    exec_is_call real (Execve path (variadic first rest) (environ sys)) {Arguments} (execl sys (Some real) path first rest) \<and>
    exec_is_call real (Execve path (variadic first rest) envp) {Arguments} (execle sys (Some real) path first rest envp) \<and>
    exec_is_call (if CHR ''/'' \<in> set name then real else real_p) (search_call name argv envp) (search_blocks name)
      (execvpe sys (Some real) (Some real_p) name argv envp) \<and>
    exec_is_call (if CHR ''/'' \<in> set name then real else real_p) (search_call name argv (environ sys)) (search_blocks name)
      (execvp sys (Some real) (Some real_p) name argv) \<and>
    exec_is_call (if CHR ''/'' \<in> set name then real else real_p) (search_call name (variadic first rest) (environ sys))
      (insert Arguments (search_blocks name)) (execlp sys (Some real) (Some real_p) name first rest) \<and>
    spawn_is_call spawn (Execve path argv envp) {} (posix_spawn sys (Some spawn) path argv envp) \<and>
    spawn_is_call (if CHR ''/'' \<in> set name then spawn else spawn_p) (search_call name argv envp) (search_blocks name)
      (posix_spawnp sys (Some spawn) (Some spawn_p) name argv envp)"
proof -
  note own = unconfigured_environ [OF assms(1)]
  have fresh: "Arguments \<notin> search_blocks name" "Arguments \<notin> {}" by (auto simp: search_blocks_def)
  note array = with_arguments_is_call [OF assms(5-7) _ fresh(2)] with_arguments_is_call [OF assms(5-7) _ fresh(1)]
  note plain = unconfigured_execve [OF assms(1)] unconfigured_execve [OF own]
  note search = unconfigured_execvpe [OF assms(1-4)] unconfigured_execvpe [OF own assms(2-4)]
  show ?thesis unfolding execv_def execl_def execle_def execvp_def execlp_def posix_spawn_def option.case
    by (intro conjI plain search array)
qed

theorem exec_transparent_witness:
  "execve example_exec (Some (\<lambda>call. (-1, 2))) (Some ''/bin/sh'') [''sh''] (Some [''HOME=/h'']) =
     Some \<lparr>exec_result = -1, exec_errno = 2, calls = [Execve (Some ''/bin/sh'') [''sh''] (Some [''HOME=/h''])], heap_log = []\<rparr> \<and>
   (\<exists>log. execlp example_exec (Some (\<lambda>call. (-1, 2))) (Some (\<lambda>call. (-1, 13))) ''sh'' (Some ''sh'') [Some ''-c'', None] =
     Some \<lparr>exec_result = -1, exec_errno = 13, calls = [Execvpe ''sh'' [''sh'', ''-c''] (Some [''PATH=/a:/x''])], heap_log = log\<rparr> \<and>
     heap_run {} log = Some {})"
proof -
  have "environment_value (Some [''HOME=/h'']) name = None \<and> environment_value (Some [''PATH=/a:/x'']) name = None"
    if "take 9 name = ''TGCOMPAT_''" for name
  proof -
    from that obtain t where "name = ''TGCOMPAT_'' @ t" by (metis append_take_drop_id)
    then show ?thesis by (auto simp: environment_value_def assigns_iff)
  qed
  then have un: "unconfigured example_exec (Some [''HOME=/h''])" by (simp add: unconfigured_def example_exec_def)
  have sys: "clean (environ example_exec)" "allocates (heap example_exec) Arguments" "environ example_exec = Some [''PATH=/a:/x'']"
    by (simp_all add: example_exec_def clean_def example_heap_def allocates_def)
  have args: "None \<in> set (Some ''sh'' # [Some ''-c'', None])" "variadic (Some ''sh'') [Some ''-c'', None] = [''sh'', ''-c'']"
    "length (variadic (Some ''sh'') [Some ''-c'', None]) < SIZE_MAX"
    by (simp_all add: variadic_def)
  have name: "NUL \<notin> set ''sh''" "length ''sh'' < INT64_MAX" "CHR ''/'' \<notin> set ''sh''" by simp_all
  from exec_transparent [OF un sys(1) name(1,2) args(1,3) sys(2), of "\<lambda>call. (-1, 2)" "Some ''/bin/sh''" "[''sh'']" "\<lambda>call. (-1, 13)" "\<lambda>call. 0" "\<lambda>call. 0"]
  show ?thesis using args(2) sys(3) by (auto simp: exec_is_call_def search_call_def stays_in_def)
qed

end
