(* ===== verification/Daemon.thy ===== *)
theory Daemon imports Broker begin

text \<open>
  The daemon (\<open>tgcompatd.c\<close>): its arguments, its start, the loop that accepts connections and gives each to a worker thread, and
  its end. Serving a connection is the broker's part; here a worker is what it does to the table, the descriptors and the threads of the
  process. What is printed is not modelled.
\<close>

unbundle bit_operations_syntax

subsection \<open>The process and its workers\<close>

abbreviation (input) MAX_CLIENTS :: nat where "MAX_CLIENTS \<equiv> 64"
abbreviation (input) EXIT_SUCCESS :: int where "EXIT_SUCCESS \<equiv> 0"
abbreviation (input) EXIT_FAILURE :: int where "EXIT_FAILURE \<equiv> 1"

text \<open>A slot of the table. All slots point to the one broker, so the pointer to it is left out.\<close>

record client_worker =
  worker_thread :: nat
  expected_uid :: u32
  socket_fd :: nat
  worker_result :: int
  worker_done :: bool
  active :: bool

definition empty_worker :: client_worker where
  "empty_worker = \<lparr>worker_thread = 0, expected_uid = 0, socket_fd = 0, worker_result = 0, worker_done = False, active = False\<rparr>"

text \<open>The process: the table, its descriptors and its threads that are not joined, the slots whose thread has closed its socket, the connections that
  were shut down, and counts of closes of a descriptor that is not open and joins of a thread that does not exist.\<close>

record daemon =
  workers :: "client_worker list"
  open_fds :: "nat set"
  threads :: "nat set"
  closed_slots :: "nat set"
  shut_fds :: "nat list"
  bad_closes :: nat
  bad_joins :: nat

definition close_fd :: "nat \<Rightarrow> daemon \<Rightarrow> daemon" where
  "close_fd fd d = d\<lparr>open_fds := open_fds d - {fd}, bad_closes := bad_closes d + (if fd \<in> open_fds d then 0 else 1)\<rparr>"

definition join_thread :: "nat \<Rightarrow> daemon \<Rightarrow> daemon" where
  "join_thread t d = d\<lparr>threads := threads d - {t}, bad_joins := bad_joins d + (if t \<in> threads d then 0 else 1)\<rparr>"

definition set_worker :: "nat \<Rightarrow> (client_worker \<Rightarrow> client_worker) \<Rightarrow> daemon \<Rightarrow> daemon" where
  "set_worker i f d = d\<lparr>workers := (workers d)[i := f (workers d ! i)]\<rparr>"

text \<open>The thread of a slot: \<open>r\<close> is what \<open>tgc_broker_serve_connection\<close> returns. Its two effects are separate steps, since the main thread can run
  between them.\<close>

definition serve_client_close :: "nat \<Rightarrow> int \<Rightarrow> daemon \<Rightarrow> daemon" where
  "serve_client_close i r d =
     (let d = set_worker i (\<lambda>w. w\<lparr>worker_result := r\<rparr>) d
      in (close_fd (socket_fd (workers d ! i)) d)\<lparr>closed_slots := insert i (closed_slots d)\<rparr>)"

definition serve_client_done :: "nat \<Rightarrow> daemon \<Rightarrow> daemon" where
  "serve_client_done i d = set_worker i (\<lambda>w. w\<lparr>worker_done := True\<rparr>) d"

definition is_normal_client_disconnect :: "int \<Rightarrow> bool" where
  "is_normal_client_disconnect result \<longleftrightarrow> result = err EPIPE \<or> result = err ECONNRESET"

definition reap_worker :: "nat \<Rightarrow> daemon \<Rightarrow> daemon" where
  "reap_worker i d =
     (let w = workers d ! i in
      if \<not> active w \<or> \<not> worker_done w then d
      else set_worker i (\<lambda>w. w\<lparr>active := False\<rparr>) (join_thread (worker_thread w) d))"

definition reap_finished_workers :: "daemon \<Rightarrow> daemon" where
  "reap_finished_workers d = fold reap_worker [0..<MAX_CLIENTS] d"

definition available_worker :: "daemon \<Rightarrow> nat option \<times> daemon" where
  "available_worker d = (let d = reap_finished_workers d in (find_index (\<lambda>w. \<not> active w) (workers d), d))"

text \<open>A join returns when the thread has run to its end; \<open>results\<close> says with what the threads still running end.\<close>

definition run_to_end :: "nat \<Rightarrow> int \<Rightarrow> daemon \<Rightarrow> daemon" where
  "run_to_end i r d =
     (let d = (if i \<in> closed_slots d then d else serve_client_close i r d)
      in if worker_done (workers d ! i) then d else serve_client_done i d)"

definition stop_worker :: "(nat \<Rightarrow> int) \<Rightarrow> nat \<Rightarrow> daemon \<Rightarrow> daemon" where
  "stop_worker results i d =
     (let w = workers d ! i in
      if \<not> active w then d
      else set_worker i (\<lambda>w. w\<lparr>active := False\<rparr>) (join_thread (worker_thread w) (run_to_end i (results i) d)))"

definition stop_and_join_workers :: "(nat \<Rightarrow> int) \<Rightarrow> daemon \<Rightarrow> daemon" where
  "stop_and_join_workers results d =
     (let d = d\<lparr>shut_fds := shut_fds d @ map socket_fd (filter active (workers d))\<rparr>
      in fold (stop_worker results) [0..<MAX_CLIENTS] d)"

subsection \<open>The main loop\<close>

abbreviation (input) POLLIN :: u16 where "POLLIN \<equiv> 1"
abbreviation (input) POLL_FAILURE :: u16 where "POLL_FAILURE \<equiv> 56"

text \<open>The answers of the system in one round of the loop: the result of \<open>poll\<close> with \<open>errno\<close> and the two result masks, the number of bytes of the
  signal read with \<open>errno\<close>, the error or the descriptor of \<open>accept4\<close>, the result of serving a connection in place, and the result
  of \<open>pthread_create\<close> with the new thread.\<close>

record loop_answers =
  poll_result :: int
  poll_errno :: int
  signal_revents :: u16
  listener_revents :: u16
  read_bytes :: int
  read_errno :: int
  accept_answer :: "int + nat"
  serve_result :: int
  create_answer :: int
  new_thread :: nat

abbreviation (input) sizeof_siginfo :: int where "sizeof_siginfo \<equiv> 128"

datatype loop_exit = Continue daemon | Stop bool daemon

definition start_worker :: "u32 \<Rightarrow> loop_answers \<Rightarrow> nat \<Rightarrow> daemon \<Rightarrow> daemon" where
  "start_worker uid ans client_fd d =
     (let (worker, d) = available_worker d in
      case worker of
        None \<Rightarrow> close_fd client_fd d
      | Some i \<Rightarrow>
          let d = (set_worker i (\<lambda>w. w\<lparr>expected_uid := uid, socket_fd := client_fd, worker_result := 0, active := True, worker_done := False\<rparr>) d)
                \<lparr>closed_slots := closed_slots d - {i}\<rparr>
          in if create_answer ans \<noteq> 0 then close_fd client_fd (set_worker i (\<lambda>w. w\<lparr>active := False\<rparr>) d)
             else (set_worker i (\<lambda>w. w\<lparr>worker_thread := new_thread ans\<rparr>) d)\<lparr>threads := insert (new_thread ans) (threads d)\<rparr>)"

definition main_round :: "bool \<Rightarrow> u32 \<Rightarrow> loop_answers \<Rightarrow> daemon \<Rightarrow> loop_exit" where
  "main_round once uid ans d =
     (if poll_result ans < 0 then
        (if poll_errno ans = errno_code EINTR then Continue d else Stop True d)
      else if signal_revents ans AND POLLIN \<noteq> 0 then
        Stop (read_bytes ans \<noteq> sizeof_siginfo \<and> \<not> (read_bytes ans < 0 \<and> read_errno ans = errno_code EAGAIN)) d
      else if signal_revents ans AND POLL_FAILURE \<noteq> 0 \<or> listener_revents ans AND POLL_FAILURE \<noteq> 0 then Stop True d
      else if listener_revents ans AND POLLIN = 0 then Continue d
      else case accept_answer ans of
        Inl e \<Rightarrow> if e = errno_code EINTR then Continue d else Stop True d
      | Inr client_fd \<Rightarrow>
          let d = d\<lparr>open_fds := insert client_fd (open_fds d)\<rparr> in
          if once then Stop (serve_result ans \<noteq> 0 \<and> \<not> is_normal_client_disconnect (serve_result ans)) (close_fd client_fd d)
          else Continue (start_worker uid ans client_fd d))"

subsection \<open>Start and exit\<close>

text \<open>The arguments after the program name: an exit code, or the path and whether one connection is served.\<close>

datatype invocation = Exit int | Run string bool

fun parse_arguments :: "string list \<Rightarrow> string option \<Rightarrow> bool \<Rightarrow> invocation" where
  "parse_arguments [] socket_path once =
     (case socket_path of None \<Rightarrow> Exit EXIT_FAILURE | Some path \<Rightarrow> if path = [] then Exit EXIT_FAILURE else Run path once)"
| "parse_arguments (arg # rest) socket_path once =
     (if arg = ''--once'' then parse_arguments rest socket_path True
      else if arg = ''--socket'' \<and> rest \<noteq> [] then parse_arguments (tl rest) (Some (hd rest)) once
      else if arg = ''--help'' then Exit EXIT_SUCCESS
      else Exit EXIT_FAILURE)"

record startup_answers =
  sigset_answer :: int
  sigmask_answer :: int
  signalfd_answer :: "int + nat"
  listen_answers :: fs_answers
  broker_answers :: create_answers
  worker_attr_init :: int
  worker_attr_setstacksize :: int

definition create_signal_fd :: "startup_answers \<Rightarrow> int" where
  "create_signal_fd ans =
     (if sigset_answer ans \<noteq> 0 then - sigset_answer ans
      else if sigmask_answer ans \<noteq> 0 then - sigmask_answer ans
      else case signalfd_answer ans of Inl e \<Rightarrow> - e | Inr fd \<Rightarrow> int fd)"

text \<open>What happens to the resources of the start, in order.\<close>

datatype daemon_event =
    Signal_fd nat | Close_fd nat | Unlink_socket string | File_event fs_effect | Broker_event resource_event
  | Make_attributes | Destroy_attributes

text \<open>The destruction of the broker in this log: the monitor is joined, the descriptors of the watched processes are closed, and the
  rest is released. The broker opens and closes those descriptors itself; they are not among the \<open>open_fds\<close> of the daemon.\<close>

definition destroy_events :: "int \<Rightarrow> tgc_broker \<Rightarrow> daemon_event list" where
  "destroy_events lock broker =
     (let (broker, closed, released) = tgc_broker_destroy lock broker;
          joined = takeWhile (\<lambda>e. e = Release Monitor_thread) released
      in map Broker_event joined @ map (\<lambda>fd. Close_fd (nat fd)) closed @ map Broker_event (drop (length joined) released))"

text \<open>The start up to the loop: the exit code, or the two descriptors and the broker. \<open>lock\<close> is the answer to locking the broker's mutex when it is destroyed.\<close>

definition startup :: "startup_answers \<Rightarrow> int \<Rightarrow> string \<Rightarrow> u32 \<Rightarrow> (int + nat \<times> nat \<times> tgc_broker) \<times> daemon_event list" where
  "startup ans lock socket_path uid =
     (let signal_fd = create_signal_fd ans in
      if signal_fd < 0 then (Inl EXIT_FAILURE, [])
      else
        let (listener_fd, files) = tgc_transport_listen (listen_answers ans) socket_path uid;
            log = Signal_fd (nat signal_fd) # map File_event files
        in if listener_fd < 0 then (Inl EXIT_FAILURE, log @ [Close_fd (nat signal_fd)])
        else
          let (broker, made) = tgc_broker_create (broker_answers ans);
              log = log @ map Broker_event made;
              undo = [Close_fd (nat listener_fd), Close_fd (nat signal_fd), Unlink_socket socket_path]
          in case broker of
               None \<Rightarrow> (Inl EXIT_FAILURE, log @ undo)
             | Some broker \<Rightarrow>
                 let result = worker_attr_init ans;
                     initialized = (result = 0);
                     result = (if result = 0 then worker_attr_setstacksize ans else result);
                     log = log @ (if initialized then [Make_attributes] else [])
                 in if result \<noteq> 0
                    then (Inl EXIT_FAILURE,
                      log @ (if initialized then [Destroy_attributes] else []) @
                      destroy_events lock broker @ undo)
                    else (Inr (nat signal_fd, nat listener_fd, broker), log))"

text \<open>The process when the loop begins, with the descriptors it had before, and the end of \<open>main\<close> after the loop.\<close>

definition fresh_daemon :: "nat set \<Rightarrow> nat \<Rightarrow> nat \<Rightarrow> daemon" where
  "fresh_daemon inherited signal_fd listener_fd =
     \<lparr>workers = replicate MAX_CLIENTS empty_worker, open_fds = inherited \<union> {signal_fd, listener_fd}, threads = {}, closed_slots = {},
      shut_fds = [], bad_closes = 0, bad_joins = 0\<rparr>"

definition finish ::
  "nat \<Rightarrow> nat \<Rightarrow> string \<Rightarrow> (nat \<Rightarrow> int) \<Rightarrow> int \<Rightarrow> tgc_broker \<Rightarrow> int \<Rightarrow> bool \<Rightarrow> daemon \<Rightarrow> int \<times> daemon \<times> daemon_event list" where
  "finish signal_fd listener_fd socket_path results lock broker unlink_answer failed d =
     (let d = close_fd signal_fd (close_fd listener_fd d);
          d = stop_and_join_workers results d;
          log = [Destroy_attributes, Close_fd listener_fd, Close_fd signal_fd] @ destroy_events lock broker @ [Unlink_socket socket_path];
          failed = (failed \<or> unlink_answer \<noteq> 0 \<and> unlink_answer \<noteq> errno_code ENOENT)
      in (if failed then EXIT_FAILURE else EXIT_SUCCESS, d, log))"

subsection \<open>Descriptors and threads\<close>

text \<open>The slots in use, and those whose connection is still open.\<close>

definition used :: "daemon \<Rightarrow> nat set" where
  "used d = {i. i < MAX_CLIENTS \<and> active (workers d ! i)}"

definition live :: "daemon \<Rightarrow> nat set" where
  "live d = used d - closed_slots d"

definition fd_of :: "daemon \<Rightarrow> nat \<Rightarrow> nat" where
  "fd_of d i = socket_fd (workers d ! i)"

definition thread_of :: "daemon \<Rightarrow> nat \<Rightarrow> nat" where
  "thread_of d i = worker_thread (workers d ! i)"

text \<open>The descriptors of the process are those it holds for itself and one for each live slot; its threads are one for each slot in use; a thread is done
  only after it has closed its connection; nothing was closed or joined twice.\<close>

definition daemon_ok :: "nat set \<Rightarrow> daemon \<Rightarrow> bool" where
  "daemon_ok base d \<longleftrightarrow>
     length (workers d) = MAX_CLIENTS \<and>
     open_fds d = base \<union> fd_of d ` live d \<and> base \<inter> fd_of d ` live d = {} \<and> inj_on (fd_of d) (live d) \<and>
     threads d = thread_of d ` used d \<and> inj_on (thread_of d) (used d) \<and>
     (\<forall>i\<in>used d. worker_done (workers d ! i) \<longrightarrow> i \<in> closed_slots d) \<and>
     bad_closes d = 0 \<and> bad_joins d = 0"

lemma daemon_okD:
  assumes "daemon_ok base d"
  shows "length (workers d) = MAX_CLIENTS" "open_fds d = base \<union> fd_of d ` live d" "base \<inter> fd_of d ` live d = {}" "inj_on (fd_of d) (live d)"
    "threads d = thread_of d ` used d" "inj_on (thread_of d) (used d)"
    "\<And>i. i \<in> used d \<Longrightarrow> worker_done (workers d ! i) \<Longrightarrow> i \<in> closed_slots d" "bad_closes d = 0" "bad_joins d = 0"
  using assms by (auto simp: daemon_ok_def)

lemma fresh_daemon_ok: "daemon_ok (inherited \<union> {signal_fd, listener_fd}) (fresh_daemon inherited signal_fd listener_fd)"
proof -
  have "used (fresh_daemon inherited signal_fd listener_fd) = {}" by (auto simp: used_def fresh_daemon_def empty_worker_def)
  then show ?thesis by (simp add: daemon_ok_def live_def) (simp add: fresh_daemon_def)
qed

text \<open>A thread closes its connection.\<close>

lemma serve_close_ok:
  assumes ok: "daemon_ok base d" and i: "i \<in> live d"
  shows "daemon_ok base (serve_client_close i r d)" "used (serve_client_close i r d) = used d"
    "closed_slots (serve_client_close i r d) = insert i (closed_slots d)"
    "worker_done (workers (serve_client_close i r d) ! i) = worker_done (workers d ! i)"
    "thread_of (serve_client_close i r d) = thread_of d" "fd_of (serve_client_close i r d) = fd_of d"
proof -
  let ?d = "serve_client_close i r d"
  note okD = daemon_okD [OF ok]
  have len: "i < length (workers d)" using i okD(1) by (auto simp: live_def used_def)
  have w: "workers ?d = (workers d)[i := (workers d ! i)\<lparr>worker_result := r\<rparr>]"
    and rest: "closed_slots ?d = insert i (closed_slots d)" "threads ?d = threads d" "bad_joins ?d = bad_joins d"
      "open_fds ?d = open_fds d - {fd_of d i}" "bad_closes ?d = bad_closes d + (if fd_of d i \<in> open_fds d then 0 else 1)"
    using len by (simp_all add: serve_client_close_def Let_def close_fd_def set_worker_def fd_of_def)
  show used: "used ?d = used d" using len by (auto simp: used_def w nth_list_update)
  show closed: "closed_slots ?d = insert i (closed_slots d)" by (rule rest(1))
  show thr: "thread_of ?d = thread_of d" and fd: "fd_of ?d = fd_of d"
    using len by (auto simp: thread_of_def fd_of_def w nth_list_update fun_eq_iff)
  have d: "worker_done (workers ?d ! j) = worker_done (workers d ! j)" for j using len by (simp add: w nth_list_update)
  show "worker_done (workers ?d ! i) = worker_done (workers d ! i)" by (rule d)
  have live: "live ?d = live d - {i}" by (auto simp: live_def used closed)
  have "fd_of d ` (live d - {i}) = fd_of d ` live d - {fd_of d i}" using okD(4) i by (auto simp: inj_on_def)
  moreover have "fd_of d i \<in> open_fds d" "fd_of d i \<notin> base" using okD(2,3) i by auto
  moreover have "inj_on (fd_of d) (live d - {i})" by (rule inj_on_subset [OF okD(4)]) auto
  ultimately show "daemon_ok base ?d"
    using okD by (auto simp: daemon_ok_def w used live thr fd d rest)
qed

lemma serve_done_ok:
  assumes ok: "daemon_ok base d" and i: "i \<in> used d" "i \<in> closed_slots d"
  shows "daemon_ok base (serve_client_done i d)" "used (serve_client_done i d) = used d" "closed_slots (serve_client_done i d) = closed_slots d"
    "thread_of (serve_client_done i d) = thread_of d" "fd_of (serve_client_done i d) = fd_of d"
proof -
  let ?d = "serve_client_done i d"
  note okD = daemon_okD [OF ok]
  have len: "i < length (workers d)" using i okD(1) by (auto simp: used_def)
  have w: "workers ?d = (workers d)[i := (workers d ! i)\<lparr>worker_done := True\<rparr>]"
    by (simp add: serve_client_done_def set_worker_def)
  show used: "used ?d = used d" using len by (auto simp: used_def w nth_list_update)
  show closed: "closed_slots ?d = closed_slots d" by (simp add: serve_client_done_def set_worker_def)
  show thr: "thread_of ?d = thread_of d" and fd: "fd_of ?d = fd_of d"
    using len by (auto simp: thread_of_def fd_of_def w nth_list_update fun_eq_iff)
  have live: "live ?d = live d" by (simp add: live_def used closed)
  have "j \<in> closed_slots d" if "j \<in> used d" "worker_done (workers ?d ! j)" for j
    using that i okD(7) len by (cases "j = i") (auto simp: w)
  then show "daemon_ok base ?d"
    using okD by (auto simp: daemon_ok_def w used live closed thr fd) (auto simp: serve_client_done_def set_worker_def)
qed

text \<open>A slot is given up after its thread has ended.\<close>

lemma release_slot_ok:
  assumes ok: "daemon_ok base d" and i: "i \<in> used d" "i \<in> closed_slots d"
  defines "d' \<equiv> set_worker i (\<lambda>w. w\<lparr>active := False\<rparr>) (join_thread (worker_thread (workers d ! i)) d)"
  shows "daemon_ok base d'" "used d' = used d - {i}" "closed_slots d' = closed_slots d" "live d' = live d" "fd_of d' = fd_of d"
proof -
  note okD = daemon_okD [OF ok]
  have len: "i < length (workers d)" using i okD(1) by (auto simp: used_def)
  have w: "workers d' = (workers d)[i := (workers d ! i)\<lparr>active := False\<rparr>]"
    and rest: "open_fds d' = open_fds d" "closed_slots d' = closed_slots d" "bad_closes d' = bad_closes d" "threads d' = threads d - {thread_of d i}"
      "bad_joins d' = bad_joins d + (if thread_of d i \<in> threads d then 0 else 1)"
    by (simp_all add: d'_def set_worker_def join_thread_def thread_of_def)
  show used: "used d' = used d - {i}" using len by (auto simp: used_def w nth_list_update)
  show closed: "closed_slots d' = closed_slots d" by (rule rest(2))
  show live: "live d' = live d" using i by (auto simp: live_def used closed)
  have thr: "thread_of d' = thread_of d" using len by (auto simp: thread_of_def w nth_list_update fun_eq_iff)
  show fd: "fd_of d' = fd_of d" using len by (auto simp: fd_of_def w nth_list_update fun_eq_iff)
  have "worker_done (workers d' ! j) = worker_done (workers d ! j)" for j using len by (simp add: w nth_list_update)
  moreover have "thread_of d ` (used d - {i}) = thread_of d ` used d - {thread_of d i}" using okD(6) i by (auto simp: inj_on_def)
  moreover have "thread_of d i \<in> threads d" using okD(5) i by simp
  moreover have "inj_on (thread_of d) (used d - {i})" by (rule inj_on_subset [OF okD(6)]) auto
  ultimately show "daemon_ok base d'"
    using okD by (auto simp: daemon_ok_def w used live closed thr fd rest)
qed

lemma reap_worker_ok:
  assumes ok: "daemon_ok base d" and i: "i < MAX_CLIENTS"
  shows "daemon_ok base (reap_worker i d)" "used (reap_worker i d) \<subseteq> used d" "live (reap_worker i d) = live d" "fd_of (reap_worker i d) = fd_of d"
proof -
  have "daemon_ok base (reap_worker i d) \<and> used (reap_worker i d) \<subseteq> used d \<and> live (reap_worker i d) = live d \<and> fd_of (reap_worker i d) = fd_of d"
  proof (cases "active (workers d ! i) \<and> worker_done (workers d ! i)")
    case True
    then have "i \<in> used d" "i \<in> closed_slots d" using i daemon_okD(7) [OF ok] by (auto simp: used_def)
    from release_slot_ok [OF ok this] True show ?thesis by (auto simp: reap_worker_def Let_def)
  next
    case False
    then show ?thesis using ok by (auto simp: reap_worker_def Let_def)
  qed
  then show "daemon_ok base (reap_worker i d)" "used (reap_worker i d) \<subseteq> used d" "live (reap_worker i d) = live d" "fd_of (reap_worker i d) = fd_of d"
    by blast+
qed

lemma reap_all_ok:
  assumes "daemon_ok base d" "\<forall>i\<in>set is. i < MAX_CLIENTS"
  shows "daemon_ok base (fold reap_worker is d) \<and> used (fold reap_worker is d) \<subseteq> used d \<and> live (fold reap_worker is d) = live d \<and>
    fd_of (fold reap_worker is d) = fd_of d"
  using assms
proof (induction "is" arbitrary: d)
  case (Cons i "is")
  note step = reap_worker_ok [OF Cons.prems(1), of i]
  from Cons.IH [OF step(1)] step(2-) Cons.prems show ?case by auto
qed simp

lemma reap_ok:
  assumes "daemon_ok base d"
  shows "daemon_ok base (reap_finished_workers d)" "live (reap_finished_workers d) = live d" "fd_of (reap_finished_workers d) = fd_of d"
    "open_fds (reap_finished_workers d) = open_fds d"
proof -
  have r: "daemon_ok base (reap_finished_workers d)" "live (reap_finished_workers d) = live d" "fd_of (reap_finished_workers d) = fd_of d"
    using reap_all_ok [OF assms, of "[0..<MAX_CLIENTS]"] unfolding reap_finished_workers_def by auto
  then show "daemon_ok base (reap_finished_workers d)" "live (reap_finished_workers d) = live d" "fd_of (reap_finished_workers d) = fd_of d"
    by blast+
  show "open_fds (reap_finished_workers d) = open_fds d" using daemon_okD(2) [OF r(1)] daemon_okD(2) [OF assms] r by simp
qed

text \<open>A connection is given to a free slot.\<close>

definition take_slot :: "u32 \<Rightarrow> nat \<Rightarrow> nat \<Rightarrow> nat \<Rightarrow> daemon \<Rightarrow> daemon" where
  "take_slot uid client_fd t i d =
     d\<lparr>workers := (workers d)[i := (workers d ! i)\<lparr>expected_uid := uid, socket_fd := client_fd, worker_result := 0, active := True,
           worker_done := False, worker_thread := t\<rparr>],
       closed_slots := closed_slots d - {i}, threads := insert t (threads d)\<rparr>"

lemma take_slot_ok:
  assumes ok: "daemon_ok base d" and i: "i < MAX_CLIENTS" "\<not> active (workers d ! i)"
    and fresh: "client_fd \<notin> open_fds d" "t \<notin> threads d"
  shows "daemon_ok base ((take_slot uid client_fd t i d)\<lparr>open_fds := insert client_fd (open_fds d)\<rparr>)"
proof -
  define d' where "d' = (take_slot uid client_fd t i d)\<lparr>open_fds := insert client_fd (open_fds d)\<rparr>"
  note okD = daemon_okD [OF ok]
  have len: "i < length (workers d)" using i okD(1) by simp
  have out: "i \<notin> used d" "i \<notin> live d" using i by (auto simp: used_def live_def)
  have w: "workers d' = (workers d)[i := (workers d ! i)\<lparr>expected_uid := uid, socket_fd := client_fd, worker_result := 0, active := True,
      worker_done := False, worker_thread := t\<rparr>]" by (simp add: d'_def take_slot_def)
  have used: "used d' = insert i (used d)" using len i by (auto simp: used_def w nth_list_update)
  have closed: "closed_slots d' = closed_slots d - {i}" by (simp add: d'_def take_slot_def)
  have live: "live d' = insert i (live d)" using out by (auto simp: live_def used closed)
  have fd: "fd_of d' = (fd_of d)(i := client_fd)" and thr: "thread_of d' = (thread_of d)(i := t)"
    using len by (auto simp: fd_of_def thread_of_def w nth_list_update fun_eq_iff)
  have same: "((fd_of d)(i := client_fd)) ` live d = fd_of d ` live d" "((thread_of d)(i := t)) ` used d = thread_of d ` used d"
    using out by (auto simp: image_iff) 
  have "inj_on ((fd_of d)(i := client_fd)) (insert i (live d))" "inj_on ((thread_of d)(i := t)) (insert i (used d))"
    using okD(2,4,5,6) out fresh by (auto simp: inj_on_def)
  moreover have "j \<in> closed_slots d - {i}" if "j \<in> insert i (used d)" "worker_done (workers d' ! j)" for j
    using that okD(7) len by (cases "j = i") (auto simp: w)
  moreover have "length (workers d') = MAX_CLIENTS" "bad_closes d' = 0" "bad_joins d' = 0" "threads d' = insert t (threads d)"
    "open_fds d' = insert client_fd (open_fds d)"
    using okD by (simp_all add: d'_def take_slot_def)
  moreover have "client_fd \<notin> base" "insert client_fd (open_fds d) = base \<union> insert client_fd (fd_of d ` live d)"
    using okD(2) fresh by auto
  moreover have "live d \<inter> {x. x \<noteq> i} = live d" "used d \<inter> {x. x \<noteq> i} = used d" using out by auto
  ultimately have "daemon_ok base d'"
    using okD(3,5) by (auto simp: daemon_ok_def used live closed fd thr same)
  then show ?thesis by (simp add: d'_def)
qed

lemma start_worker_cases:
  assumes r: "reap_finished_workers d = r"
  obtains (full) "start_worker uid ans client_fd d = close_fd client_fd r"
    | (failed) i w where "i < length (workers r)" "\<not> active (workers r ! i)" "\<not> active w"
      "start_worker uid ans client_fd d = close_fd client_fd (r\<lparr>closed_slots := closed_slots r - {i}, workers := (workers r)[i := w]\<rparr>)"
    | (started) i where "i < length (workers r)" "\<not> active (workers r ! i)"
      "start_worker uid ans client_fd d = take_slot uid client_fd (new_thread ans) i r"
proof (cases "find_index (\<lambda>w. \<not> active w) (workers r)")
  case None
  then show ?thesis by (intro full) (simp add: start_worker_def available_worker_def r)
next
  case (Some i)
  note i = find_index_SomeD(1,2) [OF Some]
  show ?thesis
  proof (cases "create_answer ans = 0")
    case True
    with Some i show ?thesis
      by (intro started [of i]) (simp_all add: start_worker_def available_worker_def Let_def r set_worker_def take_slot_def)
  next
    case False
    with Some i show ?thesis
      by (intro failed [of i "(workers r ! i)\<lparr>expected_uid := uid, socket_fd := client_fd, worker_result := 0, worker_done := False, active := False\<rparr>"])
        (simp_all add: start_worker_def available_worker_def Let_def r set_worker_def)
  qed
qed

lemma idle_slot_ok:
  assumes ok: "daemon_ok base d" and i: "i < length (workers d)" "\<not> active (workers d ! i)" "\<not> active w"
  shows "daemon_ok base (d\<lparr>closed_slots := closed_slots d - {i}, workers := (workers d)[i := w]\<rparr>)"
proof -
  define d' where "d' = d\<lparr>closed_slots := closed_slots d - {i}, workers := (workers d)[i := w]\<rparr>"
  note okD = daemon_okD [OF ok]
  have out: "i \<notin> used d" using i by (auto simp: used_def)
  have used: "used d' = used d" using i by (auto simp: used_def d'_def nth_list_update)
  have closed: "closed_slots d' = closed_slots d - {i}" by (simp add: d'_def)
  have live: "live d' = live d" using out by (auto simp: live_def used closed)
  have same: "fd_of d' j = fd_of d j" "thread_of d' j = thread_of d j" "worker_done (workers d' ! j) = worker_done (workers d ! j)"
    if "j \<in> used d" for j
  proof -
    have "j \<noteq> i" using that out by auto
    then show "fd_of d' j = fd_of d j" "thread_of d' j = thread_of d j" "worker_done (workers d' ! j) = worker_done (workers d ! j)"
      by (simp_all add: fd_of_def thread_of_def d'_def)
  qed
  have sub: "live d \<subseteq> used d" by (auto simp: live_def)
  have "fd_of d' ` live d = fd_of d ` live d" "thread_of d' ` used d = thread_of d ` used d"
    using same sub by (auto intro!: image_cong)
  moreover have "inj_on (fd_of d') (live d)" "inj_on (thread_of d') (used d)"
    using okD(4,6) same sub by (auto simp: inj_on_def subset_iff)
  moreover have "\<forall>j\<in>used d. worker_done (workers d' ! j) \<longrightarrow> j \<in> closed_slots d'"
    using same(3) okD(7) out by (auto simp: d'_def)
  ultimately have "daemon_ok base d'"
    using okD by (simp add: daemon_ok_def used live) (simp add: d'_def)
  then show ?thesis by (simp add: d'_def)
qed

lemma reap_open_fds: "reap_finished_workers (d\<lparr>open_fds := s\<rparr>) = (reap_finished_workers d)\<lparr>open_fds := s\<rparr>"
proof -
  have "reap_worker i (d\<lparr>open_fds := s\<rparr>) = (reap_worker i d)\<lparr>open_fds := s\<rparr>" for i d
    by (simp add: reap_worker_def set_worker_def join_thread_def Let_def)
  then have "fold reap_worker is (d\<lparr>open_fds := s\<rparr>) = (fold reap_worker is d)\<lparr>open_fds := s\<rparr>" for "is"
    by (induction "is" arbitrary: d) simp_all
  then show ?thesis by (simp add: reap_finished_workers_def)
qed

lemma close_new_fd:
  "fd \<notin> open_fds d \<Longrightarrow> close_fd fd (d\<lparr>open_fds := insert fd (open_fds d)\<rparr>) = d"
  by (simp add: close_fd_def)

text \<open>An accepted connection ends up with a thread, or is closed.\<close>

lemma start_worker_ok:
  assumes ok: "daemon_ok base d" and fresh: "client_fd \<notin> open_fds d" "new_thread ans \<notin> threads (reap_finished_workers d)"
  shows "daemon_ok base (start_worker uid ans client_fd (d\<lparr>open_fds := insert client_fd (open_fds d)\<rparr>))"
proof -
  define r where "r = reap_finished_workers d"
  have r: "daemon_ok base r" "open_fds r = open_fds d" using reap_ok [OF ok] by (simp_all add: r_def)
  have reaped: "reap_finished_workers (d\<lparr>open_fds := insert client_fd (open_fds d)\<rparr>) = r\<lparr>open_fds := insert client_fd (open_fds r)\<rparr>"
    by (simp add: reap_open_fds r_def [symmetric] r(2))
  have close: "close_fd client_fd (d'\<lparr>open_fds := insert client_fd (open_fds r)\<rparr>) = d'" if "open_fds d' = open_fds r" for d'
    using that fresh(1) r(2) close_new_fd [of client_fd d'] by simp
  show ?thesis using reaped
  proof (cases rule: start_worker_cases [of _ _ uid ans client_fd])
    case full
    then show ?thesis using close [of r] r by simp
  next
    case (failed i w)
    then have "start_worker uid ans client_fd (d\<lparr>open_fds := insert client_fd (open_fds d)\<rparr>) =
        close_fd client_fd ((r\<lparr>closed_slots := closed_slots r - {i}, workers := (workers r)[i := w]\<rparr>)\<lparr>open_fds := insert client_fd (open_fds r)\<rparr>)"
      by (cases r) simp
    also have "\<dots> = r\<lparr>closed_slots := closed_slots r - {i}, workers := (workers r)[i := w]\<rparr>" by (rule close) simp
    finally show ?thesis using failed idle_slot_ok [OF r(1), of i w] by simp
  next
    case (started i)
    then have i: "i < MAX_CLIENTS" "\<not> active (workers r ! i)" using daemon_okD(1) [OF r(1)] by simp_all
    have "start_worker uid ans client_fd (d\<lparr>open_fds := insert client_fd (open_fds d)\<rparr>) =
        (take_slot uid client_fd (new_thread ans) i r)\<lparr>open_fds := insert client_fd (open_fds r)\<rparr>"
      using started(3) by (simp add: take_slot_def)
    then show ?thesis using take_slot_ok [OF r(1) i, of client_fd "new_thread ans" uid] fresh r(2) by (simp add: r_def)
  qed
qed

subsection \<open>The threads of the daemon\<close>

text \<open>The steps of the main thread and of the workers, in any order. The system gives a descriptor that is not open, and a thread that does not exist.\<close>

inductive daemon_step :: "u32 \<Rightarrow> daemon \<Rightarrow> daemon \<Rightarrow> bool" for uid where
  round: "main_round False uid ans d = Continue d' \<Longrightarrow> (\<And>fd. accept_answer ans = Inr fd \<Longrightarrow> fd \<notin> open_fds d) \<Longrightarrow>
    new_thread ans \<notin> threads (reap_finished_workers d) \<Longrightarrow> daemon_step uid d d'"
| client_close: "i \<in> live d \<Longrightarrow> daemon_step uid d (serve_client_close i r d)"
| client_done: "i \<in> used d \<Longrightarrow> i \<in> closed_slots d \<Longrightarrow> daemon_step uid d (serve_client_done i d)"

abbreviation daemon_reachable :: "u32 \<Rightarrow> nat set \<Rightarrow> nat \<Rightarrow> nat \<Rightarrow> daemon \<Rightarrow> bool" where
  "daemon_reachable uid inherited signal_fd listener_fd \<equiv>
     reached (\<lambda>d. d = fresh_daemon inherited signal_fd listener_fd) (daemon_step uid)"

lemma main_round_ok:
  assumes "daemon_ok base d" "main_round False uid ans d = Continue d'" "\<And>fd. accept_answer ans = Inr fd \<Longrightarrow> fd \<notin> open_fds d"
    "new_thread ans \<notin> threads (reap_finished_workers d)"
  shows "daemon_ok base d'"
proof -
  from assms(2) have "d' = d \<or> (\<exists>fd. accept_answer ans = Inr fd \<and> d' = start_worker uid ans fd (d\<lparr>open_fds := insert fd (open_fds d)\<rparr>))"
    by (auto simp: main_round_def Let_def split: if_splits sum.splits)
  with assms start_worker_ok [OF assms(1) _ assms(4)] show ?thesis by auto
qed

lemma daemon_step_ok: "daemon_step uid d d' \<Longrightarrow> daemon_ok base d \<Longrightarrow> daemon_ok base d'"
  by (induction rule: daemon_step.induct) (auto intro: main_round_ok serve_close_ok(1) serve_done_ok(1))

interpretation daemon_threads: transition_system "\<lambda>d. d = fresh_daemon inherited signal_fd listener_fd" "daemon_step uid"
    "daemon_ok (inherited \<union> {signal_fd, listener_fd})" for inherited signal_fd listener_fd uid
  by unfold_locales (blast intro: fresh_daemon_ok daemon_step_ok)+

lemmas daemon_reachable_ok = daemon_threads.reached_inv

lemma stop_worker_ok:
  assumes ok: "daemon_ok base d" and i: "i < MAX_CLIENTS"
  shows "daemon_ok base (stop_worker results i d) \<and> used (stop_worker results i d) = used d - {i}"
proof (cases "active (workers d ! i)")
  case False
  then show ?thesis using ok by (auto simp: stop_worker_def Let_def used_def)
next
  case True
  then have used: "i \<in> used d" using i by (simp add: used_def)
  define d1 where "d1 = (if i \<in> closed_slots d then d else serve_client_close i (results i) d)"
  have d1: "daemon_ok base d1" "used d1 = used d" "i \<in> closed_slots d1" "thread_of d1 = thread_of d"
    using ok used serve_close_ok [OF ok, of i "results i"] by (auto simp: d1_def live_def)
  define d2 where "d2 = (if worker_done (workers d1 ! i) then d1 else serve_client_done i d1)"
  have d2: "daemon_ok base d2" "used d2 = used d" "i \<in> closed_slots d2" "thread_of d2 = thread_of d"
    using d1 used serve_done_ok [OF d1(1), of i] by (auto simp: d2_def)
  have "run_to_end i (results i) d = d2" by (simp add: run_to_end_def d1_def d2_def Let_def)
  moreover have "worker_thread (workers d ! i) = worker_thread (workers d2 ! i)" using d2(4) by (simp add: thread_of_def fun_eq_iff)
  ultimately have "stop_worker results i d = set_worker i (\<lambda>w. w\<lparr>active := False\<rparr>) (join_thread (worker_thread (workers d2 ! i)) d2)"
    using True by (simp add: stop_worker_def Let_def)
  with release_slot_ok(1,2) [OF d2(1) _ d2(3)] d2(2) used show ?thesis by simp
qed

lemma stop_all_ok:
  assumes "daemon_ok base d" "\<forall>i\<in>set is. i < MAX_CLIENTS"
  shows "daemon_ok base (fold (stop_worker results) is d) \<and> used (fold (stop_worker results) is d) = used d - set is"
  using assms
proof (induction "is" arbitrary: d)
  case (Cons i "is")
  note step = stop_worker_ok [OF Cons.prems(1), of i results]
  with Cons.IH [of "stop_worker results i d"] Cons.prems show ?case by auto
qed simp

text \<open>C24. Every connection has one owner. In every state the daemon can reach, whatever clients connect and however the main thread and the workers
  interleave, each descriptor beyond those the process holds for itself belongs to exactly one used slot whose thread still serves it,
  each thread belongs to exactly one used slot, and no descriptor is closed twice and no thread joined twice. There are never more than 64 threads.\<close>

theorem daemon_owns_connections:
  assumes "daemon_reachable uid inherited signal_fd listener_fd d"
  shows "(\<forall>fd\<in>open_fds d - (inherited \<union> {signal_fd, listener_fd}).
      \<exists>!i. i < MAX_CLIENTS \<and> active (workers d ! i) \<and> i \<notin> closed_slots d \<and> socket_fd (workers d ! i) = fd) \<and>
    (\<forall>i<MAX_CLIENTS. active (workers d ! i) \<and> i \<notin> closed_slots d \<longrightarrow> socket_fd (workers d ! i) \<in> open_fds d - (inherited \<union> {signal_fd, listener_fd})) \<and>
    (\<forall>t\<in>threads d. \<exists>!i. i < MAX_CLIENTS \<and> active (workers d ! i) \<and> worker_thread (workers d ! i) = t) \<and>
    card (threads d) \<le> MAX_CLIENTS \<and> length (workers d) = MAX_CLIENTS \<and> bad_closes d = 0 \<and> bad_joins d = 0"
proof -
  let ?base = "inherited \<union> {signal_fd, listener_fd}"
  note okD = daemon_okD [OF daemon_reachable_ok [OF assms]]
  have fds: "open_fds d - ?base = fd_of d ` live d" using okD(2,3) by auto
  have "\<exists>!i. i < MAX_CLIENTS \<and> active (workers d ! i) \<and> i \<notin> closed_slots d \<and> socket_fd (workers d ! i) = fd" if "fd \<in> fd_of d ` live d" for fd
    using that okD(4) unfolding inj_on_def by (auto simp: live_def used_def fd_of_def)
  moreover have "\<exists>!i. i < MAX_CLIENTS \<and> active (workers d ! i) \<and> worker_thread (workers d ! i) = t" if "t \<in> threads d" for t
    using that okD(5,6) unfolding inj_on_def by (auto simp: used_def thread_of_def)
  moreover have "card (threads d) \<le> MAX_CLIENTS"
  proof -
    have "used d \<subseteq> {..<MAX_CLIENTS}" by (auto simp: used_def)
    then have "card (used d) \<le> MAX_CLIENTS" by (metis card_lessThan card_mono finite_lessThan)
    moreover have "card (threads d) \<le> card (used d)" unfolding okD(5)
      by (rule card_image_le) (simp add: used_def)
    ultimately show ?thesis by simp
  qed
  moreover have "socket_fd (workers d ! i) \<in> fd_of d ` live d" if "i < MAX_CLIENTS" "active (workers d ! i)" "i \<notin> closed_slots d" for i
    using that by (auto simp: fd_of_def live_def used_def)
  ultimately show ?thesis using okD(1,8,9) unfolding fds by blast
qed

lemma close_base_ok:
  assumes ok: "daemon_ok (insert fd base) d" and fd: "fd \<notin> base"
  shows "daemon_ok base (close_fd fd d)" "used (close_fd fd d) = used d" "workers (close_fd fd d) = workers d" "shut_fds (close_fd fd d) = shut_fds d"
proof -
  define d' where "d' = close_fd fd d"
  note okD = daemon_okD [OF ok]
  have same: "workers d' = workers d" "closed_slots d' = closed_slots d" "threads d' = threads d" "bad_joins d' = bad_joins d"
    "open_fds d' = open_fds d - {fd}" "bad_closes d' = bad_closes d" "shut_fds d' = shut_fds d"
    using okD(2) by (simp_all add: d'_def close_fd_def)
  have "used d' = used d" "live d' = live d" "fd_of d' = fd_of d" "thread_of d' = thread_of d"
    by (simp_all add: used_def live_def fd_of_def thread_of_def same fun_eq_iff)
  then have "daemon_ok base d'" using okD fd by (auto simp: daemon_ok_def same)
  then show "daemon_ok base (close_fd fd d)" "used (close_fd fd d) = used d" "workers (close_fd fd d) = workers d" "shut_fds (close_fd fd d) = shut_fds d"
    using \<open>used d' = used d\<close> same by (simp_all add: d'_def)
qed

lemma shut_fds_stop [simp]: "shut_fds (fold (stop_worker results) is d) = shut_fds d"
proof -
  have "shut_fds (stop_worker results i d) = shut_fds d" for i d
    by (simp add: stop_worker_def run_to_end_def serve_client_close_def serve_client_done_def set_worker_def join_thread_def close_fd_def Let_def)
  then show ?thesis by (induction "is" arbitrary: d) simp_all
qed

lemma stop_and_join_ok:
  assumes "daemon_ok base d"
  shows "daemon_ok base (stop_and_join_workers results d)" "used (stop_and_join_workers results d) = {}"
    "shut_fds (stop_and_join_workers results d) = shut_fds d @ map socket_fd (filter active (workers d))"
proof -
  let ?d = "d\<lparr>shut_fds := shut_fds d @ map socket_fd (filter active (workers d))\<rparr>"
  have "daemon_ok base ?d" using assms by (simp add: daemon_ok_def used_def live_def fd_of_def [abs_def] thread_of_def [abs_def])
  moreover have "\<forall>i\<in>set [0..<MAX_CLIENTS]. i < MAX_CLIENTS" unfolding set_upt by simp
  ultimately have "daemon_ok base (stop_and_join_workers results d) \<and> used (stop_and_join_workers results d) = used ?d - set [0..<MAX_CLIENTS]"
    unfolding stop_and_join_workers_def Let_def by (rule stop_all_ok)
  moreover have "used ?d - set [0..<MAX_CLIENTS] = {}" unfolding set_upt by (auto simp: used_def)
  ultimately show "daemon_ok base (stop_and_join_workers results d)" "used (stop_and_join_workers results d) = {}" by blast+
  show "shut_fds (stop_and_join_workers results d) = shut_fds d @ map socket_fd (filter active (workers d))"
    unfolding stop_and_join_workers_def Let_def shut_fds_stop by simp
qed

lemma stop_same:
  assumes "main_round once uid ans d = Stop failed d'" "\<And>fd. accept_answer ans = Inr fd \<Longrightarrow> fd \<notin> open_fds d"
  shows "d' = d"
  using assms by (auto simp: main_round_def Let_def close_new_fd split: if_splits sum.splits)

lemma destroy_no_signal [simp]: "Signal_fd fd \<notin> set (destroy_events lock broker)"
  by (auto simp: destroy_events_def Let_def split: prod.split)

lemma concat_map_Nil [simp]: "concat (map (\<lambda>x. []) xs) = []"
  by (induction xs) simp_all

lemma destroy_events_logged:
  "[e. Broker_event e \<leftarrow> destroy_events lock broker] = snd (snd (tgc_broker_destroy lock broker))"
  "[fd. Close_fd fd \<leftarrow> destroy_events lock broker] =
     [nat (watch_pidfd w). w \<leftarrow> process_watchers broker, watch_active w \<and> 0 \<le> watch_pidfd w]"
proof -
  obtain b closed released where destroy: "tgc_broker_destroy lock broker = (b, closed, released)" by (metis prod_cases3)
  have "takeWhile P es @ drop (length (takeWhile P es)) es = es" for P and es :: "resource_event list"
    by (metis dropWhile_eq_drop takeWhile_dropWhile_id)
  then show "[e. Broker_event e \<leftarrow> destroy_events lock broker] = snd (snd (tgc_broker_destroy lock broker))"
    by (simp add: destroy_events_def destroy Let_def comp_def)
  have "process_watchers (if c then broadcast (broker\<lparr>stop_process_monitor := True\<rparr>) else broker) = process_watchers broker" for c
    by (simp add: broadcast_def)
  then have "closed = map watch_pidfd (filter (\<lambda>w. watch_active w \<and> 0 \<le> watch_pidfd w) (process_watchers broker))"
    using destroy by (simp add: tgc_broker_destroy_def Let_def)
  moreover have "[f w. w \<leftarrow> ws, P w] = map f (filter P ws)" for f :: "tgc_process_watcher \<Rightarrow> nat" and P ws by (induction ws) simp_all
  ultimately show "[fd. Close_fd fd \<leftarrow> destroy_events lock broker] =
     [nat (watch_pidfd w). w \<leftarrow> process_watchers broker, watch_active w \<and> 0 \<le> watch_pidfd w]"
    by (simp add: destroy_events_def destroy Let_def comp_def)
qed

text \<open>C25. The daemon leaves nothing behind. When the loop ends in a reachable state, for whatever reason, the end of \<open>main\<close> shuts down every
  connection still open, joins every worker, closes every descriptor it opened exactly once and no other, so that exactly the inherited ones are left, and then destroys the
  broker, which joins its monitor, closes the descriptor of every process it still watches and releases what it had acquired, and removes the
  socket; the exit code reports a failure of the loop or of the removal.\<close>

theorem daemon_exits_clean:
  assumes "daemon_reachable uid inherited signal_fd listener_fd d"
    and "signal_fd \<notin> inherited" "listener_fd \<notin> inherited" "signal_fd \<noteq> listener_fd"
    and "main_round once uid ans d = Stop failed d1" "\<And>fd. accept_answer ans = Inr fd \<Longrightarrow> fd \<notin> open_fds d"
    and "finish signal_fd listener_fd socket_path results lock broker unlink_answer failed d1 = (code, d2, log)"
  shows "open_fds d2 = inherited \<and> threads d2 = {} \<and> (\<forall>i<MAX_CLIENTS. \<not> active (workers d2 ! i)) \<and> bad_closes d2 = 0 \<and> bad_joins d2 = 0 \<and>
    (\<forall>fd\<in>open_fds d - (inherited \<union> {signal_fd, listener_fd}). fd \<in> set (shut_fds d2)) \<and>
    log = [Destroy_attributes, Close_fd listener_fd, Close_fd signal_fd] @ destroy_events lock broker @ [Unlink_socket socket_path] \<and>
    [e. Broker_event e \<leftarrow> log] = snd (snd (tgc_broker_destroy lock broker)) \<and>
    [fd. Close_fd fd \<leftarrow> log] = [listener_fd, signal_fd] @
      [nat (watch_pidfd w). w \<leftarrow> process_watchers broker, watch_active w \<and> 0 \<le> watch_pidfd w] \<and>
    (code = EXIT_SUCCESS \<longleftrightarrow> \<not> failed \<and> (unlink_answer = 0 \<or> unlink_answer = errno_code ENOENT))"
proof -
  have d1: "d1 = d" using stop_same [OF assms(5,6)] .
  define c1 where "c1 = close_fd listener_fd d"
  define c2 where "c2 = close_fd signal_fd c1"
  note ok = daemon_reachable_ok [OF assms(1)]
  have "daemon_ok (insert listener_fd (insert signal_fd inherited)) d" using ok by (simp add: insert_commute)
  note c1 = close_base_ok [OF this, folded c1_def]
  then have "daemon_ok (insert signal_fd inherited) c1" using assms(3,4) by auto
  note c2 = close_base_ok [OF this assms(2), folded c2_def]
  note stop = stop_and_join_ok [OF c2(1), of results]
  have d2: "d2 = stop_and_join_workers results c2" "code = (if failed \<or> unlink_answer \<noteq> 0 \<and> unlink_answer \<noteq> errno_code ENOENT then 1 else 0)"
    "log = [Destroy_attributes, Close_fd listener_fd, Close_fd signal_fd] @ destroy_events lock broker @ [Unlink_socket socket_path]"
    using assms(7) by (auto simp: finish_def Let_def d1 c1_def c2_def)
  note okD = daemon_okD [OF stop(1), folded d2(1)]
  have none: "used d2 = {}" using stop(2) d2(1) by simp
  have workers: "workers c2 = workers d" using c1(3) c2(3) assms(3,4) by auto
  have "fd \<in> set (shut_fds d2)" if "fd \<in> open_fds d - (inherited \<union> {signal_fd, listener_fd})" for fd
  proof -
    from that obtain i where i: "i \<in> used d" "fd = socket_fd (workers d ! i)"
      using daemon_okD(2) [OF ok] by (auto simp: live_def fd_of_def)
    then have "workers d ! i \<in> set (filter active (workers d))" using daemon_okD(1) [OF ok] by (auto simp: used_def)
    then show ?thesis using i stop(3) d2(1) workers by auto
  qed
  then show ?thesis using okD(2,5,8,9) none d2(2,3) by (auto simp: live_def destroy_events_logged) (auto simp: used_def)
qed

text \<open>A start that fails closes what it opened, and removes the socket if it was made.\<close>

lemma startup_undone:
  assumes "startup ans lock socket_path uid = (Inl code, log)"
  shows "code = EXIT_FAILURE" "Signal_fd fd \<in> set log \<Longrightarrow> Close_fd fd \<in> set log"
    "Signal_fd fd \<in> set log \<Longrightarrow> 0 \<le> fst (tgc_transport_listen (listen_answers ans) socket_path uid) \<Longrightarrow>
      Close_fd (nat (fst (tgc_transport_listen (listen_answers ans) socket_path uid))) \<in> set log \<and> Unlink_socket socket_path \<in> set log"
  using assms by (auto simp: startup_def Let_def split: if_splits option.splits prod.splits)

text \<open>A run: one client connects, is served and leaves, and a signal arrives.\<close>

definition example_accept :: loop_answers where
  "example_accept = \<lparr>poll_result = 1, poll_errno = 0, signal_revents = 0, listener_revents = 1, read_bytes = 0, read_errno = 0,
     accept_answer = Inr 7, serve_result = 0, create_answer = 0, new_thread = 9\<rparr>"

definition example_signal :: loop_answers where
  "example_signal = example_accept\<lparr>signal_revents := 1, read_bytes := 128\<rparr>"

definition example_serving :: daemon where
  "example_serving = take_slot 1000 7 9 0 ((fresh_daemon {0, 2} 3 4)\<lparr>open_fds := insert 7 (open_fds (fresh_daemon {0, 2} 3 4))\<rparr>)"

lemma reap_none:
  assumes "\<forall>i<MAX_CLIENTS. \<not> active (workers d ! i)" shows "reap_finished_workers d = d"
proof -
  have "fold reap_worker is d = d" if "\<forall>i\<in>set is. i < MAX_CLIENTS" for "is"
    using that assms by (induction "is") (simp_all add: reap_worker_def Let_def)
  moreover have "\<forall>i\<in>set [0..<MAX_CLIENTS]. i < MAX_CLIENTS" unfolding set_upt by simp
  ultimately show ?thesis unfolding reap_finished_workers_def by blast
qed

lemma example_serving_reachable: "daemon_reachable 1000 {0, 2} 3 4 example_serving"
proof (rule reached_step, rule reached_start, rule refl)
  let ?d = "fresh_daemon {0, 2} 3 4"
  define d where "d = ?d\<lparr>open_fds := insert 7 (open_fds ?d)\<rparr>"
  have w: "workers d = replicate MAX_CLIENTS empty_worker" "workers ?d = replicate MAX_CLIENTS empty_worker" by (simp_all add: d_def fresh_daemon_def)
  have idle: "reap_finished_workers d = d" "reap_finished_workers ?d = ?d"
    by (rule reap_none; simp add: w empty_worker_def)+
  have avail: "available_worker d = (Some 0, d)" by (simp add: available_worker_def idle w empty_worker_def)
  have "main_round False 1000 example_accept ?d = Continue (start_worker 1000 example_accept 7 d)"
    by (simp add: main_round_def example_accept_def d_def)
  also have "start_worker 1000 example_accept 7 d = take_slot 1000 7 9 0 d"
    by (simp add: start_worker_def avail set_worker_def take_slot_def example_accept_def w)
  finally have "main_round False 1000 example_accept ?d = Continue example_serving" by (simp add: example_serving_def d_def)
  then show "daemon_step 1000 ?d example_serving"
    by (rule daemon_step.round) (simp_all add: idle, simp_all add: example_accept_def fresh_daemon_def)
qed

theorem daemon_owns_connections_witness:
  "\<exists>!i. i < 64 \<and> active (workers example_serving ! i) \<and> i \<notin> closed_slots example_serving \<and> socket_fd (workers example_serving ! i) = 7"
proof -
  have "7 \<in> open_fds example_serving - ({0, 2} \<union> {3, 4})" by (simp add: example_serving_def take_slot_def fresh_daemon_def)
  then show ?thesis using daemon_owns_connections [OF example_serving_reachable] by blast
qed

theorem daemon_exits_clean_witness:
  "\<exists>d log. finish 3 4 ''/run/s'' (\<lambda>i. 0) 0 fresh_broker 0 False example_serving = (0, d, log) \<and> open_fds d = {0, 2} \<and> threads d = {} \<and> 7 \<in> set (shut_fds d)"
proof -
  obtain code d log where run: "finish 3 4 ''/run/s'' (\<lambda>i. 0) 0 fresh_broker 0 False example_serving = (code, d, log)"
    by (metis prod_cases3)
  have "main_round False 1000 example_signal example_serving = Stop False example_serving"
    by (simp add: main_round_def example_signal_def example_accept_def)
  moreover have "fd \<notin> open_fds example_serving" if "accept_answer (example_signal\<lparr>accept_answer := Inl 4\<rparr>) = Inr fd" for fd
    using that by (simp add: example_signal_def)
  ultimately have "main_round False 1000 (example_signal\<lparr>accept_answer := Inl 4\<rparr>) example_serving = Stop False example_serving"
    by (simp add: main_round_def example_signal_def example_accept_def)
  from daemon_exits_clean [OF example_serving_reachable _ _ _ this _ run] have
    "open_fds d = {0, 2} \<and> threads d = {} \<and> (\<forall>fd\<in>open_fds example_serving - ({0, 2} \<union> {3, 4}). fd \<in> set (shut_fds d)) \<and> code = 0"
    by (simp add: example_signal_def)
  with run show ?thesis by (simp add: example_serving_def take_slot_def fresh_daemon_def)
qed
end
