(* ===== verification/Spec2Isabelle.thy ===== *)
theory Spec2Isabelle
  imports Overlay Mprotect AndroidRoot Robust ExecShim Daemon
begin

text \<open>
  \<^bold>\<open>termux-glibc-compat.\<close> The repository lets programs linked against glibc run on Android, whose kernel
  refuses some system calls. It has two halves, and this development models both.

  \<^item> A semaphore service. The System V semaphores that the kernel does not provide are kept by a daemon,
    \<open>tgcompatd\<close>. A patched glibc calls the functions of the overlay, which call a client library. The client
    sends one framed request over a Unix socket and reads one framed response. In the daemon a worker thread
    serves each connection: it decodes the request, calls the semaphore store under one mutex, queues the
    request if it has to wait, and encodes the response. A monitor thread undoes the operations of processes
    that have died.
  \<^item> Four preloaded shims: \<open>exec_shim.c\<close> starts glibc programs through the glibc loader, \<open>mprotect_shim.c\<close>
    replaces a mapping the kernel refuses to make executable by an anonymous copy, \<open>android_root_shim.c\<close> redirects paths
    below \<open>/proc\<close>, and \<open>robust_shim.c\<close> answers \<open>get_robust_list\<close>.

  \<^bold>\<open>Theories and sources.\<close> All paths are below \<open>src/\<close>; a definition has the name of the C function it
  translates, where the name is free.

  \<^item> \<^verbatim>\<open>TgcPrelude\<close>: the integer types, the error numbers, searches in arrays, and the interfaces
    \<open>call_system\<close>, \<open>simulation\<close>, \<open>fifo_queue\<close> and \<open>transition_system\<close>.
  \<^item> \<^verbatim>\<open>Wire\<close>: \<open>src/protocol.c\<close>, \<open>include/tgcompat/protocol.h\<close>. A packet is a list of bytes; the
    readers and writers of integers and the header.
  \<^item> \<^verbatim>\<open>SemStore\<close>: \<open>src/sem_store.c\<close>. The record \<open>tgc_sem_store\<close> has the 128 slots for sets and the 4096
    slots for undo adjustments of the struct, and every function of the file is a definition.
    \<^verbatim>\<open>SemStoreInv\<close> has its invariant \<open>store_inv\<close>, \<^verbatim>\<open>SemOp\<close> the reference definition of
    \<open>semop\<close> and what the loops compute, \<^verbatim>\<open>SemSpec\<close> the System V specification \<open>sysv\<close> with the
    abstraction \<open>sv_of\<close>, and \<^verbatim>\<open>SemCalls\<close> sequences of calls.
  \<^item> \<^verbatim>\<open>Dispatch\<close>: \<open>src/broker_dispatch.c\<close>. The state is the store; the packet decides the call.
  \<^item> \<^verbatim>\<open>Transport\<close>: \<open>src/transport.c\<close>. The kernel's answers are arguments: a receive or a send consumes
    a list of events (bytes, interruptions, errors, end of stream).
  \<^item> \<^verbatim>\<open>Client\<close>: \<open>src/client.c\<close>. The record \<open>tgc_client\<close>, the exchange and every call.
  \<^item> \<^verbatim>\<open>Broker\<close>: \<open>src/broker_server.c\<close>. The shared state under the mutex with the list of waiters as cells
    linked by addresses. A blocking request is cut where it waits on the condition variable, so that every
    critical section is one step; the relation \<open>broker_step\<close> interleaves the steps of all threads.
    \<^verbatim>\<open>Service\<close> composes the client, the transport and the broker.
  \<^item> \<^verbatim>\<open>Daemon\<close>: \<open>src/tgcompatd.c\<close>. Arguments, start, the accept loop, the table of workers, the end; the
    relation \<open>daemon_step\<close> interleaves the main thread with the workers.
  \<^item> \<^verbatim>\<open>Overlay\<close>: \<open>integration/termux-glibc/overlay/tgcompat-glibc.c\<close>. The thread-local client and the
    functions the patched glibc calls.
  \<^item> \<^verbatim>\<open>Elf\<close> and \<^verbatim>\<open>ExecShim\<close>: \<open>src/exec_shim.c\<close>. The reader of ELF headers; the environments and
    command lines it builds, the search of \<open>PATH\<close>, and the exec and spawn functions. A C string is a \<open>string\<close>, a block
    of memory a list of slots, and a store beyond its end is the result \<open>None\<close>; a program that calls
    \<open>malloc\<close> and \<open>free\<close> also logs them.
  \<^item> \<^verbatim>\<open>Mprotect\<close>: \<open>src/mprotect_shim.c\<close>, over an address space of bytes with protections.
  \<^item> \<^verbatim>\<open>AndroidRoot\<close>: \<open>src/android_root_shim.c\<close>.
  \<^item> \<^verbatim>\<open>Robust\<close>: \<open>src/robust_shim.c\<close> and \<open>src/robust_shim_aarch64.S\<close>, the assembly as a program of a machine
    with the instructions it uses.
\<close>

text \<open>
  \<^bold>\<open>Interfaces.\<close> What one part relies on in another is a locale, proved of the model by an interpretation.

  \<^item> \<open>wire_codec\<close>: what is read where it was written is what was written, and other bytes stay. Interpreted for the integer
    formats (\<open>u16\<close>, \<open>u32\<close>, \<open>i16\<close>, \<open>i32\<close>, \<open>u64\<close>, \<open>i64\<close>) and for semaphore operations
    (\<open>sem_ops\<close>).
  \<^item> \<open>call_system\<close> and \<open>simulation\<close>: calls that keep an invariant and commute with an abstraction, hence
    histories of calls do. Interpreted for the store (\<open>store_calls\<close>, \<open>store_sysv\<close>) and for the dispatcher
    (\<open>dispatch_calls\<close>, \<open>dispatch_sysv\<close>).
  \<^item> \<open>fifo_queue\<close>: entering at the end and leaving from any place. Interpreted for the linked cells of the
    broker (\<open>waiters\<close>).
  \<^item> \<open>transition_system\<close>: an invariant under interleaved steps. Interpreted for the broker
    (\<open>broker_threads\<close>) and the daemon (\<open>daemon_threads\<close>).

  \<^bold>\<open>What is shown.\<close>

  \<^item> Store: every call keeps \<open>store_inv\<close>; \<open>semop\<close> is the reference definition on every branch and changes
    nothing unless all operations succeed; any history of calls is a history of the System V
    specification; the exit of a process applies its undo adjustments; an identifier that was removed does
    not name the next set created, even one in the same slot.
  \<^item> Wire and dispatch: round trips; a response is a well-formed frame and holds no byte of the broker's memory but the
    answer; bytes after the payload of a request do not matter; histories of requests refine the specification.
  \<^item> Transport: packets arrive whole and in order however the stream is cut; a receive never writes outside
    its buffers; a send completes or reports an error; the socket is created for its owner only, a
    failure after the bind removes it again, and a client accepts only a peer of its own user.
  \<^item> Client, overlay and service: a call through the overlay, the client, the socket and the dispatcher has the result and
    the effect of the call on the store, with the C library's convention for errors; after a failed exchange the connection
    is not used again.
  \<^item> Broker: in every reachable state the list of waiters is exactly the blocked threads; waiters for a set are
    served in order; no wake-up is lost; every critical section ends (the walks along the list are
    \<open>partial_function\<close>s, and that they return is proved); deadlines are exact.
  \<^item> Daemon: in every reachable state the open descriptors are those inherited, the two of the daemon and one
    for each live worker; the end closes and joins all of them. The descriptors of watched processes belong to the broker, and its
    destruction closes them.
  \<^item> Shims: the interpreter read from a file is the one its headers specify, under any short reads; the final
    environment and the command line are the lists specified, built without a store outside a block; the search of
    \<open>PATH\<close> finds the first program to wrap; all memory is returned on every path but the one under Findings;
    without configuration every call reaches the C library unchanged; \<open>mprotect\<close> on whole pages keeps the
    contents of memory; a path below \<open>/proc\<close> is replaced exactly when and as the
    environment says, only for callers that read, and nothing else of a call changes; the assembly, executed over a memory of bytes with
    the addresses of its variables, does what the C version does.

  \<^bold>\<open>Bounds and fuel.\<close> Array sizes are those of the sources (128 sets, 4096 adjustments, 8192 payload
  bytes, 1024 process watchers, 64 workers). The loops of the sources are structural recursions on lists of slots,
  operations or kernel answers; a receive or read whose answers run out before it is done is \<open>None\<close>. The walks
  along linked cells are \<open>partial_function\<close>s and are proved to return in every reachable state. The assembly
  runs with fuel 21, the number of its instructions; it has no backward jump, and that it reaches its end is part of
  the theorem. Where the sources guard against overflow of \<open>size_t\<close>, the guard is in the model, with the value of
  \<open>SIZE_MAX\<close> of a 64-bit host. Behaviour of the kernel and of the C library is an argument; where a theorem needs
  it (the clock is in range, an accepted descriptor is new, a mapping is what was asked for) it is a named hypothesis,
  and the witness of the theorem instantiates it.
\<close>

text \<open>
  \<^bold>\<open>Findings.\<close> Each is a lemma about the model that evaluates the code's behaviour.

  \<^item> \<open>Mprotect.mprotect_loses_tail\<close>: for a length that is not a multiple of the page size the rest of the last
    page is lost.
  \<^item> \<open>ExecShim.original_path_leaks\<close>: one error path of \<open>build_loader_arguments\<close> does not free a block.
  \<^item> \<open>ExecShim.path_order_ignored\<close>: the search of \<open>PATH\<close> passes over an executable that is not to be wrapped.
  \<^item> \<open>ExecShim.shell_search_not_redirected\<close>: a shell found by the search is not redirected.
  \<^item> \<open>AndroidRoot.null_path_keeps_errno\<close>: a null path fails without an error number.
  \<^item> \<open>Broker.retry_keeps_reason\<close>: a waiter that blocks again on another operation is counted for the first.

  \<^bold>\<open>Not modelled.\<close>

  \<^item> The programs under \<open>probes/\<close> and \<open>benchmarks/\<close>, the tests, the scripts, the Makefile and the patches: they
    print, measure, build or install, and the patches change glibc sources that are not in the repository.
  \<^item> The lookup of the real functions with \<open>dlsym\<close> in the constructors of the shims (\<open>resolve_execve\<close> and its
    siblings, \<open>initialize_android_root_shim\<close>, \<open>resolve_syscall\<close>). What they find is an argument of the
    model, and its absence (\<open>None\<close>) is a branch where the source tests for it.
  \<^item> What successful system calls of the client leave in \<open>errno\<close>: it is an argument of the overlay (\<open>errno_left\<close>).
  \<^item> Messages on standard error, and \<open>tgc_sem_store_destroy\<close>, which only frees memory.
  \<^item> The instruction that enters the kernel in \<open>mprotect_shim.c\<close> is the kernel of the model; its branch
    compiled for tests only is left out.
  \<^item> A file that changes while its headers are read, and path arguments that share memory with the environment.
  \<^item> Hosts other than a 64-bit AArch64 one: the ELF class and machine, the system call numbers and the sizes are
    those of that host.
\<close>

end
